(* ===== verification/Kernel_Prelude.thy ===== *)
theory Kernel_Prelude
  imports Main "HOL-Library.Word"
begin

text \<open>
  Shared vocabulary of the development: the C integer types, the outcome type in which every
  kernel routine is written (a routine returns, panics, switches away from its process, spins on
  a lock held by another CPU, or runs into undefined behaviour of C), the sequencing combinator,
  the two loop forms the sources use, and the rules by which routines are executed symbolically.
\<close>

unbundle bit_operations_syntax

section \<open>C integer types\<close>

type_synonym u8 = "8 word"
type_synonym u16 = "16 word"
type_synonym u32 = "32 word"

section \<open>Outcomes of kernel code\<close>

text \<open>
  Sleep channels are addresses of kernel objects; locks are the kernel's spin lock objects.
\<close>

datatype chan = ChBuf nat | ChInode nat | ChProc nat | ChPipeR nat | ChPipeW nat | ChTicks | ChInput

datatype lock = LkBcache | LkIde | LkIcache | LkFtable | LkPtable | LkKmem | LkPipe nat
  | LkTicks | LkCons | LkInput

datatype ('s, 'a) outcome =
    Done 'a 's
  | Panic string
  | Swtch 's
  | Spins lock
  | Undef string

type_synonym ('s, 'a) km = "'s \<Rightarrow> ('s, 'a) outcome"

definition ret :: "'a \<Rightarrow> ('s, 'a) km" where
  "ret a s = Done a s"

definition bindk :: "('s, 'a) km \<Rightarrow> ('a \<Rightarrow> ('s, 'b) km) \<Rightarrow> ('s, 'b) km" where
  "bindk m f s =
     (case m s of Done a t \<Rightarrow> f a t | Panic e \<Rightarrow> Panic e | Swtch t \<Rightarrow> Swtch t
      | Spins l \<Rightarrow> Spins l | Undef e \<Rightarrow> Undef e)"

definition panic :: "string \<Rightarrow> ('s, 'a) km" where
  "panic msg s = Panic msg"

definition undef :: "string \<Rightarrow> ('s, 'a) km" where
  "undef msg s = Undef msg"

definition getk :: "('s \<Rightarrow> 'a) \<Rightarrow> ('s, 'a) km" where
  "getk f s = Done (f s) s"

definition modk :: "('s \<Rightarrow> 's) \<Rightarrow> ('s, unit) km" where
  "modk f s = Done () (f s)"

definition whenk :: "bool \<Rightarrow> ('s, unit) km \<Rightarrow> ('s, unit) km" where
  "whenk b m = (if b then m else ret ())"

text \<open>\<open>zoom\<close> runs a routine on a component of a larger state.\<close>

definition zoom :: "('s \<Rightarrow> 't) \<Rightarrow> ('t \<Rightarrow> 's \<Rightarrow> 's) \<Rightarrow> ('t, 'a) km \<Rightarrow> ('s, 'a) km" where
  "zoom get put m s =
     (case m (get s) of Done a t \<Rightarrow> Done a (put t s) | Panic e \<Rightarrow> Panic e
      | Swtch t \<Rightarrow> Swtch (put t s) | Spins l \<Rightarrow> Spins l | Undef e \<Rightarrow> Undef e)"

text \<open>
  The two shapes of counted loops in the sources: a loop that runs over all indices
  (\<open>foreach\<close>) and a loop left by \<open>return\<close>, \<open>break\<close> or \<open>goto\<close> from its body
  (\<open>search\<close>: the first index for which the body produces a value).
\<close>

primrec foreach :: "('i \<Rightarrow> ('s, unit) km) \<Rightarrow> 'i list \<Rightarrow> ('s, unit) km" where
  "foreach f [] = ret ()"
| "foreach f (x # xs) = bindk (f x) (\<lambda>_. foreach f xs)"

primrec search :: "('i \<Rightarrow> ('s, 'r option) km) \<Rightarrow> 'i list \<Rightarrow> ('s, 'r option) km" where
  "search f [] = ret None"
| "search f (x # xs) = bindk (f x) (\<lambda>r. case r of None \<Rightarrow> search f xs | Some v \<Rightarrow> ret (Some v))"

section \<open>Symbolic execution\<close>

named_theorems exec \<open>equations that execute kernel routines on a symbolic state\<close>

lemma bindk_cong [fundef_cong]:
  assumes "m = m'" and "s = s'" and "\<And>a t. m' s' = Done a t \<Longrightarrow> f a t = f' a t"
  shows "bindk m f s = bindk m' f' s'"
  using assms by (auto simp: bindk_def split: outcome.splits)

lemma bindk_Done [exec]: "m s = Done a t \<Longrightarrow> bindk m f s = f a t"
  by (simp add: bindk_def)

lemma bindk_Panic [exec]: "m s = Panic e \<Longrightarrow> bindk m f s = Panic e"
  by (simp add: bindk_def)

lemma bindk_Undef [exec]: "m s = Undef e \<Longrightarrow> bindk m f s = Undef e"
  by (simp add: bindk_def)

lemma bindk_Swtch [exec]: "m s = Swtch t \<Longrightarrow> bindk m f s = Swtch t"
  by (simp add: bindk_def)

lemma bindk_ret [exec]: "bindk (ret a) f s = f a s"
  by (simp add: bindk_def ret_def)

lemma bindk_getk [exec]: "bindk (getk g) f s = f (g s) s"
  by (simp add: bindk_def getk_def)

lemma bindk_modk [exec]: "bindk (modk g) f s = f () (g s)"
  by (simp add: bindk_def modk_def)

lemma bindk_panic [exec]: "bindk (panic e) f s = Panic e"
  by (simp add: bindk_def panic_def)

lemma bindk_undef [exec]: "bindk (undef e) f s = Undef e"
  by (simp add: bindk_def undef_def)

lemma bindk_assoc [exec]: "bindk (bindk m f) g s = bindk m (\<lambda>a. bindk (f a) g) s"
  by (simp add: bindk_def split: outcome.splits)

lemma bindk_if [exec]: "bindk (if b then m else m') f s = (if b then bindk m f s else bindk m' f s)"
  by simp

lemma whenk_simps [exec]: "whenk True m = m" "whenk False m = ret ()"
  by (simp_all add: whenk_def)

lemma bindk_whenk [exec]: "bindk (whenk b m) f s = (if b then bindk m f s else f () s)"
  by (simp add: whenk_def bindk_ret)

lemmas [exec] = ret_def getk_def modk_def panic_def undef_def

lemma bindk_eq_Done:
  "bindk m f s = Done b u \<longleftrightarrow> (\<exists>a t. m s = Done a t \<and> f a t = Done b u)"
  by (auto simp: bindk_def split: outcome.splits)

lemma bindk_ret_right: "bindk m ret s = m s"
  by (simp add: bindk_def ret_def split: outcome.splits)

text \<open>Total correctness of one run: the routine returns, and the result satisfies \<open>Q\<close>.\<close>

definition returns :: "('s, 'a) outcome \<Rightarrow> ('a \<Rightarrow> 's \<Rightarrow> bool) \<Rightarrow> bool" where
  "returns r Q = (\<exists>a t. r = Done a t \<and> Q a t)"

lemma returnsI [intro?]: "r = Done a t \<Longrightarrow> Q a t \<Longrightarrow> returns r Q"
  by (auto simp: returns_def)

lemma returnsE:
  assumes "returns r Q" obtains a t where "r = Done a t" and "Q a t"
  using assms by (auto simp: returns_def)

lemma returns_mono: "returns r P \<Longrightarrow> (\<And>a t. P a t \<Longrightarrow> Q a t) \<Longrightarrow> returns r Q"
  by (auto simp: returns_def)

lemma returns_bindk:
  assumes "returns (m s) P" and "\<And>a t. P a t \<Longrightarrow> returns (f a t) Q"
  shows "returns (bindk m f s) Q"
  using assms by (auto simp: returns_def bindk_def)

lemma panics_bindk:
  assumes "returns (m s) P" and "\<And>a t. P a t \<Longrightarrow> f a t = Panic e"
  shows "bindk m f s = Panic e"
  using assms by (auto simp: returns_def bindk_def)

lemma returns_ret: "Q a s \<Longrightarrow> returns (ret a s) Q"
  by (simp add: returns_def ret_def)

lemma returns_getk: "returns (k (f s) s) Q \<Longrightarrow> returns (bindk (getk f) k s) Q"
  by (simp add: bindk_getk)

lemma returns_foreach:
  assumes "I s" and "\<And>x t. x \<in> set xs \<Longrightarrow> I t \<Longrightarrow> returns (f x t) (\<lambda>_. I)"
  shows "returns (foreach f xs s) (\<lambda>_. I)"
  using assms
proof (induction xs arbitrary: s)
  case Nil
  then show ?case by (simp add: returns_def ret_def)
next
  case (Cons x xs)
  show ?case unfolding foreach.simps
    by (rule returns_bindk [where P = "\<lambda>_. I"]) (use Cons in auto)
qed

section \<open>Lists\<close>

lemma find_SomeD: "find P xs = Some x \<Longrightarrow> x \<in> set xs \<and> P x"
  by (induction xs) (auto split: if_splits)

section \<open>Words\<close>

lemma unat_of_nat_lt [simp]: "n < 2 ^ LENGTH('a) \<Longrightarrow> unat (of_nat n :: 'a::len word) = n"
  by (simp add: unat_of_nat take_bit_nat_eq_self)

lemma unat_lt2p: "unat (w :: 'a::len word) < 2 ^ LENGTH('a)"
  by (rule unsigned_less)

lemma sint_small: "unat (w :: u32) < 2 ^ 31 \<Longrightarrow> sint w = int (unat w)"
proof -
  assume a: "unat w < 2 ^ 31"
  have "sint w = signed_take_bit 31 (uint w)" by (simp add: sint_uint)
  also have "\<dots> = signed_take_bit 31 (int (unat w))" by (simp only: uint_nat)
  also have "\<dots> = int (unat w)"
  proof (rule signed_take_bit_int_eq_self)
    have "int (unat w) < int (2 ^ 31)" using a by (simp only: of_nat_less_iff)
    then show "int (unat w) < 2 ^ 31" by (simp only: of_nat_power of_nat_numeral)
    show "- (2 ^ 31) \<le> int (unat w)" by (rule order_trans [of _ 0]) (simp, rule of_nat_0_le_iff)
  qed
  finally show ?thesis .
qed

lemma sint_nonneg_small: "0 \<le> sint (w :: u32) \<Longrightarrow> unat w < 2 ^ 31"
proof (rule ccontr)
  assume "0 \<le> sint w"
  then have nb: "\<not> bit (uint w) 31" by (simp add: sint_uint signed_take_bit_nonnegative_iff)
  assume "\<not> unat w < 2 ^ 31"
  then have "2147483648 \<le> unat w" "unat w < 4294967296" using unat_lt2p [of w] by simp_all
  then have "unat w div 2 ^ 31 = 1" by simp
  then have "bit (unat w) 31" by (simp add: bit_iff_odd)
  then show False using nb by (simp add: bit_simps)
qed

section \<open>Little-endian words in byte memory\<close>

definition get16 :: "(nat \<Rightarrow> u8) \<Rightarrow> nat \<Rightarrow> u16" where
  "get16 m a = ucast (m a) OR push_bit 8 (ucast (m (a + 1)))"

definition put16 :: "(nat \<Rightarrow> u8) \<Rightarrow> nat \<Rightarrow> u16 \<Rightarrow> (nat \<Rightarrow> u8)" where
  "put16 m a w = m(a := ucast w, a + 1 := ucast (drop_bit 8 w))"

definition get32 :: "(nat \<Rightarrow> u8) \<Rightarrow> nat \<Rightarrow> u32" where
  "get32 m a = ucast (m a) OR push_bit 8 (ucast (m (a + 1))) OR push_bit 16 (ucast (m (a + 2)))
     OR push_bit 24 (ucast (m (a + 3)))"

definition put32 :: "(nat \<Rightarrow> u8) \<Rightarrow> nat \<Rightarrow> u32 \<Rightarrow> (nat \<Rightarrow> u8)" where
  "put32 m a w = m(a := ucast w, a + 1 := ucast (drop_bit 8 w), a + 2 := ucast (drop_bit 16 w),
     a + 3 := ucast (drop_bit 24 w))"

lemma get16_put16 [simp]: "get16 (put16 m a w) a = w"
  by (rule bit_word_eqI) (auto simp: get16_def put16_def bit_simps)

lemma get32_put32 [simp]: "get32 (put32 m a w) a = w"
proof (rule bit_word_eqI)
  fix n assume "n < LENGTH(32)"
  then consider "n < 8" | "8 \<le> n" "n < 16" | "16 \<le> n" "n < 24" | "24 \<le> n" "n < 32"
    by fastforce
  then show "bit (get32 (put32 m a w) a) n = bit w n"
    by cases (auto simp: get32_def put32_def bit_simps)
qed

lemma put16_other [simp]: "i < a \<or> a + 2 \<le> i \<Longrightarrow> put16 m a w i = m i"
  by (auto simp: put16_def)

lemma put32_other [simp]: "i < a \<or> a + 4 \<le> i \<Longrightarrow> put32 m a w i = m i"
  by (auto simp: put32_def)

lemma get16_cong: "(\<And>i. a \<le> i \<Longrightarrow> i < a + 2 \<Longrightarrow> m i = m' i) \<Longrightarrow> get16 m a = get16 m' a"
  by (simp add: get16_def)

lemma get32_cong: "(\<And>i. a \<le> i \<Longrightarrow> i < a + 4 \<Longrightarrow> m i = m' i) \<Longrightarrow> get32 m a = get32 m' a"
  by (simp add: get32_def)

lemma get_put_disjoint [simp]:
  "b + 4 \<le> a \<or> a + 4 \<le> b \<Longrightarrow> get32 (put32 m b w) a = get32 m a"
  "b + 2 \<le> a \<or> a + 4 \<le> b \<Longrightarrow> get32 (put16 m b v) a = get32 m a"
  "b + 4 \<le> a \<or> a + 2 \<le> b \<Longrightarrow> get16 (put32 m b w) a = get16 m a"
  "b + 2 \<le> a \<or> a + 2 \<le> b \<Longrightarrow> get16 (put16 m b v) a = get16 m a"
  by (rule get32_cong get16_cong; auto)+

end
