(* ===== verification/Spinlock.thy ===== *)
theory Spinlock
  imports Kernel_Prelude
begin

text \<open>
  Spin locks (\<open>kernel/spinlock.c\<close>, \<open>struct spinlock\<close> of \<open>kernel/spinlock.h\<close>) and the
  interrupt-disable nesting of \<open>pushcli\<close>/\<open>popcli\<close> (fields \<open>ncli\<close>, \<open>intena\<close> of
  \<open>struct cpu\<close>). The routines take the number \<open>c\<close> of the CPU that executes them. The
  debugging fields \<open>name\<close> and \<open>pcs\<close> are left out.
\<close>

record spinlock =
  locked :: bool
  lk_cpu :: "nat option"

record cpu =
  ncli :: int
  intena :: bool
  fl_if :: bool

record spin =
  lks :: "lock \<Rightarrow> spinlock"
  cpus :: "nat \<Rightarrow> cpu"

definition initlock :: "lock \<Rightarrow> (spin, unit) km" where
  "initlock lk = modk (\<lambda>s. s\<lparr>lks := (lks s)(lk := \<lparr>locked = False, lk_cpu = None\<rparr>)\<rparr>)"

definition holding :: "nat \<Rightarrow> lock \<Rightarrow> spin \<Rightarrow> bool" where
  "holding c lk s = (locked (lks s lk) \<and> lk_cpu (lks s lk) = Some c)"

definition upd_cpu :: "nat \<Rightarrow> (cpu \<Rightarrow> cpu) \<Rightarrow> spin \<Rightarrow> spin" where
  "upd_cpu c f s = s\<lparr>cpus := (cpus s)(c := f (cpus s c))\<rparr>"

definition pushcli :: "nat \<Rightarrow> (spin, unit) km" where
  "pushcli c =
     bindk (getk (\<lambda>s. fl_if (cpus s c))) (\<lambda>eflags.
     bindk (modk (upd_cpu c (\<lambda>k. k\<lparr>fl_if := False\<rparr>))) (\<lambda>_.
     modk (upd_cpu c (\<lambda>k. if ncli k = 0 then k\<lparr>ncli := ncli k + 1, intena := eflags\<rparr>
                          else k\<lparr>ncli := ncli k + 1\<rparr>))))"

definition popcli :: "nat \<Rightarrow> (spin, unit) km" where
  "popcli c =
     bindk (getk (\<lambda>s. fl_if (cpus s c))) (\<lambda>eflags.
     if eflags then panic ''popcli - interruptible''
     else
       bindk (modk (upd_cpu c (\<lambda>k. k\<lparr>ncli := ncli k - 1\<rparr>))) (\<lambda>_.
       bindk (getk (\<lambda>s. cpus s c)) (\<lambda>k.
       if ncli k < 0 then panic ''popcli''
       else whenk (ncli k = 0 \<and> intena k) (modk (upd_cpu c (\<lambda>k. k\<lparr>fl_if := True\<rparr>))))))"

text \<open>
  \<open>acquire\<close>: a lock held by another CPU is spun on; with this CPU alone running that never
  ends, and the outcome is \<open>Spins\<close>.
\<close>

definition acquire :: "nat \<Rightarrow> lock \<Rightarrow> (spin, unit) km" where
  "acquire c lk =
     bindk (pushcli c) (\<lambda>_ s.
     if holding c lk s then Panic ''acquire''
     else if locked (lks s lk) then Spins lk
     else Done () (s\<lparr>lks := (lks s)(lk := \<lparr>locked = True, lk_cpu = Some c\<rparr>)\<rparr>))"

definition release :: "nat \<Rightarrow> lock \<Rightarrow> (spin, unit) km" where
  "release c lk s =
     (if \<not> holding c lk s then Panic ''release''
      else bindk (modk (\<lambda>s. s\<lparr>lks := (lks s)(lk := \<lparr>locked = False, lk_cpu = None\<rparr>)\<rparr>))
             (\<lambda>_. popcli c) s)"

section \<open>Locks that are free\<close>

text \<open>
  \<open>spin_ok c s\<close>: the nesting depth of CPU \<open>c\<close> is consistent with its interrupt flag, and
  at depth 0 the saved flag \<open>intena\<close> is the current one (as every \<open>popcli\<close> leaves it).
  \<open>lk_free\<close>: nobody holds the lock (and its owner field is clear, as \<open>initlock\<close> and
  \<open>release\<close> leave it).
\<close>

definition spin_ok :: "nat \<Rightarrow> spin \<Rightarrow> bool" where
  "spin_ok c s =
     (if ncli (cpus s c) = 0 then intena (cpus s c) = fl_if (cpus s c)
      else 0 < ncli (cpus s c) \<and> \<not> fl_if (cpus s c))"

definition lk_free :: "lock \<Rightarrow> spin \<Rightarrow> bool" where
  "lk_free lk s = (lks s lk = \<lparr>locked = False, lk_cpu = None\<rparr>)"

text \<open>The state after a successful \<open>acquire\<close>, as a function.\<close>

definition lk_take :: "nat \<Rightarrow> lock \<Rightarrow> spin \<Rightarrow> spin" where
  "lk_take c lk s =
     (upd_cpu c (\<lambda>k. k\<lparr>ncli := ncli k + 1, fl_if := False,
                      intena := (if ncli k = 0 then fl_if k else intena k)\<rparr>) s)
       \<lparr>lks := (lks s)(lk := \<lparr>locked = True, lk_cpu = Some c\<rparr>)\<rparr>"

text \<open>The state after a successful \<open>release\<close>, as a function.\<close>

definition lk_drop :: "nat \<Rightarrow> lock \<Rightarrow> spin \<Rightarrow> spin" where
  "lk_drop c lk s =
     (upd_cpu c (\<lambda>k. k\<lparr>ncli := ncli k - 1,
                      fl_if := (if ncli k = 1 \<and> intena k then True else fl_if k)\<rparr>) s)
       \<lparr>lks := (lks s)(lk := \<lparr>locked = False, lk_cpu = None\<rparr>)\<rparr>"

lemma acquire_free [exec]: "lk_free lk s \<Longrightarrow> acquire c lk s = Done () (lk_take c lk s)"
  by (auto simp: acquire_def pushcli_def exec upd_cpu_def holding_def lk_free_def lk_take_def
      intro!: spin.equality cpu.equality arg_cong [of _ _ "\<lambda>k. (cpus s)(c := k)"])

lemma acquire_held: "holding c lk s \<Longrightarrow> acquire c lk s = Panic ''acquire''"
  by (simp add: acquire_def pushcli_def exec upd_cpu_def holding_def)

lemma acquire_other:
  "locked (lks s lk) \<Longrightarrow> lk_cpu (lks s lk) \<noteq> Some c \<Longrightarrow> acquire c lk s = Spins lk"
  by (simp add: acquire_def pushcli_def exec upd_cpu_def holding_def)

lemma release_held [exec]:
  "holding c lk s \<Longrightarrow> 0 < ncli (cpus s c) \<Longrightarrow> \<not> fl_if (cpus s c) \<Longrightarrow>
   release c lk s = Done () (lk_drop c lk s)"
  by (auto simp: release_def popcli_def exec upd_cpu_def lk_drop_def whenk_def
      intro!: spin.equality cpu.equality arg_cong [of _ _ "\<lambda>k. (cpus s)(c := k)"])

lemma release_not_held: "\<not> holding c lk s \<Longrightarrow> release c lk s = Panic ''release''"
  by (simp add: release_def)

lemma lk_take_simps [simp]:
  "holding c lk (lk_take c lk s)"
  "0 \<le> ncli (cpus s c) \<Longrightarrow> 0 < ncli (cpus (lk_take c lk s) c)"
  "\<not> fl_if (cpus (lk_take c lk s) c)"
  "lk' \<noteq> lk \<Longrightarrow> lk_free lk' (lk_take c lk s) = lk_free lk' s"
  by (simp_all add: holding_def lk_take_def upd_cpu_def lk_free_def)

lemma spin_ok_take [simp]: "spin_ok c s \<Longrightarrow> spin_ok c (lk_take c lk s)"
  by (auto simp: spin_ok_def lk_take_def upd_cpu_def split: if_splits)

lemma holding_take_other [simp]: "lk' \<noteq> lk \<Longrightarrow> holding c lk' (lk_take c lk s) = holding c lk' s"
  by (simp add: holding_def lk_take_def upd_cpu_def)

lemma spin_ok_ncli [simp]: "spin_ok c s \<Longrightarrow> 0 \<le> ncli (cpus s c)"
  by (auto simp: spin_ok_def split: if_splits)

text \<open>Releasing right after acquiring restores the CPU and the lock.\<close>

lemma lk_drop_take [simp]:
  assumes "lk_free lk s" and "spin_ok c s" shows "lk_drop c lk (lk_take c lk s) = s"
  using assms
  by (auto simp: lk_drop_def lk_take_def upd_cpu_def lk_free_def spin_ok_def fun_eq_iff
      intro!: spin.equality cpu.equality)

text \<open>Giving up a lock while a second one is held, as \<open>sleep\<close> does.\<close>

lemma drop_first [simp]:
  assumes "lk \<noteq> lk'" and "ncli (cpus s c) = 0"
  shows "holding c lk' (lk_drop c lk (lk_take c lk' (lk_take c lk s)))"
    and "ncli (cpus (lk_drop c lk (lk_take c lk' (lk_take c lk s))) c) = 1"
    and "\<not> fl_if (cpus (lk_drop c lk (lk_take c lk' (lk_take c lk s))) c)"
    and "0 < ncli (cpus (lk_take c lk' (lk_take c lk s)) c)"
  using assms by (auto simp: holding_def lk_drop_def lk_take_def upd_cpu_def)

end
