(* ===== verification/Proc_Core.thy ===== *)
theory Proc_Core
  imports Spinlock
begin

text \<open>
  The process table and the primitives that every other kernel part calls:
  \<open>sched\<close>, \<open>yield\<close>, \<open>sleep\<close>, \<open>wakeup\<close> and \<open>kill\<close> of \<open>kernel/proc.c\<close>, with
  \<open>struct proc\<close> of \<open>kernel/proc.h\<close> (the variant with the reservation and spot-market fields).
  A process is its index in \<open>ptable.proc\<close>; a file or inode pointer is the index of its table
  slot. Saved register contexts (\<open>struct context\<close>) are not modelled: leaving the process by
  \<open>swtch\<close> is the outcome \<open>Swtch\<close>, and what \<open>sleep\<close> and \<open>yield\<close> do once they are
  scheduled again is a definition of its own.
\<close>

definition NPROC :: nat where "NPROC = 64"
definition NOFILE :: nat where "NOFILE = 16"

datatype procstate = UNUSED | EMBRYO | SLEEPING | RUNNABLE | RUNNING | ZOMBIE

record trapframe =
  tf_eax :: u32
  tf_esp :: u32
  tf_eip :: u32
  tf_eflags :: u32
  tf_cs :: u16
  tf_ds :: u16
  tf_es :: u16
  tf_ss :: u16
  tf_trapno :: u32
  tf_err :: u32

record proc =
  p_sz :: u32
  p_pgdir :: u32
  p_kstack :: u32
  p_state :: procstate
  p_rpercent :: int
  p_spotbid :: int
  p_charge :: int
  p_tcharge :: int
  p_numofused :: int
  p_runningtime :: int
  p_pid :: int
  p_parent :: "nat option"
  p_tf :: trapframe
  p_chan :: "chan option"
  p_killed :: bool
  p_ofile :: "nat \<Rightarrow> nat option"
  p_cwd :: "nat option"
  p_name :: "u8 list"

text \<open>
  The part of the kernel state below the file system: the locks, the running CPU, the process
  table with \<open>initproc\<close> and \<open>nextpid\<close>, the CPU's current process and the tick counter.
  Later theories extend the record.
\<close>

record kbase =
  lockst :: spin
  mycpu :: nat
  ptable :: "nat \<Rightarrow> proc"
  curproc :: "nat option"
  initproc :: "nat option"
  nextpid :: int
  ticks :: u32

definition acq :: "lock \<Rightarrow> ('z kbase_scheme, unit) km" where
  "acq lk s = zoom lockst (\<lambda>l s. s\<lparr>lockst := l\<rparr>) (acquire (mycpu s) lk) s"

definition rel :: "lock \<Rightarrow> ('z kbase_scheme, unit) km" where
  "rel lk s = zoom lockst (\<lambda>l s. s\<lparr>lockst := l\<rparr>) (release (mycpu s) lk) s"

definition initlk :: "lock \<Rightarrow> ('z kbase_scheme, unit) km" where
  "initlk lk = zoom lockst (\<lambda>l s. s\<lparr>lockst := l\<rparr>) (initlock lk)"

definition upd_proc :: "nat \<Rightarrow> (proc \<Rightarrow> proc) \<Rightarrow> ('z kbase_scheme, unit) km" where
  "upd_proc p f = modk (\<lambda>s. s\<lparr>ptable := (ptable s)(p := f (ptable s p))\<rparr>)"

text \<open>\<open>myproc\<close>: the per-CPU variable \<open>proc\<close>; following a null \<open>proc\<close> is undefined.\<close>

definition myproc :: "('z kbase_scheme, nat) km" where
  "myproc s = (case curproc s of None \<Rightarrow> Undef ''proc is null'' | Some p \<Rightarrow> Done p s)"

definition myslot :: "('z kbase_scheme, proc) km" where
  "myslot = bindk myproc (\<lambda>p. getk (\<lambda>s. ptable s p))"

text \<open>\<open>sched\<close> up to its \<open>swtch\<close>, and the line after it.\<close>

definition sched :: "('z kbase_scheme, unit) km" where
  "sched =
     bindk myproc (\<lambda>p s.
     let c = mycpu s; k = cpus (lockst s) c in
     if \<not> holding c LkPtable (lockst s) then Panic ''sched ptable.lock''
     else if ncli k \<noteq> 1 then Panic ''sched locks''
     else if p_state (ptable s p) = RUNNING then Panic ''sched running''
     else if fl_if k then Panic ''sched interruptible''
     else Swtch s)"

definition sched_resume :: "bool \<Rightarrow> ('z kbase_scheme, unit) km" where
  "sched_resume ena =
     modk (\<lambda>s. s\<lparr>lockst := upd_cpu (mycpu s) (\<lambda>k. k\<lparr>intena := ena\<rparr>) (lockst s)\<rparr>)"

definition yield :: "('z kbase_scheme, unit) km" where
  "yield =
     bindk (acq LkPtable) (\<lambda>_.
     bindk myproc (\<lambda>p.
     bindk (upd_proc p (\<lambda>q. q\<lparr>p_state := RUNNABLE\<rparr>)) (\<lambda>_.
     bindk sched (\<lambda>_. rel LkPtable))))"

definition forkret :: "('z kbase_scheme, unit) km" where
  "forkret = rel LkPtable"

text \<open>\<open>sleep\<close>; a null lock pointer is \<open>None\<close>.\<close>

definition sleep :: "chan \<Rightarrow> lock option \<Rightarrow> ('z kbase_scheme, unit) km" where
  "sleep ch lko s =
     (case curproc s of None \<Rightarrow> Panic ''sleep''
      | Some p \<Rightarrow>
        (case lko of None \<Rightarrow> Panic ''sleep without lk''
         | Some lk \<Rightarrow>
             bindk (whenk (lk \<noteq> LkPtable) (bindk (acq LkPtable) (\<lambda>_. rel lk))) (\<lambda>_.
             bindk (upd_proc p (\<lambda>q. q\<lparr>p_chan := Some ch, p_state := SLEEPING\<rparr>)) (\<lambda>_.
             sched)) s))"

definition sleep_resume :: "bool \<Rightarrow> lock \<Rightarrow> ('z kbase_scheme, unit) km" where
  "sleep_resume ena lk =
     bindk (sched_resume ena) (\<lambda>_.
     bindk myproc (\<lambda>p.
     bindk (upd_proc p (\<lambda>q. q\<lparr>p_chan := None\<rparr>)) (\<lambda>_.
     whenk (lk \<noteq> LkPtable) (bindk (rel LkPtable) (\<lambda>_. acq lk)))))"

text \<open>The effect of the loop of \<open>wakeup1\<close> on the table.\<close>

definition wake :: "chan \<Rightarrow> (nat \<Rightarrow> proc) \<Rightarrow> nat \<Rightarrow> proc" where
  "wake ch t = (\<lambda>i. if i < NPROC \<and> p_state (t i) = SLEEPING \<and> p_chan (t i) = Some ch
                    then (t i)\<lparr>p_state := RUNNABLE\<rparr> else t i)"

definition wakeup1 :: "chan \<Rightarrow> ('z kbase_scheme, unit) km" where
  "wakeup1 ch = modk (\<lambda>s. s\<lparr>ptable := wake ch (ptable s)\<rparr>)"

definition wakeup :: "chan \<Rightarrow> ('z kbase_scheme, unit) km" where
  "wakeup ch = bindk (acq LkPtable) (\<lambda>_. bindk (wakeup1 ch) (\<lambda>_. rel LkPtable))"

text \<open>\<open>kill\<close>: the first slot with the given pid, whatever its state.\<close>

definition kill :: "int \<Rightarrow> ('z kbase_scheme, int) km" where
  "kill pid =
     bindk (acq LkPtable) (\<lambda>_.
     bindk (search (\<lambda>p.
       bindk (getk (\<lambda>s. ptable s p)) (\<lambda>q.
       if p_pid q = pid then
         bindk (upd_proc p (\<lambda>q. q\<lparr>p_killed := True\<rparr>)) (\<lambda>_.
         bindk (whenk (p_state q = SLEEPING) (upd_proc p (\<lambda>q. q\<lparr>p_state := RUNNABLE\<rparr>))) (\<lambda>_.
         bindk (rel LkPtable) (\<lambda>_. ret (Some 0))))
       else ret None)) [0..<NPROC]) (\<lambda>r.
     case r of Some v \<Rightarrow> ret v | None \<Rightarrow> bindk (rel LkPtable) (\<lambda>_. ret (-1))))"

section \<open>Execution on states with free locks\<close>

definition unlocked :: "lock \<Rightarrow> 'z kbase_scheme \<Rightarrow> bool" where
  "unlocked lk s = (lk_free lk (lockst s) \<and> spin_ok (mycpu s) (lockst s))"

lemma acq_unlocked [exec]:
  "unlocked lk s \<Longrightarrow> acq lk s = Done () (s\<lparr>lockst := lk_take (mycpu s) lk (lockst s)\<rparr>)"
  by (simp add: acq_def zoom_def acquire_free unlocked_def)

lemma rel_held [exec]:
  assumes "holding (mycpu s) lk (lockst s)" and "0 < ncli (cpus (lockst s) (mycpu s))"
    and "\<not> fl_if (cpus (lockst s) (mycpu s))"
  shows "rel lk s = Done () (s\<lparr>lockst := lk_drop (mycpu s) lk (lockst s)\<rparr>)"
  using assms by (simp add: rel_def zoom_def release_held)

lemma unlocked_spin [simp]:
  assumes "unlocked lk s"
  shows "0 \<le> ncli (cpus (lockst s) (mycpu s))"
    and "lk_drop (mycpu s) lk (lk_take (mycpu s) lk (lockst s)) = lockst s"
  using assms by (simp_all add: unlocked_def)

lemma unlocked_lockst [simp]:
  "unlocked lk (s\<lparr>lockst := l\<rparr>) = (lk_free lk l \<and> spin_ok (mycpu s) l)"
  by (simp add: unlocked_def)

lemma wakeup_eq [exec]:
  assumes "unlocked LkPtable s"
  shows "wakeup ch s = Done () (s\<lparr>ptable := wake ch (ptable s)\<rparr>)"
  using assms by (simp add: wakeup_def wakeup1_def exec)

lemma unlocked_upd [simp]:
  "unlocked lk (s\<lparr>ptable := t\<rparr>) = unlocked lk s"
  "unlocked lk (s\<lparr>curproc := c\<rparr>) = unlocked lk s"
  "unlocked lk (s\<lparr>nextpid := n\<rparr>) = unlocked lk s"
  "unlocked lk (s\<lparr>initproc := i\<rparr>) = unlocked lk s"
  "unlocked lk (s\<lparr>ticks := k\<rparr>) = unlocked lk s"
  by (simp_all add: unlocked_def)

text \<open>No lock is held, on any CPU: the state between two kernel operations.\<close>

definition nolocks :: "'z kbase_scheme \<Rightarrow> bool" where
  "nolocks s = (\<forall>lk. unlocked lk s)"

lemma nolocks_unlocked [simp]: "nolocks s \<Longrightarrow> unlocked lk s"
  by (simp add: nolocks_def)

lemma nolocks_spin [simp]:
  assumes "nolocks s"
  shows "lk_free lk (lockst s)" and "spin_ok (mycpu s) (lockst s)"
    and "0 \<le> ncli (cpus (lockst s) (mycpu s))"
    and "lk_drop (mycpu s) lk (lk_take (mycpu s) lk (lockst s)) = lockst s"
  using nolocks_unlocked [OF assms] by (auto simp: unlocked_def)

lemma nolocks_upd [simp]:
  "nolocks (s\<lparr>ptable := t\<rparr>) = nolocks s"
  "nolocks (s\<lparr>curproc := c\<rparr>) = nolocks s"
  "nolocks (s\<lparr>nextpid := n\<rparr>) = nolocks s"
  "nolocks (s\<lparr>initproc := i\<rparr>) = nolocks s"
  "nolocks (s\<lparr>ticks := k\<rparr>) = nolocks s"
  by (simp_all add: nolocks_def)

text \<open>
  What \<open>wakeup\<close> calls may do to the process table: make sleeping processes runnable,
  nothing else.
\<close>

definition woken :: "(nat \<Rightarrow> proc) \<Rightarrow> (nat \<Rightarrow> proc) \<Rightarrow> bool" where
  "woken t t' = (\<forall>i. t' i = t i \<or> p_state (t i) = SLEEPING \<and> t' i = (t i)\<lparr>p_state := RUNNABLE\<rparr>)"

lemma woken_refl [simp]: "woken t t"
  by (simp add: woken_def)

lemma woken_wake [simp]: "woken t (wake ch t)"
  by (simp add: woken_def wake_def)

lemma woken_trans [trans]:
  assumes "woken t u" and "woken u v" shows "woken t v"
  unfolding woken_def
proof
  fix i
  from assms have "u i = t i \<or> p_state (t i) = SLEEPING \<and> u i = (t i)\<lparr>p_state := RUNNABLE\<rparr>"
    and "v i = u i \<or> p_state (u i) = SLEEPING \<and> v i = (u i)\<lparr>p_state := RUNNABLE\<rparr>"
    by (auto simp: woken_def)
  then show "v i = t i \<or> p_state (t i) = SLEEPING \<and> v i = (t i)\<lparr>p_state := RUNNABLE\<rparr>"
    by auto
qed

lemma woken_wake_trans [simp]: "woken t u \<Longrightarrow> woken t (wake ch u)"
  by (erule woken_trans) simp

lemma myproc_eq [exec]: "curproc s = Some p \<Longrightarrow> myproc s = Done p s"
  by (simp add: myproc_def)

lemma myslot_eq [exec]: "curproc s = Some p \<Longrightarrow> myslot s = Done (ptable s p) s"
  by (simp add: myslot_def exec)

lemma upd_proc_eq [exec]:
  "upd_proc p f s = Done () (s\<lparr>ptable := (ptable s)(p := f (ptable s p))\<rparr>)"
  by (simp add: upd_proc_def exec)

end
