(* ===== verification/C_String.thy ===== *)
theory C_String
  imports Kernel_Prelude
begin

text \<open>
  The byte and string routines of the kernel (\<open>kernel/string.c\<close>) and of the user library
  (\<open>user/ulib.c\<close>). Memory is a function from addresses to bytes; a routine that only reads
  through a pointer takes the bytes seen from that pointer (\<open>ptr mem a\<close>).
\<close>

type_synonym mem = "nat \<Rightarrow> u8"

definition ptr :: "mem \<Rightarrow> nat \<Rightarrow> mem" where
  "ptr mem a = (\<lambda>i. mem (a + i))"

section \<open>kernel/string.c\<close>

text \<open>\<open>stosb\<close> stores the low byte of \<open>c\<close> in \<open>n\<close> consecutive bytes.\<close>

primrec stosb :: "mem \<Rightarrow> nat \<Rightarrow> u8 \<Rightarrow> nat \<Rightarrow> mem" where
  "stosb mem a c 0 = mem"
| "stosb mem a c (Suc n) = stosb (mem(a := c)) (Suc a) c n"

definition memset :: "mem \<Rightarrow> nat \<Rightarrow> u32 \<Rightarrow> nat \<Rightarrow> mem" where
  "memset mem dst c n = stosb mem dst (ucast c) n"

primrec memcmp :: "mem \<Rightarrow> mem \<Rightarrow> nat \<Rightarrow> int" where
  "memcmp s1 s2 0 = 0"
| "memcmp s1 s2 (Suc n) =
     (if s1 0 \<noteq> s2 0 then uint (s1 0) - uint (s2 0) else memcmp (ptr s1 1) (ptr s2 1) n)"

text \<open>The two copying loops of \<open>memmove\<close>: upwards and, for overlapping regions, downwards.\<close>

primrec copy_up :: "mem \<Rightarrow> nat \<Rightarrow> nat \<Rightarrow> nat \<Rightarrow> mem" where
  "copy_up mem d s 0 = mem"
| "copy_up mem d s (Suc n) = copy_up (mem(d := mem s)) (Suc d) (Suc s) n"

primrec copy_down :: "mem \<Rightarrow> nat \<Rightarrow> nat \<Rightarrow> nat \<Rightarrow> mem" where
  "copy_down mem d s 0 = mem"
| "copy_down mem d s (Suc n) = copy_down (mem(d + n := mem (s + n))) d s n"

definition memmove :: "mem \<Rightarrow> nat \<Rightarrow> nat \<Rightarrow> nat \<Rightarrow> mem" where
  "memmove mem dst src n =
     (if src < dst \<and> src + n > dst then copy_down mem dst src n else copy_up mem dst src n)"

definition memcpy :: "mem \<Rightarrow> nat \<Rightarrow> nat \<Rightarrow> nat \<Rightarrow> mem" where
  "memcpy mem dst src n = memmove mem dst src n"

primrec strncmp :: "mem \<Rightarrow> mem \<Rightarrow> nat \<Rightarrow> int" where
  "strncmp p q 0 = 0"
| "strncmp p q (Suc n) =
     (if p 0 \<noteq> 0 \<and> p 0 = q 0 then strncmp (ptr p 1) (ptr q 1) n else uint (p 0) - uint (q 0))"

text \<open>
  \<open>strncpy\<close>: its first loop copies up to and including a NUL, its second loop fills the rest
  with zeros. In \<open>strncpy\<close> the count is tested before every copy.
\<close>

primrec strncpy :: "mem \<Rightarrow> nat \<Rightarrow> mem \<Rightarrow> nat \<Rightarrow> mem" where
  "strncpy mem s t 0 = mem"
| "strncpy mem s t (Suc n) =
     (if t 0 \<noteq> 0 then strncpy (mem(s := t 0)) (Suc s) (ptr t 1) n
      else stosb (mem(s := 0)) (Suc s) 0 n)"

text \<open>\<open>safestrcpy_loop\<close> is entered with the count already decremented once.\<close>

primrec safestrcpy_loop :: "mem \<Rightarrow> nat \<Rightarrow> mem \<Rightarrow> nat \<Rightarrow> mem" where
  "safestrcpy_loop mem s t 0 = mem(s := 0)"
| "safestrcpy_loop mem s t (Suc n) =
     (if t 0 \<noteq> 0 then safestrcpy_loop (mem(s := t 0)) (Suc s) (ptr t 1) n
      else (mem(s := 0))(Suc s := 0))"

definition safestrcpy :: "mem \<Rightarrow> nat \<Rightarrow> mem \<Rightarrow> int \<Rightarrow> mem" where
  "safestrcpy mem s t n = (if n \<le> 0 then mem else safestrcpy_loop mem s t (nat n - 1))"

text \<open>\<open>strlen\<close> runs until it meets a NUL; without one it does not return.\<close>

partial_function (option) strlen_from :: "mem \<Rightarrow> nat \<Rightarrow> nat option" where
  "strlen_from s n = (if s n = 0 then Some n else strlen_from s (Suc n))"

definition strlen :: "mem \<Rightarrow> nat option" where
  "strlen s = strlen_from s 0"

section \<open>user/ulib.c\<close>

partial_function (option) strcpy_loop :: "mem \<Rightarrow> nat \<Rightarrow> nat \<Rightarrow> mem option" where
  "strcpy_loop mem s t =
     (if mem t = 0 then Some (mem(s := 0)) else strcpy_loop (mem(s := mem t)) (Suc s) (Suc t))"

definition strcpy :: "mem \<Rightarrow> nat \<Rightarrow> nat \<Rightarrow> mem option" where
  "strcpy mem s t = strcpy_loop mem s t"

partial_function (option) strcmp_from :: "mem \<Rightarrow> mem \<Rightarrow> nat \<Rightarrow> int option" where
  "strcmp_from p q i =
     (if p i \<noteq> 0 \<and> p i = q i then strcmp_from p q (Suc i) else Some (uint (p i) - uint (q i)))"

definition strcmp :: "mem \<Rightarrow> mem \<Rightarrow> int option" where
  "strcmp p q = strcmp_from p q 0"

text \<open>\<open>strchr\<close> on the bytes of a NUL-terminated string: the index of the first match.\<close>

primrec strchr :: "u8 list \<Rightarrow> u8 \<Rightarrow> nat option" where
  "strchr [] c = None"
| "strchr (x # xs) c = (if x = c then Some 0 else map_option Suc (strchr xs c))"

text \<open>
  \<open>gets\<close> reads single bytes from descriptor 0 (the list of bytes still to come) until it has
  \<open>mx - 1\<close> of them, the input ends, or a line end was stored. The result is what \<open>buf\<close>
  holds before its NUL, and the bytes not read.
\<close>

fun gets_loop :: "nat \<Rightarrow> u8 list \<Rightarrow> u8 list \<times> u8 list" where
  "gets_loop 0 inp = ([], inp)"
| "gets_loop (Suc k) [] = ([], [])"
| "gets_loop (Suc k) (c # inp) =
     (if c = 10 \<or> c = 13 then ([c], inp)
      else (let (buf, rest) = gets_loop k inp in (c # buf, rest)))"

definition gets :: "nat \<Rightarrow> u8 list \<Rightarrow> u8 list \<times> u8 list" where
  "gets mx inp = gets_loop (mx - 1) inp"

text \<open>\<open>atoi\<close> on a 32-bit \<open>int\<close>; the arithmetic wraps.\<close>

primrec atoi_loop :: "u32 \<Rightarrow> u8 list \<Rightarrow> u32" where
  "atoi_loop n [] = n"
| "atoi_loop n (c # cs) =
     (if 48 \<le> c \<and> c \<le> 57 then atoi_loop (n * 10 + ucast c - 48) cs else n)"

definition atoi :: "u8 list \<Rightarrow> u32" where
  "atoi s = atoi_loop 0 s"

definition umemmove :: "mem \<Rightarrow> nat \<Rightarrow> nat \<Rightarrow> int \<Rightarrow> mem" where
  "umemmove mem vdst vsrc n = copy_up mem vdst vsrc (nat n)"

section \<open>What the routines compute\<close>

lemma ptr_apply [simp]: "ptr mem a i = mem (a + i)"
  by (simp add: ptr_def)

lemma ptr_0 [simp]: "ptr mem 0 = mem"
  by (simp add: ptr_def)

lemma ptr_ptr [simp]: "ptr (ptr mem a) b = ptr mem (a + b)"
  by (simp add: ptr_def add.assoc)

lemma stosb_apply: "stosb mem a c n i = (if a \<le> i \<and> i < a + n then c else mem i)"
  by (induction n arbitrary: mem a) auto

lemma copy_up_apply:
  "(\<forall>k<n. \<forall>j<k. d + j \<noteq> s + k) \<Longrightarrow>
   copy_up mem d s n i = (if d \<le> i \<and> i < d + n then mem (s + (i - d)) else mem i)"
proof (induction n arbitrary: mem d s)
  case 0
  then show ?case by auto
next
  case (Suc n)
  have "\<forall>k<n. \<forall>j<k. Suc d + j \<noteq> Suc s + k"
    using Suc.prems by fastforce
  note IH = Suc.IH [OF this, of "mem(d := mem s)"]
  have src: "s + Suc k \<noteq> d" if "k < n" for k
    using Suc.prems that by (metis Suc_mono add.right_neutral zero_less_Suc)
  have "(mem(d := mem s)) (Suc s + (i - Suc d)) = mem (s + (i - d))" if "Suc d \<le> i" "i < Suc d + n"
  proof -
    have "s + Suc (i - Suc d) \<noteq> d" using that by (intro src) auto
    moreover have "Suc s + (i - Suc d) = s + (i - d)" using that by linarith
    ultimately show ?thesis by (metis add_Suc_shift fun_upd_other)
  qed
  then show ?case unfolding copy_up.simps IH by (auto simp: less_Suc_eq)
qed

lemma copy_down_apply:
  "s \<le> d \<Longrightarrow> copy_down mem d s n i = (if d \<le> i \<and> i < d + n then mem (s + (i - d)) else mem i)"
proof (induction n arbitrary: mem)
  case 0
  then show ?case by auto
next
  case (Suc n)
  note IH = Suc.IH [OF Suc.prems, of "mem(d + n := mem (s + n))"]
  have "s + (i - d) \<noteq> d + n" if "d \<le> i" "i < d + n"
    using Suc.prems that by linarith
  then show ?case unfolding copy_down.simps IH by (auto simp: less_Suc_eq)
qed

lemma strlen_from_Some:
  assumes "\<forall>i<k. s i \<noteq> 0" and "s k = 0" and "n \<le> k"
  shows "strlen_from s n = Some k"
  using assms(3)
proof (induction "k - n" arbitrary: n)
  case 0
  then show ?case using assms by (subst strlen_from.simps) simp
next
  case (Suc m)
  then have "n < k" by simp
  then have "strlen_from s (Suc n) = Some k" using Suc by simp
  with \<open>n < k\<close> assms(1) show ?case by (subst strlen_from.simps) simp
qed

lemma memcmp_zero_iff: "memcmp s1 s2 n = 0 \<longleftrightarrow> (\<forall>i<n. s1 i = s2 i)"
  by (induction n arbitrary: s1 s2) (auto simp: All_less_Suc2 word_uint_eq_iff)

lemma Ex_less_Suc_shift: "(\<exists>k<Suc n. P k) \<longleftrightarrow> P 0 \<or> (\<exists>k<n. P (Suc k))"
  by (metis less_Suc_eq_0_disj)

lemma All_le_Suc_shift: "(\<forall>i\<le>Suc k. P i) \<longleftrightarrow> P 0 \<and> (\<forall>i\<le>k. P (Suc i))"
  by (metis Suc_le_mono le0 not0_implies_Suc)

lemma strncmp_zero_cases:
  "strncmp p q n = 0 \<longleftrightarrow>
     (\<forall>i<n. p i = q i) \<or> (\<exists>k<n. p k = 0 \<and> (\<forall>i\<le>k. p i = q i))"
proof (induction n arbitrary: p q)
  case 0
  then show ?case by simp
next
  case (Suc n)
  show ?case
  proof (cases "p 0 \<noteq> 0 \<and> p 0 = q 0")
    case True
    then show ?thesis
      by (simp add: Suc.IH All_less_Suc2 Ex_less_Suc_shift All_le_Suc_shift)
  next
    case False
    then show ?thesis
      by (auto simp: All_less_Suc2 Ex_less_Suc_shift All_le_Suc_shift word_uint_eq_iff)
  qed
qed

lemma strncmp_refl [simp]: "strncmp p p n = 0"
  by (simp add: strncmp_zero_cases)

lemma strncmp_sym_zero: "strncmp p q n = 0 \<longleftrightarrow> strncmp q p n = 0"
  by (auto simp: strncmp_zero_cases)

lemma strncpy_apply:
  "strncpy mem s t n i =
     (if s \<le> i \<and> i < s + n then (if \<exists>k\<le>i - s. t k = 0 then 0 else t (i - s)) else mem i)"
proof (induction n arbitrary: mem s t)
  case 0
  then show ?case by auto
next
  case (Suc n)
  show ?case
  proof (cases "t 0 = 0")
    case True
    then show ?thesis by (auto simp: stosb_apply)
  next
    case False
    show ?thesis
    proof (cases "Suc s \<le> i")
      case True
      then obtain j where j: "i - s = Suc j" "i - Suc s = j"
        by (metis Suc_diff_Suc Suc_le_lessD)
      have "(\<exists>k\<le>Suc j. t k = 0) \<longleftrightarrow> (\<exists>k\<le>j. t (Suc k) = 0)"
        using \<open>t 0 \<noteq> 0\<close> by (metis Suc_le_mono not0_implies_Suc)
      with True j \<open>t 0 \<noteq> 0\<close> show ?thesis
        by (auto simp: Suc.IH less_Suc_eq)
    next
      case False
      with \<open>t 0 \<noteq> 0\<close> show ?thesis by (auto simp: Suc.IH)
    qed
  qed
qed

lemma gets_loop_split: "gets_loop k inp = (buf, rest) \<Longrightarrow> inp = buf @ rest \<and> length buf \<le> k"
  by (induction k inp arbitrary: buf rest rule: gets_loop.induct)
    (auto split: if_splits prod.splits)

lemma strchr_Some:
  "strchr xs c = Some i \<longleftrightarrow> i < length xs \<and> xs ! i = c \<and> (\<forall>j<i. xs ! j \<noteq> c)"
  by (induction xs arbitrary: i) (auto simp: nth_Cons All_less_Suc2 split: nat.splits)

lemma strchr_None: "strchr xs c = None \<longleftrightarrow> c \<notin> set xs"
  by (induction xs) auto

end
