(* ===== verification/Kalloc.thy ===== *)
theory Kalloc
  imports Proc_Core C_String
begin

text \<open>
  The physical page allocator (\<open>kernel/kalloc.c\<close>). The free list is the linked list the code
  keeps inside the free pages themselves: \<open>freelist\<close> is the head pointer and the first word of
  a free page is \<open>next\<close>. \<open>kend\<close> is the linker symbol \<open>end\<close>.
\<close>

definition PGSIZE :: u32 where "PGSIZE = 4096"
definition PHYSTOP :: u32 where "PHYSTOP = 0x1000000"

record kmem = kbase +
  phys :: mem
  freelist :: u32
  kend :: u32

definition PGROUNDUP :: "u32 \<Rightarrow> u32" where
  "PGROUNDUP sz = (sz + PGSIZE - 1) AND NOT (PGSIZE - 1)"

definition PGROUNDDOWN :: "u32 \<Rightarrow> u32" where
  "PGROUNDDOWN a = a AND NOT (PGSIZE - 1)"

definition kfree :: "u32 \<Rightarrow> ('z kmem_scheme, unit) km" where
  "kfree v =
     bindk (getk kend) (\<lambda>e.
     if v mod PGSIZE \<noteq> 0 \<or> v < e \<or> v \<ge> PHYSTOP then panic ''kfree''
     else
       bindk (modk (\<lambda>s. s\<lparr>phys := memset (phys s) (unat v) 1 (unat PGSIZE)\<rparr>)) (\<lambda>_.
       bindk (acq LkKmem) (\<lambda>_.
       bindk (modk (\<lambda>s. s\<lparr>phys := put32 (phys s) (unat v) (freelist s), freelist := v\<rparr>)) (\<lambda>_.
       rel LkKmem))))"

definition kalloc :: "('z kmem_scheme, u32) km" where
  "kalloc =
     bindk (acq LkKmem) (\<lambda>_.
     bindk (getk freelist) (\<lambda>r.
     bindk (whenk (r \<noteq> 0) (modk (\<lambda>s. s\<lparr>freelist := get32 (phys s) (unat r)\<rparr>))) (\<lambda>_.
     bindk (rel LkKmem) (\<lambda>_. ret r))))"

text \<open>\<open>kinit\<close>: the loop over the pages from the end of the kernel image to \<open>PHYSTOP\<close>.\<close>

function kinit_loop :: "nat \<Rightarrow> ('z kmem_scheme, unit) km" where
  "kinit_loop p =
     (if p + 4096 \<le> unat PHYSTOP then bindk (kfree (of_nat p)) (\<lambda>_. kinit_loop (p + 4096)) else ret ())"
  by pat_completeness auto
termination
  by (relation "measure (\<lambda>p. unat PHYSTOP - p)") (auto simp: PHYSTOP_def)

declare kinit_loop.simps [simp del]

definition kinit :: "('z kmem_scheme, unit) km" where
  "kinit =
     bindk (modk (\<lambda>s. s\<lparr>lockst := (lockst s)\<lparr>lks := (lks (lockst s))(LkKmem :=
        \<lparr>locked = False, lk_cpu = None\<rparr>)\<rparr>\<rparr>)) (\<lambda>_.
     bindk (getk kend) (\<lambda>e. kinit_loop (unat (PGROUNDUP e))))"

section \<open>The free list as a list of pages\<close>

text \<open>A page address the allocator accepts, and the linked list of pages from a pointer.\<close>

definition page :: "'z kmem_scheme \<Rightarrow> u32 \<Rightarrow> bool" where
  "page s v = (v mod PGSIZE = 0 \<and> kend s \<le> v \<and> v < PHYSTOP)"

primrec chain :: "mem \<Rightarrow> u32 \<Rightarrow> u32 list \<Rightarrow> bool" where
  "chain m p [] = (p = 0)"
| "chain m p (v # vs) = (p = v \<and> v \<noteq> 0 \<and> chain m (get32 m (unat v)) vs)"

definition free_pages :: "'z kmem_scheme \<Rightarrow> u32 list \<Rightarrow> bool" where
  "free_pages s vs = (chain (phys s) (freelist s) vs \<and> distinct vs \<and> (\<forall>v\<in>set vs. page s v))"

lemma unlocked_kmem [simp]:
  "unlocked lk (s\<lparr>phys := m\<rparr>) = unlocked lk s"
  "unlocked lk (s\<lparr>freelist := p\<rparr>) = unlocked lk s"
  "unlocked lk (s\<lparr>kend := e\<rparr>) = unlocked lk s"
  by (simp_all add: unlocked_def)

lemma nolocks_kmem [simp]:
  "nolocks (s\<lparr>phys := m\<rparr>) = nolocks s"
  "nolocks (s\<lparr>freelist := p\<rparr>) = nolocks s"
  "nolocks (s\<lparr>kend := e\<rparr>) = nolocks s"
  by (simp_all add: nolocks_def)

lemma kalloc_eq [exec]:
  assumes "unlocked LkKmem s"
  shows "kalloc s = Done (freelist s)
    (if freelist s = 0 then s else s\<lparr>freelist := get32 (phys s) (unat (freelist s))\<rparr>)"
  using assms by (simp add: kalloc_def exec whenk_def)

lemma kfree_eq [exec]:
  assumes "unlocked LkKmem s" and "page s v"
  shows "kfree v s = Done () (s\<lparr>phys := put32 (memset (phys s) (unat v) 1 4096) (unat v) (freelist s),
    freelist := v\<rparr>)"
  using assms by (simp add: kfree_def exec page_def PGSIZE_def not_less not_le)

lemma kfree_panics: "\<not> page s v \<Longrightarrow> kfree v s = Panic ''kfree''"
  by (simp add: kfree_def exec page_def not_less not_le)

text \<open>Distinct pages do not overlap.\<close>

lemma page_dvd: "page s v \<Longrightarrow> 4096 dvd unat v"
  by (simp add: page_def PGSIZE_def word_arith_nat_mod unat_of_nat dvd_eq_mod_eq_0
      flip: unat_eq_zero)

lemma pages_apart:
  assumes "page s v" and "page s w" and "v \<noteq> w"
  shows "unat v + 4096 \<le> unat w \<or> unat w + 4096 \<le> unat v"
proof -
  obtain a b where "unat v = 4096 * a" and "unat w = 4096 * b"
    using assms page_dvd by (meson dvdE)
  moreover have "unat v \<noteq> unat w" using assms by (simp add: word_unat_eq_iff)
  ultimately show ?thesis by (auto simp: neq_iff)
qed

lemma chain_cong:
  "(\<And>v. v \<in> set vs \<Longrightarrow> get32 m (unat v) = get32 m' (unat v)) \<Longrightarrow> chain m p vs = chain m' p vs"
  by (induction vs arbitrary: p) auto

lemma memset_apply: "memset m a c n i = (if a \<le> i \<and> i < a + n then ucast c else m i)"
  by (simp add: memset_def stosb_apply)

lemma chain_page_write:
  assumes "\<forall>v\<in>set vs. page s v" and "page s w" and "w \<notin> set vs"
    and "\<And>i. i < unat w \<or> unat w + 4096 \<le> i \<Longrightarrow> m' i = m i"
  shows "chain m' p vs = chain m p vs"
proof (rule chain_cong)
  fix v assume "v \<in> set vs"
  then have "unat v + 4096 \<le> unat w \<or> unat w + 4096 \<le> unat v"
    using assms pages_apart by metis
  then show "get32 m' (unat v) = get32 m (unat v)"
    by (intro get32_cong) (auto intro!: assms(4))
qed

text \<open>What \<open>kfree\<close> and \<open>kalloc\<close> do to the list of free pages.\<close>

definition freed :: "u32 \<Rightarrow> 'z kmem_scheme \<Rightarrow> 'z kmem_scheme" where
  "freed v s = s\<lparr>phys := put32 (memset (phys s) (unat v) 1 4096) (unat v) (freelist s), freelist := v\<rparr>"

lemma freed_page [simp]: "page (freed v s) = page s" "kend (freed v s) = kend s"
  "unlocked lk (freed v s) = unlocked lk s"
  by (simp_all add: freed_def page_def fun_eq_iff)

lemma freed_pages:
  assumes "free_pages s vs" and "page s v" and "v \<notin> set vs" and "v \<noteq> 0"
  shows "free_pages (freed v s) (v # vs)"
proof -
  have "chain (phys (freed v s)) (freelist s) vs = chain (phys s) (freelist s) vs"
    by (rule chain_page_write [of _ s v])
      (use assms in \<open>auto simp: free_pages_def freed_def memset_apply\<close>)
  then show ?thesis using assms by (auto simp: free_pages_def) (simp_all add: freed_def)
qed

lemma kfree_freed: "unlocked LkKmem s \<Longrightarrow> page s v \<Longrightarrow> kfree v s = Done () (freed v s)"
  by (simp add: kfree_eq freed_def)

lemma kalloc_pages:
  assumes "unlocked LkKmem s" and "free_pages s vs"
  obtains t where "kalloc s = Done (case vs of [] \<Rightarrow> 0 | v # _ \<Rightarrow> v) t" and "free_pages t (tl vs)"
    and "phys t = phys s" and "kend t = kend s" and "unlocked LkKmem t"
  using assms by (cases vs) (auto simp: kalloc_eq free_pages_def page_def)

section \<open>kinit\<close>

definition page_list :: "nat \<Rightarrow> u32 list" where
  "page_list p = map (\<lambda>k. of_nat (p + 4096 * k)) [0..<(unat PHYSTOP - p) div 4096]"

lemma page_list_unfold:
  assumes "p + 4096 \<le> unat PHYSTOP"
  shows "page_list p = of_nat p # page_list (p + 4096)"
proof -
  have n: "(unat PHYSTOP - p) div 4096 = Suc ((unat PHYSTOP - (p + 4096)) div 4096)"
    using assms le_div_geq [of 4096 "unat PHYSTOP - p"] by simp
  show ?thesis
    unfolding page_list_def n upt_conv_Cons [OF zero_less_Suc] map_Suc_upt [symmetric]
    by (simp add: o_def algebra_simps)
qed

lemma kinit_loop_pages:
  assumes "unlocked LkKmem s" and "free_pages s vs" and "4096 dvd p" and "unat (kend s) \<le> p" and "0 < p"
    and "\<forall>v\<in>set vs. unat v < p"
  shows "returns (kinit_loop p s) (\<lambda>_ t. free_pages t (rev (page_list p) @ vs) \<and> kend t = kend s)"
  using assms
proof (induction p arbitrary: s vs rule: kinit_loop.induct)
  case (1 p)
  show ?case
  proof (cases "p + 4096 \<le> unat PHYSTOP")
    case False
    then have "page_list p = []" by (simp add: page_list_def)
    then show ?thesis using False 1 by (simp add: kinit_loop.simps [of p] returns_ret)
  next
    case True
    have P: "unat PHYSTOP = 16777216" by (simp add: PHYSTOP_def)
    have un: "unat (of_nat p :: u32) = p" using True P by simp
    have pg: "page s (of_nat p)"
      using 1 True un P
      by (simp add: page_def PGSIZE_def PHYSTOP_def word_le_nat_alt word_less_nat_alt word_arith_nat_mod dvd_eq_mod_eq_0)
    have lt: "\<forall>v\<in>set vs. unat v < p + 4096" using 1(7) by (meson trans_less_add1)
    have nz: "(of_nat p :: u32) \<noteq> 0" using un 1 by auto
    have fp: "free_pages (freed (of_nat p) s) (of_nat p # vs)"
      by (rule freed_pages) (use 1 pg nz un in auto)
    have "returns (kinit_loop (p + 4096) (freed (of_nat p) s))
        (\<lambda>_ t. free_pages t (rev (page_list (p + 4096)) @ of_nat p # vs) \<and> kend t = kend s)"
      using 1(1) [OF True _ fp] 1 un lt by auto
    then show ?thesis
      using True 1 pg by (simp add: kinit_loop.simps [of p] bindk_def kfree_freed page_list_unfold)
  qed
qed

end
