(* ===== verification/Bio.thy ===== *)
theory Bio
  imports Kalloc
begin

text \<open>
  The buffer cache (\<open>kernel/bio.c\<close>, \<open>struct buf\<close> of \<open>kernel/buf.h\<close>) and the IDE driver
  it calls (\<open>kernel/ide.c\<close>). A buffer is its index in \<open>bcache.buf\<close>; the list through
  \<open>prev\<close>/\<open>next\<close> from \<open>bcache.head\<close> is the list \<open>lru\<close> of indices, most recently used
  first; the list through \<open>qnext\<close> is \<open>idequeue\<close>. The flag bits are booleans.

  The drive is a map from device and sector to 512 bytes. A write reaches it when \<open>idestart\<close>
  sends the data, a read is taken from it by \<open>ideintr\<close>. \<open>drive_error\<close> says for which
  sectors the drive reports an error to \<open>idewait(1)\<close>. While the process sleeps in \<open>iderw\<close>
  the drive's interrupts arrive, one per request, in queue order.
\<close>

definition NBUF :: nat where "NBUF = 10"
definition BSIZE :: nat where "BSIZE = 512"

type_synonym block = "nat \<Rightarrow> u8"

record buf =
  b_busy :: bool
  b_valid :: bool
  b_dirty :: bool
  b_dev :: u32
  b_sector :: u32
  b_data :: block

record bio = kmem +
  bufs :: "nat \<Rightarrow> buf"
  lru :: "nat list"
  idequeue :: "nat list"
  havedisk1 :: bool
  disk :: "u32 \<Rightarrow> u32 \<Rightarrow> block"
  drive_error :: "u32 \<Rightarrow> u32 \<Rightarrow> bool"

definition upd_buf :: "nat \<Rightarrow> (buf \<Rightarrow> buf) \<Rightarrow> ('z bio_scheme, unit) km" where
  "upd_buf b f = modk (\<lambda>s. s\<lparr>bufs := (bufs s)(b := f (bufs s b))\<rparr>)"

definition buf_of :: "nat \<Rightarrow> ('z bio_scheme, buf) km" where
  "buf_of b = getk (\<lambda>s. bufs s b)"

section \<open>kernel/ide.c\<close>

text \<open>The bytes \<open>idestart\<close> writes to ports 0x1f3 to 0x1f6 to address a sector.\<close>

definition ide_regs :: "u32 \<Rightarrow> u32 \<Rightarrow> u8 \<times> u8 \<times> u8 \<times> u8" where
  "ide_regs dev sector =
     (ucast (sector AND 0xff), ucast (drop_bit 8 sector AND 0xff), ucast (drop_bit 16 sector AND 0xff),
      ucast (0xe0 OR push_bit 4 (dev AND 1) OR (drop_bit 24 sector AND 0x0f)))"

definition idestart :: "nat option \<Rightarrow> ('z bio_scheme, unit) km" where
  "idestart bo =
     (case bo of None \<Rightarrow> panic ''idestart''
      | Some b \<Rightarrow>
          modk (\<lambda>s. let q = bufs s b in
            if b_dirty q then s\<lparr>disk := (disk s)(b_dev q := (disk s (b_dev q))(b_sector q := b_data q))\<rparr>
            else s))"

definition ideintr :: "('z bio_scheme, unit) km" where
  "ideintr =
     bindk (acq LkIde) (\<lambda>_.
     bindk (getk idequeue) (\<lambda>queue.
     case queue of [] \<Rightarrow> rel LkIde
     | b # rest \<Rightarrow>
         bindk (modk (\<lambda>s. s\<lparr>idequeue := rest\<rparr>)) (\<lambda>_.
         bindk (getk (\<lambda>s. \<not> b_dirty (bufs s b)
                  \<and> \<not> drive_error s (b_dev (bufs s b)) (b_sector (bufs s b)))) (\<lambda>good.
         bindk (whenk good (modk (\<lambda>s. s\<lparr>bufs := (bufs s)(b := (bufs s b)\<lparr>b_data :=
                  disk s (b_dev (bufs s b)) (b_sector (bufs s b))\<rparr>)\<rparr>))) (\<lambda>_.
         bindk (upd_buf b (\<lambda>q. q\<lparr>b_valid := True, b_dirty := False\<rparr>)) (\<lambda>_.
         bindk (wakeup (ChBuf b)) (\<lambda>_.
         bindk (whenk (rest \<noteq> []) (idestart (Some (hd rest)))) (\<lambda>_.
         rel LkIde))))))))"

text \<open>
  The loop at the end of \<open>iderw\<close>. Each sleep gives up \<open>idelock\<close> and ends with the next
  interrupt; the queue holds at most \<open>k\<close> requests up to and including this one. Without a
  pending request no interrupt comes and the process stays asleep.
\<close>

primrec iderw_wait :: "nat \<Rightarrow> nat \<Rightarrow> ('z bio_scheme, unit) km" where
  "iderw_wait 0 b =
     bindk (buf_of b) (\<lambda>q. if b_valid q \<and> \<not> b_dirty q then ret () else sleep (ChBuf b) (Some LkIde))"
| "iderw_wait (Suc k) b =
     bindk (buf_of b) (\<lambda>q.
     if b_valid q \<and> \<not> b_dirty q then ret ()
     else bindk (rel LkIde) (\<lambda>_. bindk ideintr (\<lambda>_. bindk (acq LkIde) (\<lambda>_. iderw_wait k b))))"

definition iderw :: "nat \<Rightarrow> ('z bio_scheme, unit) km" where
  "iderw b =
     bindk (buf_of b) (\<lambda>q.
     if \<not> b_busy q then panic ''iderw: buf not busy''
     else if b_valid q \<and> \<not> b_dirty q then panic ''iderw: nothing to do''
     else bindk (getk havedisk1) (\<lambda>have1.
     if b_dev q \<noteq> 0 \<and> \<not> have1 then panic ''iderw: ide disk 1 not present''
     else
       bindk (acq LkIde) (\<lambda>_.
       bindk (modk (\<lambda>s. s\<lparr>idequeue := idequeue s @ [b]\<rparr>)) (\<lambda>_.
       bindk (getk idequeue) (\<lambda>queue.
       bindk (whenk (hd queue = b) (idestart (Some b))) (\<lambda>_.
       bindk (iderw_wait (length queue) b) (\<lambda>_.
       rel LkIde)))))))"

section \<open>kernel/bio.c\<close>

definition binit :: "('z bio_scheme, unit) km" where
  "binit =
     bindk (initlk LkBcache) (\<lambda>_.
     modk (\<lambda>s. s\<lparr>lru := rev [0..<NBUF],
        bufs := (\<lambda>b. if b < NBUF then (bufs s b)\<lparr>b_dev := - 1\<rparr> else bufs s b)\<rparr>))"

text \<open>
  \<open>bget\<close>: the forward walk for a cached block (a busy one puts the process to sleep, after
  which the code starts over), then the backward walk for a buffer to recycle.
\<close>

definition bget :: "u32 \<Rightarrow> u32 \<Rightarrow> ('z bio_scheme, nat) km" where
  "bget dev sector =
     bindk (acq LkBcache) (\<lambda>_.
     bindk (getk (\<lambda>s. (bufs s, lru s))) (\<lambda>(bs, order).
     case find (\<lambda>b. b_dev (bs b) = dev \<and> b_sector (bs b) = sector) order of
       Some b \<Rightarrow>
         if \<not> b_busy (bs b) then
           bindk (upd_buf b (\<lambda>q. q\<lparr>b_busy := True\<rparr>)) (\<lambda>_.
           bindk (rel LkBcache) (\<lambda>_. ret b))
         else bindk (sleep (ChBuf b) (Some LkBcache)) (\<lambda>_. ret b)
     | None \<Rightarrow>
         (case find (\<lambda>b. \<not> b_busy (bs b)) (rev order) of
            Some b \<Rightarrow>
              bindk (upd_buf b (\<lambda>q. q\<lparr>b_dev := dev, b_sector := sector, b_busy := True,
                                     b_valid := False, b_dirty := False\<rparr>)) (\<lambda>_.
              bindk (rel LkBcache) (\<lambda>_. ret b))
          | None \<Rightarrow> panic ''bget: no buffers'')))"

definition bread :: "u32 \<Rightarrow> u32 \<Rightarrow> ('z bio_scheme, nat) km" where
  "bread dev sector =
     bindk (bget dev sector) (\<lambda>b.
     bindk (buf_of b) (\<lambda>q.
     bindk (whenk (\<not> b_valid q) (iderw b)) (\<lambda>_. ret b)))"

definition bwrite :: "nat \<Rightarrow> ('z bio_scheme, unit) km" where
  "bwrite b =
     bindk (buf_of b) (\<lambda>q.
     if \<not> b_busy q then panic ''bwrite''
     else bindk (upd_buf b (\<lambda>q. q\<lparr>b_dirty := True\<rparr>)) (\<lambda>_. iderw b))"

definition brelse :: "nat \<Rightarrow> ('z bio_scheme, unit) km" where
  "brelse b =
     bindk (buf_of b) (\<lambda>q.
     if \<not> b_busy q then panic ''brelse''
     else
       bindk (acq LkBcache) (\<lambda>_.
       bindk (modk (\<lambda>s. s\<lparr>lru := b # removeAll b (lru s)\<rparr>)) (\<lambda>_.
       bindk (upd_buf b (\<lambda>q. q\<lparr>b_busy := False\<rparr>)) (\<lambda>_.
       bindk (wakeup (ChBuf b)) (\<lambda>_.
       rel LkBcache)))))"


section \<open>Execution of the driver\<close>

lemma buf_of_eq [exec]: "buf_of b s = Done (bufs s b) s"
  by (simp add: buf_of_def exec)

lemma upd_buf_eq [exec]: "upd_buf b f s = Done () (s\<lparr>bufs := (bufs s)(b := f (bufs s b))\<rparr>)"
  by (simp add: upd_buf_def exec)

lemma unlocked_bio [simp]:
  "unlocked lk (s\<lparr>bufs := x1\<rparr>) = unlocked lk s" "unlocked lk (s\<lparr>lru := x2\<rparr>) = unlocked lk s"
  "unlocked lk (s\<lparr>idequeue := x3\<rparr>) = unlocked lk s" "unlocked lk (s\<lparr>disk := x4\<rparr>) = unlocked lk s"
  "unlocked lk (s\<lparr>havedisk1 := x5\<rparr>) = unlocked lk s" "unlocked lk (s\<lparr>drive_error := x6\<rparr>) = unlocked lk s"
  by (simp_all add: unlocked_def)

lemma nolocks_bio [simp]:
  "nolocks (s\<lparr>bufs := x1\<rparr>) = nolocks s" "nolocks (s\<lparr>lru := x2\<rparr>) = nolocks s"
  "nolocks (s\<lparr>idequeue := x3\<rparr>) = nolocks s" "nolocks (s\<lparr>disk := x4\<rparr>) = nolocks s"
  "nolocks (s\<lparr>havedisk1 := x5\<rparr>) = nolocks s" "nolocks (s\<lparr>drive_error := x6\<rparr>) = nolocks s"
  by (simp_all add: nolocks_def)

definition present :: "u32 \<Rightarrow> 'z bio_scheme \<Rightarrow> bool" where
  "present dev s = (dev = 0 \<or> havedisk1 s)"

text \<open>A buffer that holds a block: locked or not, with the given contents.\<close>

definition holds :: "bool \<Rightarrow> u32 \<Rightarrow> u32 \<Rightarrow> block \<Rightarrow> buf" where
  "holds busy dev sector data =
     \<lparr>b_busy = busy, b_valid = True, b_dirty = False, b_dev = dev, b_sector = sector, b_data = data\<rparr>"

lemma holds_sel [simp]:
  "b_busy (holds l d n x) = l" "b_valid (holds l d n x)" "\<not> b_dirty (holds l d n x)"
  "b_dev (holds l d n x) = d" "b_sector (holds l d n x) = n" "b_data (holds l d n x) = x"
  "(holds l d n x)\<lparr>b_data := y\<rparr> = holds l d n y" "(holds l d n x)\<lparr>b_busy := m\<rparr> = holds m d n x"
  by (simp_all add: holds_def)

lemma iderw_read:
  assumes "nolocks s" and "idequeue s = []" and "b_busy (bufs s b)" and "\<not> b_valid (bufs s b)"
    and "\<not> b_dirty (bufs s b)" and "present (b_dev (bufs s b)) s"
    and "\<not> drive_error s (b_dev (bufs s b)) (b_sector (bufs s b))"
  shows "iderw b s = Done () (s\<lparr>bufs := (bufs s)(b := holds True (b_dev (bufs s b))
      (b_sector (bufs s b)) (disk s (b_dev (bufs s b)) (b_sector (bufs s b)))),
    ptable := wake (ChBuf b) (ptable s)\<rparr>)"
  using assms
  by (auto simp: iderw_def idestart_def ideintr_def exec present_def Let_def holds_def
      intro!: bio.equality buf.equality arg_cong [of _ _ "\<lambda>k. (bufs s)(b := k)"])

lemma iderw_write:
  assumes "nolocks s" and "idequeue s = []" and "b_busy (bufs s b)" and "b_dirty (bufs s b)"
    and "present (b_dev (bufs s b)) s"
  shows "iderw b s = Done () (s\<lparr>
      disk := (disk s)(b_dev (bufs s b) := (disk s (b_dev (bufs s b)))(b_sector (bufs s b) := b_data (bufs s b))),
      bufs := (bufs s)(b := holds True (b_dev (bufs s b)) (b_sector (bufs s b)) (b_data (bufs s b))),
      ptable := wake (ChBuf b) (ptable s)\<rparr>)"
  using assms
  by (auto simp: iderw_def idestart_def ideintr_def exec present_def Let_def holds_def
      intro!: bio.equality buf.equality arg_cong [of _ _ "\<lambda>k. (bufs s)(b := k)"])

section \<open>The cache invariant\<close>

text \<open>
  \<open>cache_ok H s\<close>: the buffers in \<open>H\<close> are locked and all others are not; the LRU list is a
  permutation of the buffers; no block of a real device is cached twice; an unlocked valid
  buffer agrees with the disk (every modification was written through before \<open>brelse\<close>); no
  disk request is pending.
\<close>

definition cache_ok :: "nat set \<Rightarrow> 'z bio_scheme \<Rightarrow> bool" where
  "cache_ok H s \<longleftrightarrow>
     distinct (lru s) \<and> set (lru s) = {..<NBUF} \<and> idequeue s = [] \<and> H \<subseteq> {..<NBUF} \<and>
     (\<forall>b<NBUF. b_busy (bufs s b) = (b \<in> H) \<and> \<not> b_dirty (bufs s b)) \<and>
     (\<forall>b\<in>H. b_valid (bufs s b)) \<and>
     (\<forall>b<NBUF. \<forall>c<NBUF. b \<noteq> c \<longrightarrow> b_dev (bufs s b) = b_dev (bufs s c) \<longrightarrow>
        b_sector (bufs s b) = b_sector (bufs s c) \<longrightarrow> b_dev (bufs s b) = - 1) \<and>
     (\<forall>b<NBUF. b \<notin> H \<longrightarrow> b_valid (bufs s b) \<longrightarrow>
        b_data (bufs s b) = disk s (b_dev (bufs s b)) (b_sector (bufs s b)))"

text \<open>The blocks that are locked.\<close>

definition held :: "nat set \<Rightarrow> 'z bio_scheme \<Rightarrow> (u32 \<times> u32) set" where
  "held H s = (\<lambda>b. (b_dev (bufs s b), b_sector (bufs s b))) ` H"

lemma bget_miss:
  assumes ok: "cache_ok H s" and nl: "nolocks s"
    and none: "\<forall>b<NBUF. \<not> (b_dev (bufs s b) = dev \<and> b_sector (bufs s b) = sector)"
    and room: "card H < NBUF"
  obtains b where "b < NBUF" and "b \<notin> H"
    and "bget dev sector s = Done b (s\<lparr>bufs := (bufs s)(b := (bufs s b)\<lparr>b_dev := dev,
           b_sector := sector, b_busy := True, b_valid := False, b_dirty := False\<rparr>)\<rparr>)"
proof -
  have fin: "H \<subseteq> {..<NBUF}" and l: "set (lru s) = {..<NBUF}"
    and bz: "\<And>b. b < NBUF \<Longrightarrow> b_busy (bufs s b) = (b \<in> H)"
    using ok by (auto simp: cache_ok_def)
  from room fin obtain c where c: "c < NBUF" "c \<notin> H"
    by (metis card_lessThan lessThan_iff less_irrefl subset_antisym subsetI)
  let ?P = "\<lambda>b. \<not> b_busy (bufs s b)"
  have "find ?P (rev (lru s)) \<noteq> None" using c bz l by (auto simp: find_None_iff)
  then obtain b where b: "find ?P (rev (lru s)) = Some b" by blast
  then have "b \<in> set (lru s)" and "?P b" by (auto dest: find_SomeD)
  then have bn: "b < NBUF" "b \<notin> H" using l bz by auto
  have nf: "find (\<lambda>b. b_dev (bufs s b) = dev \<and> b_sector (bufs s b) = sector) (lru s) = None"
    using none l by (auto simp: find_None_iff)
  show thesis
    by (rule that [OF bn]) (use nl in \<open>simp add: bget_def exec nf b\<close>)
qed

lemma bget_hit:
  assumes ok: "cache_ok H s" and nl: "nolocks s" and b: "b < NBUF" "b \<notin> H"
    and at: "b_dev (bufs s b) = dev" "b_sector (bufs s b) = sector" and dev: "dev \<noteq> - 1"
  shows "bget dev sector s = Done b (s\<lparr>bufs := (bufs s)(b := (bufs s b)\<lparr>b_busy := True\<rparr>)\<rparr>)"
proof -
  let ?P = "\<lambda>b. b_dev (bufs s b) = dev \<and> b_sector (bufs s b) = sector"
  have l: "set (lru s) = {..<NBUF}" using ok by (simp add: cache_ok_def)
  have "find ?P (lru s) \<noteq> None" using b at l by (auto simp: find_None_iff)
  then obtain c where c: "find ?P (lru s) = Some c" by blast
  then have "c \<in> set (lru s)" "?P c" by (auto dest: find_SomeD)
  then have "c = b" using ok b at dev l by (auto simp: cache_ok_def)
  moreover have "\<not> b_busy (bufs s b)" using ok b by (simp add: cache_ok_def)
  ultimately show ?thesis using nl c by (simp add: bget_def exec)
qed

section \<open>Contracts of the cache operations\<close>

text \<open>
  \<open>bok H dev s\<close> bundles what the operations on device \<open>dev\<close> need; \<open>bframe H s t\<close> is what
  they leave alone: every field but the cache, the disk and the sleep states, and the buffers in
  \<open>H\<close>.
\<close>

definition bok :: "nat set \<Rightarrow> u32 \<Rightarrow> 'z bio_scheme \<Rightarrow> bool" where
  "bok H dev s \<longleftrightarrow> cache_ok H s \<and> nolocks s \<and> (\<forall>n. \<not> drive_error s dev n) \<and> present dev s \<and> dev \<noteq> - 1"

definition bframe :: "nat set \<Rightarrow> 'z bio_scheme \<Rightarrow> 'z bio_scheme \<Rightarrow> bool" where
  "bframe H s t \<longleftrightarrow> (\<exists>bs l d p. t = s\<lparr>bufs := bs, lru := l, disk := d, ptable := p\<rparr> \<and>
     (\<forall>b\<in>H. bs b = bufs s b) \<and> woken (ptable s) p)"

lemma bframe_refl [simp]: "bframe H s s"
  unfolding bframe_def
  by (rule exI [of _ "bufs s"], rule exI [of _ "lru s"], rule exI [of _ "disk s"],
      rule exI [of _ "ptable s"]) simp

lemma bframe_trans [trans]: "bframe H s t \<Longrightarrow> bframe H t u \<Longrightarrow> bframe H s u"
proof -
  assume "bframe H s t" and "bframe H t u"
  then obtain bs l d p bs' l' d' p' where st: "t = s\<lparr>bufs := bs, lru := l, disk := d, ptable := p\<rparr>"
    "\<forall>b\<in>H. bs b = bufs s b" "woken (ptable s) p"
    and tu: "u = t\<lparr>bufs := bs', lru := l', disk := d', ptable := p'\<rparr>"
    "\<forall>b\<in>H. bs' b = bufs t b" "woken (ptable t) p'"
    unfolding bframe_def by blast
  show "bframe H s u"
    unfolding bframe_def
    by (rule exI [of _ bs'], rule exI [of _ l'], rule exI [of _ d'], rule exI [of _ p'])
      (use st tu woken_trans [of "ptable s" p p'] in simp)
qed

lemma bframe_mono: "bframe H s t \<Longrightarrow> K \<subseteq> H \<Longrightarrow> bframe K s t"
  unfolding bframe_def by blast

lemma bframe_bufs: "bframe H s t \<Longrightarrow> b \<in> H \<Longrightarrow> bufs t b = bufs s b"
  unfolding bframe_def by auto

lemma bframe_held: "bframe H s t \<Longrightarrow> held H t = held H s"
  unfolding held_def by (auto simp: bframe_bufs)

lemma card_H: "cache_ok H s \<Longrightarrow> finite H"
  by (auto simp: cache_ok_def intro: finite_subset)

lemma disk_cache_ok_H:
  assumes "cache_ok H s" and "b \<in> H" and "bufs s b = holds True d n x"
  shows "cache_ok H (s\<lparr>bufs := (bufs s)(b := holds True d n y)\<rparr>)"
  using assms by (auto simp: cache_ok_def)

lemma cache_ok_fill:
  assumes "cache_ok H s" and "b < NBUF" and "b \<notin> H" and "d \<noteq> - 1"
    and "\<forall>c<NBUF. c \<noteq> b \<longrightarrow> \<not> (b_dev (bufs s c) = d \<and> b_sector (bufs s c) = n)"
  shows "cache_ok (insert b H) (s\<lparr>bufs := (bufs s)(b := holds True d n x), ptable := p\<rparr>)"
  using assms by (auto simp: cache_ok_def)

lemma cache_ok_free:
  assumes "cache_ok (insert b H) s" and "b \<notin> H" and "bufs s b = holds True d n (disk s d n)"
  shows "cache_ok H (s\<lparr>lru := b # removeAll b (lru s),
    bufs := (bufs s)(b := holds False d n (disk s d n)), ptable := p\<rparr>)"
  using assms by (auto simp: cache_ok_def distinct_removeAll)

lemma cache_ok_write:
  assumes "cache_ok H s" and "b \<in> H" and "bufs s b = holds True d n x" and "d \<noteq> - 1"
  shows "cache_ok H (s\<lparr>disk := (disk s)(d := (disk s d)(n := x)), ptable := p\<rparr>)"
proof -
  have "b_data (bufs s c) = ((disk s)(d := (disk s d)(n := x))) (b_dev (bufs s c)) (b_sector (bufs s c))"
    if "c < NBUF" "c \<notin> H" "b_valid (bufs s c)" for c
  proof -
    have "b < NBUF" and "c \<noteq> b" using assms that by (auto simp: cache_ok_def)
    then have "\<not> (b_dev (bufs s c) = d \<and> b_sector (bufs s c) = n)"
      using assms that unfolding cache_ok_def by (metis holds_sel(4,5))
    then show ?thesis using assms that by (auto simp: cache_ok_def)
  qed
  then show ?thesis using assms(1) by (simp add: cache_ok_def)
qed

lemma brelse_eq [exec]:
  assumes "nolocks s" and "b_busy (bufs s b)"
  shows "brelse b s = Done () (s\<lparr>lru := b # removeAll b (lru s),
    bufs := (bufs s)(b := (bufs s b)\<lparr>b_busy := False\<rparr>), ptable := wake (ChBuf b) (ptable s)\<rparr>)"
  using assms by (simp add: brelse_def exec)

lemma bread_rule:
  assumes ok: "bok H dev s" and free: "(dev, n) \<notin> held H s" and room: "card H < NBUF"
  shows "returns (bread dev n s) (\<lambda>b t. b \<notin> H \<and> b < NBUF \<and> bframe H s t \<and> bok (insert b H) dev t \<and>
    bufs t b = holds True dev n (disk s dev n) \<and> disk t = disk s)"
proof -
  have co: "cache_ok H s" and nl: "nolocks s" and good: "\<not> drive_error s dev n"
    and pres: "present dev s" and dev: "dev \<noteq> - 1"
    using ok by (auto simp: bok_def)
  have q: "idequeue s = []" using co by (simp add: cache_ok_def)
  have wrap: ?thesis
    if b: "b < NBUF" "b \<notin> H" and e: "bread dev n s = Done b (s\<lparr>bufs := (bufs s)(b := holds True dev n
        (disk s dev n)), ptable := p\<rparr>)" and w: "woken (ptable s) p"
      and only: "\<forall>c<NBUF. c \<noteq> b \<longrightarrow> \<not> (b_dev (bufs s c) = dev \<and> b_sector (bufs s c) = n)" for b p
  proof (rule returnsI [OF e], intro conjI)
    show "bframe H s (s\<lparr>bufs := (bufs s)(b := holds True dev n (disk s dev n)), ptable := p\<rparr>)"
      unfolding bframe_def
      by (rule exI [of _ "(bufs s)(b := holds True dev n (disk s dev n))"],
          rule exI [of _ "lru s"], rule exI [of _ "disk s"], rule exI [of _ p]) (use b w in auto)
    show "bok (insert b H) dev (s\<lparr>bufs := (bufs s)(b := holds True dev n (disk s dev n)), ptable := p\<rparr>)"
      using cache_ok_fill [OF co b dev only] ok by (auto simp: bok_def present_def)
  qed (use b in auto)
  show ?thesis
  proof (cases "\<exists>b<NBUF. b_dev (bufs s b) = dev \<and> b_sector (bufs s b) = n")
    case True
    then obtain b where b: "b < NBUF" "b_dev (bufs s b) = dev" "b_sector (bufs s b) = n" by blast
    then have bH: "b \<notin> H" using free by (auto simp: held_def image_iff)
    have only: "\<forall>c<NBUF. c \<noteq> b \<longrightarrow> \<not> (b_dev (bufs s c) = dev \<and> b_sector (bufs s c) = n)"
      using co b dev by (auto simp: cache_ok_def)
    have g: "bget dev n s = Done b (s\<lparr>bufs := (bufs s)(b := (bufs s b)\<lparr>b_busy := True\<rparr>)\<rparr>)"
      by (rule bget_hit [OF co nl b(1) bH b(2,3) dev])
    have nd: "\<not> b_dirty (bufs s b)" using co b by (simp add: cache_ok_def)
    show ?thesis
    proof (cases "b_valid (bufs s b)")
      case True
      then have "(bufs s b)\<lparr>b_busy := True\<rparr> = holds True dev n (disk s dev n)"
        using co b bH nd by (auto simp: cache_ok_def holds_def intro!: buf.equality)
      then have "bread dev n s = Done b (s\<lparr>bufs := (bufs s)(b := holds True dev n (disk s dev n)),
          ptable := ptable s\<rparr>)"
        by (simp add: bread_def exec g)
      then show ?thesis by (rule wrap [OF b(1) bH _ _ only]) simp
    next
      case False
      then have "bread dev n s = Done b (s\<lparr>bufs := (bufs s)(b := holds True dev n (disk s dev n)),
          ptable := wake (ChBuf b) (ptable s)\<rparr>)"
        using b nd nl q good pres by (simp add: bread_def exec g iderw_read present_def)
      then show ?thesis by (rule wrap [OF b(1) bH _ _ only]) simp
    qed
  next
    case False
    then have none: "\<forall>b<NBUF. \<not> (b_dev (bufs s b) = dev \<and> b_sector (bufs s b) = n)" by blast
    obtain b where b: "b < NBUF" "b \<notin> H"
      and g: "bget dev n s = Done b (s\<lparr>bufs := (bufs s)(b := (bufs s b)\<lparr>b_dev := dev,
           b_sector := n, b_busy := True, b_valid := False, b_dirty := False\<rparr>)\<rparr>)"
      by (rule bget_miss [OF co nl none room])
    have "bread dev n s = Done b (s\<lparr>bufs := (bufs s)(b := holds True dev n (disk s dev n)),
        ptable := wake (ChBuf b) (ptable s)\<rparr>)"
      using nl q good pres by (simp add: bread_def exec g iderw_read present_def)
    then show ?thesis by (rule wrap [OF b]) (use none in auto)
  qed
qed


text \<open>A change to the contents of a locked buffer, as \<open>bp->data[i] = x\<close> makes.\<close>

definition upd_data :: "nat \<Rightarrow> (block \<Rightarrow> block) \<Rightarrow> ('z bio_scheme, unit) km" where
  "upd_data b f = upd_buf b (\<lambda>q. q\<lparr>b_data := f (b_data q)\<rparr>)"

definition data_of :: "nat \<Rightarrow> ('z bio_scheme, block) km" where
  "data_of b = getk (\<lambda>s. b_data (bufs s b))"

lemma data_of_eq: "data_of b s = Done (b_data (bufs s b)) s"
  by (simp add: data_of_def exec)

lemma upd_data_rule:
  assumes "bok H dev s" and "b \<in> H" and "bufs s b = holds True d n x"
  shows "returns (upd_data b f s) (\<lambda>_ t. bok H dev t \<and> bframe (H - {b}) s t \<and>
    bufs t b = holds True d n (f x) \<and> disk t = disk s)"
proof (rule returnsI)
  let ?t = "s\<lparr>bufs := (bufs s)(b := holds True d n (f x))\<rparr>"
  show "upd_data b f s = Done () ?t" using assms by (simp add: upd_data_def exec)
  have "bframe (H - {b}) s ?t"
    unfolding bframe_def
    by (rule exI [of _ "bufs ?t"], rule exI [of _ "lru s"], rule exI [of _ "disk s"],
        rule exI [of _ "ptable s"]) auto
  then show "bok H dev ?t \<and> bframe (H - {b}) s ?t \<and> bufs ?t b = holds True d n (f x) \<and> disk ?t = disk s"
    using assms disk_cache_ok_H [of H s b d n x "f x"] by (simp add: bok_def present_def)
qed

lemma bwrite_rule:
  assumes ok: "bok H dev s" and b: "b \<in> H" and h: "bufs s b = holds True dev n x"
  shows "returns (bwrite b s) (\<lambda>_ t. bok H dev t \<and> bframe H s t \<and>
    disk t = (disk s)(dev := (disk s dev)(n := x)))"
proof (rule returnsI)
  let ?w = "(disk s)(dev := (disk s dev)(n := x))"
  let ?t = "s\<lparr>disk := ?w, ptable := wake (ChBuf b) (ptable s)\<rparr>"
  have nl: "nolocks s" "idequeue s = []" "present dev s" "dev \<noteq> - 1" and co: "cache_ok H s"
    using ok by (auto simp: bok_def cache_ok_def)
  have "bwrite b s = Done () (s\<lparr>disk := ?w, bufs := (bufs s)(b := holds True dev n x),
      ptable := wake (ChBuf b) (ptable s)\<rparr>)"
    using nl h by (simp add: bwrite_def exec iderw_write present_def)
  moreover have "(bufs s)(b := holds True dev n x) = bufs s" using h by auto
  ultimately show "bwrite b s = Done () ?t" by simp
  have "bframe H s ?t"
    unfolding bframe_def
    by (rule exI [of _ "bufs s"], rule exI [of _ "lru s"], rule exI [of _ ?w],
        rule exI [of _ "ptable ?t"]) simp
  then show "bok H dev ?t \<and> bframe H s ?t \<and> disk ?t = ?w"
    using ok cache_ok_write [OF co b h nl(4)] by (simp add: bok_def present_def)
qed

lemma brelse_rule:
  assumes ok: "bok (insert b H) dev s" and b: "b \<notin> H" and h: "bufs s b = holds True d n (disk s d n)"
  shows "returns (brelse b s) (\<lambda>_ t. bok H dev t \<and> bframe H s t \<and> disk t = disk s)"
proof (rule returnsI)
  let ?bs = "(bufs s)(b := holds False d n (disk s d n))"
  let ?t = "s\<lparr>lru := b # removeAll b (lru s), bufs := ?bs, ptable := wake (ChBuf b) (ptable s)\<rparr>"
  show "brelse b s = Done () ?t" using ok h by (simp add: brelse_eq bok_def)
  have "bframe H s ?t"
    unfolding bframe_def
    by (rule exI [of _ ?bs], rule exI [of _ "lru ?t"], rule exI [of _ "disk s"],
        rule exI [of _ "ptable ?t"]) (use b in auto)
  then show "bok H dev ?t \<and> bframe H s ?t \<and> disk ?t = disk s"
    using ok cache_ok_free [of b H s d n] b h by (simp add: bok_def present_def)
qed

section \<open>Working on one block\<close>

text \<open>
  \<open>hold H dev n x s b t\<close>: since state \<open>s\<close> the block \<open>(dev, n)\<close> was locked in buffer \<open>b\<close>,
  which now contains \<open>x\<close>. \<open>bpost H dev s d t\<close>: since \<open>s\<close> the device's contents became \<open>d\<close>
  and nothing else changed.
\<close>

definition hold :: "nat set \<Rightarrow> u32 \<Rightarrow> u32 \<Rightarrow> block \<Rightarrow> 'z bio_scheme \<Rightarrow> nat \<Rightarrow> 'z bio_scheme \<Rightarrow> bool" where
  "hold H dev n x s b t \<longleftrightarrow> b \<notin> H \<and> bframe H s t \<and> bok (insert b H) dev t \<and>
     bufs t b = holds True dev n x"

definition bpost :: "nat set \<Rightarrow> u32 \<Rightarrow> 'z bio_scheme \<Rightarrow> (u32 \<Rightarrow> block) \<Rightarrow> 'z bio_scheme \<Rightarrow> bool" where
  "bpost H dev s d t \<longleftrightarrow> bok H dev t \<and> bframe H s t \<and> disk t = (disk s)(dev := d)"

lemma bok_finite [simp]: "bok H dev s \<Longrightarrow> finite H"
  by (auto simp: bok_def card_H)

lemma bread_hold:
  assumes "bok H dev s" and "(dev, n) \<notin> held H s" and "card H < NBUF"
  shows "returns (bread dev n s) (\<lambda>b t. hold H dev n (disk s dev n) s b t \<and> disk t = disk s)"
  by (rule returns_mono [OF bread_rule [OF assms]]) (auto simp: hold_def)

lemma hold_held: "hold H dev n x s b t \<Longrightarrow> held (insert b H) t = insert (dev, n) (held H s)"
  using bframe_held [of H s t] by (simp add: hold_def held_def)

lemma hold_card [simp]: "hold H dev n x s b t \<Longrightarrow> card (insert b H) = Suc (card H)"
  using bok_finite [of "insert b H" dev t] by (simp add: hold_def)

lemma hold_bok: "hold H dev n x s b t \<Longrightarrow> bok (insert b H) dev t"
  by (simp add: hold_def)

lemma hold_data: "hold H dev n x s b t \<Longrightarrow> data_of b t = Done x t"
  by (simp add: data_of_eq hold_def)

lemma hold_bpost:
  assumes "hold H dev n x s b t" and "bpost (insert b H) dev t d u"
  shows "hold H dev n x s b u"
  using assms bframe_bufs [of "insert b H" t u b]
  by (auto simp: hold_def bpost_def intro: bframe_trans bframe_mono)

lemma hold_release:
  assumes "hold H dev n x s b t" and "disk t dev n = x"
  shows "returns (brelse b t) (\<lambda>_ u. bok H dev u \<and> bframe H s u \<and> disk u = disk t)"
  by (rule returns_mono [OF brelse_rule [of b H dev t dev n]])
    (use assms in \<open>auto simp: hold_def intro: bframe_trans\<close>)

lemma hold_upd:
  assumes "hold H dev n x s b t"
  shows "returns (upd_data b f t) (\<lambda>_ u. hold H dev n (f x) s b u \<and> disk u = disk t)"
  by (rule returns_mono [OF upd_data_rule [of "insert b H" dev t b dev n x]])
    (use assms in \<open>auto simp: hold_def intro: bframe_trans\<close>)

lemma hold_bwrite:
  assumes "hold H dev n x s b t"
  shows "returns (bwrite b t) (\<lambda>_ u. hold H dev n x s b u \<and> disk u = (disk t)(dev := (disk t dev)(n := x)))"
  by (rule returns_mono [OF bwrite_rule [of "insert b H" dev t b n x]])
    (use assms in \<open>auto simp: hold_def intro: bframe_trans bframe_mono dest: bframe_bufs\<close>)

lemma hold_write:
  assumes h: "hold H dev n x s b t"
    and k: "\<And>u. bok H dev u \<Longrightarrow> bframe H s u \<Longrightarrow> disk u = (disk t)(dev := (disk t dev)(n := x)) \<Longrightarrow>
      returns (k () u) Q"
  shows "returns (bindk (bwrite b) (\<lambda>_. bindk (brelse b) k) t) Q"
  by (rule returns_bindk, rule hold_bwrite [OF h],
      rule returns_bindk, rule hold_release [of H dev n x s b]) (use k in auto)

lemma hold_write_last:
  assumes h: "hold H dev n x s b t"
  shows "returns (bindk (bwrite b) (\<lambda>_. brelse b) t) (\<lambda>_ u. bok H dev u \<and> bframe H s u \<and>
    disk u = (disk t)(dev := (disk t dev)(n := x)))"
  by (rule returns_bindk, rule hold_bwrite [OF h],
      rule returns_mono [OF hold_release [of H dev n x s b]]) auto

lemma bpost_refl: "bok H dev s \<Longrightarrow> bpost H dev s (disk s dev) s"
  by (simp add: bpost_def)

lemma bpost_trans [trans]:
  "bpost H dev s d t \<Longrightarrow> bpost H dev t e u \<Longrightarrow> bpost H dev s e u"
  by (auto simp: bpost_def intro: bframe_trans)

lemma bpost_sel:
  assumes "bpost H dev s d t"
  shows "bok H dev t" and "disk t dev = d" and "held H t = held H s"
  using assms by (auto simp: bpost_def bframe_held)

text \<open>The same contracts for a routine that goes on with \<open>k\<close>.\<close>

lemma bread_then:
  assumes "bok H dev s" and "(dev, n) \<notin> held H s" and "card H < NBUF"
    and "\<And>b t. hold H dev n (disk s dev n) s b t \<Longrightarrow> disk t = disk s \<Longrightarrow> returns (k b t) Q"
  shows "returns (bindk (bread dev n) k s) Q"
  by (rule returns_bindk, rule bread_hold) (use assms in auto)

lemma hold_data_bind: "hold H dev n x s b t \<Longrightarrow> bindk (data_of b) k t = k x t"
  by (simp add: bindk_def hold_data)

lemma data_then:
  assumes "hold H dev n x s b t" and "returns (k x t) Q"
  shows "returns (bindk (data_of b) k t) Q"
  using assms by (simp add: hold_data_bind)

lemma upd_then:
  assumes "hold H dev n x s b t"
    and "\<And>u. hold H dev n (f x) s b u \<Longrightarrow> disk u = disk t \<Longrightarrow> returns (k () u) Q"
  shows "returns (bindk (upd_data b f) k t) Q"
  by (rule returns_bindk, rule hold_upd) (use assms in auto)

lemma release_then:
  assumes "hold H dev n x s b t" and "disk t dev n = x"
    and "\<And>u. bok H dev u \<Longrightarrow> bframe H s u \<Longrightarrow> disk u = disk t \<Longrightarrow> returns (k () u) Q"
  shows "returns (bindk (brelse b) k t) Q"
  by (rule returns_bindk, rule hold_release) (use assms in auto)

end
