(* ===== verification/Fs_Block.thy ===== *)
theory Fs_Block
  imports Bio
begin

text \<open>
  The block layer of \<open>kernel/fs.c\<close>: the super block, zeroing a block, and the allocator over
  the free bitmap, with the disk layout of \<open>include/fs.h\<close>. The bitmap is a part of the disk;
  the routines work on it through the buffer cache, and the lemmas relate them to functions on
  the disk contents.
\<close>

definition BPB :: nat where "BPB = BSIZE * 8"
definition IPB :: nat where "IPB = 8"
definition NDIRECT :: nat where "NDIRECT = 12"
definition NINDIRECT :: nat where "NINDIRECT = 128"
definition MAXFILE :: nat where "MAXFILE = NDIRECT + NINDIRECT"

definition IBLOCK :: "u32 \<Rightarrow> u32" where
  "IBLOCK i = i div 8 + 2"

definition BBLOCK :: "u32 \<Rightarrow> u32 \<Rightarrow> u32" where
  "BBLOCK b ninodes = b div 4096 + ninodes div 8 + 3"

record superblock =
  sb_size :: u32
  sb_nblocks :: u32
  sb_ninodes :: u32

definition get_sb :: "block \<Rightarrow> superblock" where
  "get_sb d = \<lparr>sb_size = get32 d 0, sb_nblocks = get32 d 4, sb_ninodes = get32 d 8\<rparr>"

definition readsb :: "u32 \<Rightarrow> ('z bio_scheme, superblock) km" where
  "readsb dev =
     bindk (bread dev 1) (\<lambda>bp.
     bindk (data_of bp) (\<lambda>d.
     bindk (brelse bp) (\<lambda>_.
     ret (get_sb d))))"

definition bzero :: "u32 \<Rightarrow> u32 \<Rightarrow> ('z bio_scheme, unit) km" where
  "bzero dev bno =
     bindk (bread dev bno) (\<lambda>bp.
     bindk (upd_data bp (\<lambda>d. memset d 0 0 BSIZE)) (\<lambda>_.
     bindk (bwrite bp) (\<lambda>_.
     brelse bp)))"

text \<open>
  Bit \<open>bi\<close> of a bitmap block, the search of the inner loop of \<open>balloc\<close>, and the two updates.
\<close>

definition bm_used :: "block \<Rightarrow> nat \<Rightarrow> bool" where
  "bm_used d bi = (d (bi div 8) AND push_bit (bi mod 8) 1 \<noteq> 0)"

definition bm_set :: "block \<Rightarrow> nat \<Rightarrow> block" where
  "bm_set d bi = d(bi div 8 := d (bi div 8) OR push_bit (bi mod 8) 1)"

definition bm_clear :: "block \<Rightarrow> nat \<Rightarrow> block" where
  "bm_clear d bi = d(bi div 8 := d (bi div 8) AND NOT (push_bit (bi mod 8) 1))"

definition bm_first_free :: "block \<Rightarrow> nat option" where
  "bm_first_free d = find (\<lambda>bi. \<not> bm_used d bi) [0..<BPB]"

text \<open>The values of \<open>b\<close> in the outer loop of \<open>balloc\<close>.\<close>

definition bitmap_starts :: "u32 \<Rightarrow> nat list" where
  "bitmap_starts sz = map (\<lambda>k. k * BPB) [0..<(unat sz + BPB - 1) div BPB]"

definition balloc_try :: "u32 \<Rightarrow> u32 \<Rightarrow> nat \<Rightarrow> ('z bio_scheme, u32 option) km" where
  "balloc_try dev ninodes b =
     bindk (bread dev (BBLOCK (of_nat b) ninodes)) (\<lambda>bp.
     bindk (data_of bp) (\<lambda>d.
     case bm_first_free d of
       Some bi \<Rightarrow>
         bindk (upd_data bp (\<lambda>d. bm_set d bi)) (\<lambda>_.
         bindk (bwrite bp) (\<lambda>_.
         bindk (brelse bp) (\<lambda>_.
         ret (Some (of_nat (b + bi))))))
     | None \<Rightarrow>
         bindk (brelse bp) (\<lambda>_.
         ret None)))"

definition balloc :: "u32 \<Rightarrow> ('z bio_scheme, u32) km" where
  "balloc dev =
     bindk (readsb dev) (\<lambda>sb.
     bindk (search (balloc_try dev (sb_ninodes sb)) (bitmap_starts (sb_size sb))) (\<lambda>r.
     case r of Some addr \<Rightarrow> ret addr | None \<Rightarrow> panic ''balloc: out of blocks''))"

definition bfree :: "u32 \<Rightarrow> u32 \<Rightarrow> ('z bio_scheme, unit) km" where
  "bfree dev b =
     bindk (bzero dev b) (\<lambda>_.
     bindk (readsb dev) (\<lambda>sb.
     bindk (bread dev (BBLOCK b (sb_ninodes sb))) (\<lambda>bp.
     bindk (data_of bp) (\<lambda>d.
     if \<not> bm_used d (unat b mod BPB) then panic ''freeing free block''
     else
       bindk (upd_data bp (\<lambda>d. bm_clear d (unat b mod BPB))) (\<lambda>_.
       bindk (bwrite bp) (\<lambda>_.
       brelse bp))))))"

section \<open>The bitmap\<close>

lemma bm_used_bit: "bm_used d bi = bit (d (bi div 8)) (bi mod 8)"
  by (simp only: bm_used_def bit_iff_and_push_bit_not_eq_0 [symmetric])

lemma div_mod_8_eq: "i div 8 = j div 8 \<Longrightarrow> i mod 8 = j mod 8 \<Longrightarrow> i = (j::nat)"
  by (metis div_mult_mod_eq)

lemma bm_used_set: "bm_used (bm_set d i) j = (j = i \<or> bm_used d j)"
  by (auto simp: bm_used_bit bm_set_def bit_simps dest: div_mod_8_eq)

lemma bm_used_clear: "bm_used (bm_clear d i) j = (j \<noteq> i \<and> bm_used d j)"
  by (auto simp: bm_used_bit bm_clear_def bit_simps dest: div_mod_8_eq)

lemma bm_clear_set: "\<not> bm_used d i \<Longrightarrow> bm_clear (bm_set d i) i = d"
  by (auto simp: bm_used_bit bm_clear_def bm_set_def bit_simps fun_eq_iff intro!: bit_word_eqI)

lemma bm_first_free_Some:
  "bm_first_free d = Some bi \<longleftrightarrow> bi < BPB \<and> \<not> bm_used d bi \<and> (\<forall>j<bi. bm_used d j)"
proof
  assume "bm_first_free d = Some bi"
  then obtain k where "k < BPB" "[0..<BPB] ! k = bi" "\<not> bm_used d bi" "\<forall>j<k. bm_used d ([0..<BPB] ! j)"
    by (auto simp: bm_first_free_def find_Some_iff)
  then show "bi < BPB \<and> \<not> bm_used d bi \<and> (\<forall>j<bi. bm_used d j)" by auto
next
  assume "bi < BPB \<and> \<not> bm_used d bi \<and> (\<forall>j<bi. bm_used d j)"
  then show "bm_first_free d = Some bi"
    unfolding bm_first_free_def find_Some_iff by (intro exI [of _ bi]) auto
qed

lemma bm_first_free_None: "bm_first_free d = None \<longleftrightarrow> (\<forall>bi<BPB. bm_used d bi)"
  by (auto simp: bm_first_free_def find_None_iff)

section \<open>Contracts of the block routines\<close>

lemma readsb_rule:
  assumes "bok H dev s" and "(dev, 1) \<notin> held H s" and "card H < NBUF"
  shows "returns (readsb dev s) (\<lambda>sb t. sb = get_sb (disk s dev 1) \<and> bpost H dev s (disk s dev) t)"
  unfolding readsb_def
  by (rule bread_then [OF assms], rule data_then, assumption, rule release_then, assumption)
    (auto intro!: returns_ret simp: bpost_def)

lemma bzero_rule:
  assumes "bok H dev s" and "(dev, n) \<notin> held H s" and "card H < NBUF"
  shows "returns (bzero dev n s) (\<lambda>_. bpost H dev s ((disk s dev)(n := memset (disk s dev n) 0 0 BSIZE)))"
  unfolding bzero_def
  by (rule bread_then [OF assms], rule upd_then, assumption, rule returns_mono, rule hold_write_last,
      assumption) (auto simp: bpost_def)

text \<open>
  The allocator on the contents \<open>D\<close> of a device: the first free bit of the first bitmap block
  that has one.
\<close>

primrec find_free :: "(u32 \<Rightarrow> block) \<Rightarrow> u32 \<Rightarrow> nat list \<Rightarrow> (nat \<times> nat) option" where
  "find_free D ni [] = None"
| "find_free D ni (b # bs) =
     (case bm_first_free (D (BBLOCK (of_nat b) ni)) of
        Some bi \<Rightarrow> Some (b, bi)
      | None \<Rightarrow> find_free D ni bs)"

definition sb_of :: "(u32 \<Rightarrow> block) \<Rightarrow> superblock" where
  "sb_of D = get_sb (D 1)"

definition bitmap_blocks :: "(u32 \<Rightarrow> block) \<Rightarrow> u32 set" where
  "bitmap_blocks D = (\<lambda>b. BBLOCK (of_nat b) (sb_ninodes (sb_of D))) ` set (bitmap_starts (sb_size (sb_of D)))"

definition balloc_spec :: "(u32 \<Rightarrow> block) \<Rightarrow> (u32 \<times> (u32 \<Rightarrow> block)) option" where
  "balloc_spec D = (let ni = sb_ninodes (sb_of D) in
     map_option (\<lambda>(b, bi). (of_nat (b + bi),
        D(BBLOCK (of_nat b) ni := bm_set (D (BBLOCK (of_nat b) ni)) bi)))
       (find_free D ni (bitmap_starts (sb_size (sb_of D)))))"

lemma balloc_try_rule:
  assumes "bok H dev s" and "(dev, BBLOCK (of_nat b) ni) \<notin> held H s" and "card H < NBUF"
  shows "returns (balloc_try dev ni b s) (\<lambda>r t.
    case bm_first_free (disk s dev (BBLOCK (of_nat b) ni)) of
      None \<Rightarrow> r = None \<and> bpost H dev s (disk s dev) t
    | Some bi \<Rightarrow> r = Some (of_nat (b + bi)) \<and> bpost H dev s ((disk s dev)(BBLOCK (of_nat b) ni :=
          bm_set (disk s dev (BBLOCK (of_nat b) ni)) bi)) t)"
proof (cases "bm_first_free (disk s dev (BBLOCK (of_nat b) ni))")
  case None
  show ?thesis
    unfolding balloc_try_def
    by (rule bread_then [OF assms], rule data_then, assumption, simp only: None option.case,
        rule release_then, assumption) (auto intro!: returns_ret simp: bpost_def)
next
  case (Some bi)
  show ?thesis
    unfolding balloc_try_def
    by (rule bread_then [OF assms], rule data_then, assumption, simp only: Some option.case,
        rule upd_then, assumption, rule hold_write, assumption)
      (auto intro!: returns_ret simp: bpost_def)
qed

lemma balloc_search:
  fixes s :: "'z bio_scheme"
  assumes "bok H dev s" and "\<forall>b\<in>set bs. (dev, BBLOCK (of_nat b) ni) \<notin> held H s" and "card H < NBUF"
  shows "returns (search (balloc_try dev ni) bs s) (\<lambda>r t.
    case find_free (disk s dev) ni bs of
      None \<Rightarrow> r = None \<and> bpost H dev s (disk s dev) t
    | Some (b, bi) \<Rightarrow> r = Some (of_nat (b + bi)) \<and> bpost H dev s ((disk s dev)(BBLOCK (of_nat b) ni :=
        bm_set (disk s dev (BBLOCK (of_nat b) ni)) bi)) t)"
  using assms
proof (induction bs arbitrary: s)
  case Nil
  then show ?case by (simp add: returns_ret bpost_refl)
next
  case (Cons b bs)
  show ?case
    unfolding search.simps
  proof (rule returns_bindk [where m = "balloc_try dev ni b"], rule balloc_try_rule)
    fix r :: "u32 option" and t :: "'z bio_scheme"
    assume r: "case bm_first_free (disk s dev (BBLOCK (of_nat b) ni)) of
      None \<Rightarrow> r = None \<and> bpost H dev s (disk s dev) t
    | Some bi \<Rightarrow> r = Some (of_nat (b + bi)) \<and> bpost H dev s ((disk s dev)(BBLOCK (of_nat b) ni :=
          bm_set (disk s dev (BBLOCK (of_nat b) ni)) bi)) t"
    show "returns ((case r of None \<Rightarrow> search (balloc_try dev ni) bs | Some v \<Rightarrow> ret (Some v)) t)
      (\<lambda>r t. case find_free (disk s dev) ni (b # bs) of
      None \<Rightarrow> r = None \<and> bpost H dev s (disk s dev) t
    | Some (b, bi) \<Rightarrow> r = Some (of_nat (b + bi)) \<and> bpost H dev s ((disk s dev)(BBLOCK (of_nat b) ni :=
        bm_set (disk s dev (BBLOCK (of_nat b) ni)) bi)) t)"
    proof (cases "bm_first_free (disk s dev (BBLOCK (of_nat b) ni))")
      case None
      then have st: "r = None" "bpost H dev s (disk s dev) t" using r by auto
      have "returns (search (balloc_try dev ni) bs t) (\<lambda>r u. case find_free (disk t dev) ni bs of
          None \<Rightarrow> r = None \<and> bpost H dev t (disk t dev) u
        | Some (b, bi) \<Rightarrow> r = Some (of_nat (b + bi)) \<and> bpost H dev t ((disk t dev)(BBLOCK (of_nat b) ni :=
            bm_set (disk t dev (BBLOCK (of_nat b) ni)) bi)) u)"
        by (rule Cons.IH) (use bpost_sel [OF st(2)] Cons.prems in auto)
      then show ?thesis
        unfolding st(1) option.case
        by (rule returns_mono)
          (use bpost_sel [OF st(2)] bpost_trans [OF st(2)] in \<open>auto simp: None split: option.splits\<close>)
    next
      case (Some bi)
      then show ?thesis using r by (auto intro!: returns_ret)
    qed
  qed (use Cons.prems in auto)
qed

text \<open>
  The blocks the allocator touches, which its caller must not have locked: the super block and
  the bitmap.
\<close>

definition meta_free :: "nat set \<Rightarrow> u32 \<Rightarrow> 'z bio_scheme \<Rightarrow> bool" where
  "meta_free H dev s \<longleftrightarrow> (dev, 1) \<notin> held H s \<and> (\<forall>n\<in>bitmap_blocks (disk s dev). (dev, n) \<notin> held H s)"

lemma balloc_rule:
  assumes "bok H dev s" and "meta_free H dev s" and "card H < NBUF"
    and "balloc_spec (disk s dev) = Some (a, D)"
  shows "returns (balloc dev s) (\<lambda>r t. r = a \<and> bpost H dev s D t)"
  unfolding balloc_def
proof (rule returns_bindk, rule readsb_rule)
  fix sb t assume t: "sb = get_sb (disk s dev 1) \<and> bpost H dev s (disk s dev) t"
  note sel = bpost_sel [OF conjunct2 [OF t]]
  show "returns (bindk (search (balloc_try dev (sb_ninodes sb)) (bitmap_starts (sb_size sb)))
      (\<lambda>r. case r of None \<Rightarrow> panic ''balloc: out of blocks'' | Some x \<Rightarrow> ret x) t)
      (\<lambda>r t. r = a \<and> bpost H dev s D t)"
    by (rule returns_bindk, rule balloc_search [OF sel(1) _ assms(3)])
      (use assms t sel bpost_trans [OF conjunct2 [OF t]] in \<open>auto simp: meta_free_def balloc_spec_def
        bitmap_blocks_def Let_def sb_of_def intro!: returns_ret split: option.splits\<close>)
qed (use assms in \<open>auto simp: meta_free_def\<close>)

lemma balloc_full:
  assumes "bok H dev s" and "meta_free H dev s" and "card H < NBUF"
    and "balloc_spec (disk s dev) = None"
  shows "balloc dev s = Panic ''balloc: out of blocks''"
  unfolding balloc_def
proof (rule panics_bindk, rule readsb_rule)
  fix sb t assume t: "sb = get_sb (disk s dev 1) \<and> bpost H dev s (disk s dev) t"
  note sel = bpost_sel [OF conjunct2 [OF t]]
  show "bindk (search (balloc_try dev (sb_ninodes sb)) (bitmap_starts (sb_size sb)))
      (\<lambda>r. case r of None \<Rightarrow> panic ''balloc: out of blocks'' | Some x \<Rightarrow> ret x) t
      = Panic ''balloc: out of blocks''"
    by (rule panics_bindk, rule balloc_search [OF sel(1) _ assms(3)])
      (use assms t sel in \<open>auto simp: meta_free_def balloc_spec_def
        bitmap_blocks_def Let_def sb_of_def panic_def split: option.splits\<close>)
qed (use assms in \<open>auto simp: meta_free_def\<close>)

text \<open>Whether the bitmap of \<open>D\<close> marks block \<open>b\<close> as in use.\<close>

definition blk_used :: "(u32 \<Rightarrow> block) \<Rightarrow> u32 \<Rightarrow> bool" where
  "blk_used D b = bm_used (D (BBLOCK b (sb_ninodes (sb_of D)))) (unat b mod BPB)"

text \<open>Block numbers and bitmap positions.\<close>

lemma unat_BBLOCK: "unat (BBLOCK b ni) = unat b div BPB + unat ni div 8 + 3"
proof -
  have "unat b div 4096 < 2 ^ 20" "unat ni div 8 < 2 ^ 29"
    using unat_lt2p [of b] unat_lt2p [of ni] by (simp_all add: less_mult_imp_div_less)
  then show ?thesis
    by (simp add: BBLOCK_def BPB_def BSIZE_def unat_word_ariths unat_div)
qed

lemma BBLOCK_cong: "unat b div BPB = unat c div BPB \<Longrightarrow> BBLOCK b ni = BBLOCK c ni"
  by (simp add: word_unat_eq_iff unat_BBLOCK)

lemma BBLOCK_eq_iff: "BBLOCK b ni = BBLOCK c ni \<longleftrightarrow> unat b div BPB = unat c div BPB"
  by (simp add: word_unat_eq_iff unat_BBLOCK)

lemma BBLOCK_not_sb [simp]: "BBLOCK b ni \<noteq> 1" "1 \<noteq> BBLOCK b ni"
  using unat_BBLOCK [of b ni] by auto

lemma bitmap_starts_mem:
  "b \<in> set (bitmap_starts sz) \<longleftrightarrow> (\<exists>k. b = k * BPB \<and> k * BPB < unat sz)"
proof -
  have "k < (n + BPB - 1) div BPB \<longleftrightarrow> k * BPB < n" for k n
    using less_eq_div_iff_mult_less_eq [of BPB "Suc k" "n + BPB - 1"]
    by (auto simp: BPB_def BSIZE_def less_eq_Suc_le)
  then show ?thesis by (auto simp: bitmap_starts_def)
qed

lemma start_addr:
  assumes "b \<in> set (bitmap_starts sz)" and "bi < BPB"
  shows "unat (of_nat (b + bi) :: u32) = b + bi" and "(b + bi) div BPB = b div BPB"
    and "(b + bi) mod BPB = bi" and "unat (of_nat b :: u32) = b"
proof -
  from assms(1) obtain k where k: "b = k * BPB" "k * BPB < unat sz" by (auto simp: bitmap_starts_mem)
  have "k < 2 ^ 20" using k unat_lt2p [of sz] by (simp add: BPB_def BSIZE_def)
  then have "b + bi < 2 ^ 32" using k assms(2) by (simp add: BPB_def BSIZE_def)
  then show "unat (of_nat (b + bi) :: u32) = b + bi" "unat (of_nat b :: u32) = b"
    by (simp_all del: of_nat_add)
  show "(b + bi) div BPB = b div BPB" "(b + bi) mod BPB = bi" using k assms(2) by simp_all
qed

lemma bitmap_block_of:
  assumes "unat b < unat (sb_size (sb_of D))"
  shows "BBLOCK b (sb_ninodes (sb_of D)) \<in> bitmap_blocks D"
proof -
  let ?st = "unat b div BPB * BPB"
  have st: "?st \<in> set (bitmap_starts (sb_size (sb_of D)))"
    using assms by (auto simp: bitmap_starts_mem intro: le_less_trans [OF div_times_less_eq_dividend])
  have "0 < BPB" by (simp add: BPB_def BSIZE_def)
  then have "BBLOCK (of_nat ?st) (sb_ninodes (sb_of D)) = BBLOCK b (sb_ninodes (sb_of D))"
    by (intro BBLOCK_cong) (simp add: start_addr(4) [OF st] del: of_nat_mult)
  then show ?thesis using st unfolding bitmap_blocks_def by (metis image_eqI)
qed

lemma bitmap_not_sb: "1 \<notin> bitmap_blocks D"
  by (auto simp: bitmap_blocks_def)

lemma bfree_rule:
  assumes ok: "bok H dev s" "card H < NBUF" and mf: "meta_free H dev s" and nh: "(dev, b) \<notin> held H s"
    and used: "blk_used (disk s dev) b" and sb: "b \<noteq> 1"
    and bm: "b \<noteq> BBLOCK b (sb_ninodes (sb_of (disk s dev)))"
    and sz: "unat b < unat (sb_size (sb_of (disk s dev)))"
  shows "returns (bfree dev b s) (\<lambda>_. bpost H dev s ((disk s dev)(b := memset (disk s dev b) 0 0 BSIZE,
    BBLOCK b (sb_ninodes (sb_of (disk s dev))) := bm_clear (disk s dev (BBLOCK b (sb_ninodes (sb_of
    (disk s dev))))) (unat b mod BPB))))"
  unfolding bfree_def
proof (rule returns_bindk, rule bzero_rule [OF ok(1) nh ok(2)], rule returns_bindk, rule readsb_rule)
  let ?D = "(disk s dev)(b := memset (disk s dev b) 0 0 BSIZE)"
  let ?n = "BBLOCK b (sb_ninodes (sb_of (disk s dev)))"
  fix t sb u
  assume t: "bpost H dev s ?D t"
  note st = bpost_sel [OF t]
  show "bok H dev t" "card H < NBUF" "(dev, 1) \<notin> held H t" using st ok mf by (auto simp: meta_free_def)
  assume "sb = get_sb (disk t dev 1) \<and> bpost H dev t (disk t dev) u"
  then have sb': "sb = sb_of (disk s dev)" and u: "bpost H dev s ?D u"
    using st sb bpost_trans [OF t] by (auto simp: sb_of_def)
  note su = bpost_sel [OF u]
  show "returns (bindk (bread dev (BBLOCK b (sb_ninodes sb))) (\<lambda>bp. bindk (data_of bp) (\<lambda>d.
      if \<not> bm_used d (unat b mod BPB) then panic ''freeing free block''
      else bindk (upd_data bp (\<lambda>d. bm_clear d (unat b mod BPB))) (\<lambda>_. bindk (bwrite bp) (\<lambda>_. brelse bp)))) u)
      (\<lambda>_. bpost H dev s (?D(?n := bm_clear (disk s dev ?n) (unat b mod BPB))))"
  proof (rule bread_then, rule su(1))
    show "(dev, BBLOCK b (sb_ninodes sb)) \<notin> held H u"
      using mf bitmap_block_of [OF sz] by (auto simp: sb' su meta_free_def)
    fix bp v
    assume v: "hold H dev (BBLOCK b (sb_ninodes sb)) (disk u dev (BBLOCK b (sb_ninodes sb))) u bp v"
      "disk v = disk u"
    then have v': "hold H dev ?n (disk s dev ?n) u bp v" using bm by (auto simp: sb' su)
    show "returns (bindk (data_of bp) (\<lambda>d.
      if \<not> bm_used d (unat b mod BPB) then panic ''freeing free block''
      else bindk (upd_data bp (\<lambda>d. bm_clear d (unat b mod BPB))) (\<lambda>_. bindk (bwrite bp) (\<lambda>_. brelse bp))) v)
      (\<lambda>_. bpost H dev s (?D(?n := bm_clear (disk s dev ?n) (unat b mod BPB))))"
      by (rule data_then [OF v'], simp only: used [unfolded blk_used_def] simp_thms if_False,
          rule upd_then [OF v'], rule returns_mono, rule hold_write_last, assumption)
        (use v(2) u in \<open>auto simp: bpost_def intro: bframe_trans\<close>)
  qed (rule ok)
qed

lemma bfree_free:
  assumes ok: "bok H dev s" "card H < NBUF" and mf: "meta_free H dev s" and nh: "(dev, b) \<notin> held H s"
    and free: "\<not> blk_used (disk s dev) b" and sb: "b \<noteq> 1"
    and bm: "b \<noteq> BBLOCK b (sb_ninodes (sb_of (disk s dev)))"
    and sz: "unat b < unat (sb_size (sb_of (disk s dev)))"
  shows "bfree dev b s = Panic ''freeing free block''"
  unfolding bfree_def
proof (rule panics_bindk, rule bzero_rule [OF ok(1) nh ok(2)], rule panics_bindk, rule readsb_rule)
  let ?D = "(disk s dev)(b := memset (disk s dev b) 0 0 BSIZE)"
  let ?n = "BBLOCK b (sb_ninodes (sb_of (disk s dev)))"
  fix t sb u
  assume t: "bpost H dev s ?D t"
  note st = bpost_sel [OF t]
  show "bok H dev t" "card H < NBUF" "(dev, 1) \<notin> held H t" using st ok mf by (auto simp: meta_free_def)
  assume "sb = get_sb (disk t dev 1) \<and> bpost H dev t (disk t dev) u"
  then have sb': "sb = sb_of (disk s dev)" and u: "bpost H dev s ?D u"
    using st sb bpost_trans [OF t] by (auto simp: sb_of_def)
  note su = bpost_sel [OF u]
  show "bindk (bread dev (BBLOCK b (sb_ninodes sb))) (\<lambda>bp. bindk (data_of bp) (\<lambda>d.
      if \<not> bm_used d (unat b mod BPB) then panic ''freeing free block''
      else bindk (upd_data bp (\<lambda>d. bm_clear d (unat b mod BPB))) (\<lambda>_. bindk (bwrite bp) (\<lambda>_. brelse bp)))) u
      = Panic ''freeing free block''"
  proof (rule panics_bindk, rule bread_hold, rule su(1))
    show "(dev, BBLOCK b (sb_ninodes sb)) \<notin> held H u"
      using mf bitmap_block_of [OF sz] by (auto simp: sb' su meta_free_def)
  qed (use free bm ok in \<open>auto simp: sb' su blk_used_def bindk_Done [OF hold_data] panic_def\<close>)
qed

text \<open>
  What \<open>balloc\<close> does to the set of used blocks: it takes the first unused one.
\<close>

lemma find_free_Some:
  "find_free D ni bs = Some (b, bi) \<Longrightarrow> b \<in> set bs \<and> bm_first_free (D (BBLOCK (of_nat b) ni)) = Some bi"
  by (induction bs) (auto split: option.splits)

lemma balloc_spec_used:
  assumes "balloc_spec D = Some (a, D')"
  shows "\<not> blk_used D a" and "blk_used D' b = (b = a \<or> blk_used D b)" and "sb_of D' = sb_of D"
    and "n \<notin> bitmap_blocks D \<Longrightarrow> D' n = D n" and "bitmap_blocks D' = bitmap_blocks D"
proof -
  let ?ni = "sb_ninodes (sb_of D)"
  obtain st bi where f: "find_free D ?ni (bitmap_starts (sb_size (sb_of D))) = Some (st, bi)"
    and a: "a = of_nat (st + bi)"
    and D': "D' = D(BBLOCK (of_nat st) ?ni := bm_set (D (BBLOCK (of_nat st) ?ni)) bi)"
    using assms by (auto simp: balloc_spec_def Let_def)
  from find_free_Some [OF f] have st: "st \<in> set (bitmap_starts (sb_size (sb_of D)))"
    and ff: "bi < BPB" "\<not> bm_used (D (BBLOCK (of_nat st) ?ni)) bi"
    by (auto simp: bm_first_free_Some)
  note ad = start_addr [OF st ff(1)]
  have B: "BBLOCK a ?ni = BBLOCK (of_nat st) ?ni" by (rule BBLOCK_cong) (simp only: a ad)
  show "\<not> blk_used D a" using ff(2) by (simp add: blk_used_def B) (simp add: a ad del: of_nat_add)
  show sbD: "sb_of D' = sb_of D" by (simp add: D' sb_of_def)
  then show "bitmap_blocks D' = bitmap_blocks D" by (simp add: bitmap_blocks_def)
  have same: "BBLOCK b ?ni = BBLOCK (of_nat st) ?ni \<Longrightarrow> unat b mod BPB = bi \<longleftrightarrow> b = a"
    using ad unfolding BBLOCK_eq_iff by (metis a div_mult_mod_eq word_unat_eq_iff)
  show "blk_used D' b = (b = a \<or> blk_used D b)"
  proof (cases "BBLOCK b ?ni = BBLOCK (of_nat st) ?ni")
    case True
    then have "blk_used D' b = bm_used (bm_set (D (BBLOCK b ?ni)) bi) (unat b mod BPB)"
      unfolding blk_used_def sbD by (simp add: D')
    then show ?thesis using same [OF True] by (simp add: bm_used_set blk_used_def)
  next
    case False
    then have "b \<noteq> a" using B by auto
    then show ?thesis using False by (simp add: blk_used_def sbD) (simp add: D')
  qed
  show "D' n = D n" if "n \<notin> bitmap_blocks D" using that st by (auto simp: D' bitmap_blocks_def)
qed

lemma find_free_first:
  "find_free D ni bs = Some (b, bi) \<Longrightarrow> \<exists>xs ys. bs = xs @ b # ys \<and>
     (\<forall>x\<in>set xs. bm_first_free (D (BBLOCK (of_nat x) ni)) = None)"
proof (induction bs)
  case (Cons x bs)
  show ?case
  proof (cases "bm_first_free (D (BBLOCK (of_nat x) ni))")
    case None
    with Cons obtain xs ys where "bs = xs @ b # ys"
      "\<forall>x\<in>set xs. bm_first_free (D (BBLOCK (of_nat x) ni)) = None" by auto
    with None show ?thesis by (intro exI [of _ "x # xs"] exI [of _ ys]) simp
  next
    case (Some k)
    with Cons.prems show ?thesis by (intro exI [of _ "[]"] exI [of _ bs]) simp
  qed
qed simp

lemma bitmap_starts_split:
  assumes "bitmap_starts sz = xs @ b # ys" and "k * BPB < b"
  shows "k * BPB \<in> set xs"
proof -
  let ?m = "length xs"
  define n where "n = (unat sz + BPB - 1) div BPB"
  have e: "map (\<lambda>k. k * BPB) [0..<n] = xs @ b # ys" using assms(1) by (simp add: bitmap_starts_def n_def)
  have n: "?m < n" using arg_cong [OF e, of length] by simp
  then have m: "b = ?m * BPB" using arg_cong [OF e, of "\<lambda>l. l ! ?m"] by simp
  then have k: "k < ?m" using assms(2) by auto
  then have "xs ! k = k * BPB" using n arg_cong [OF e, of "\<lambda>l. l ! k"] by (simp add: nth_append)
  then show ?thesis using k nth_mem by metis
qed

lemma balloc_spec_first:
  assumes "balloc_spec D = Some (a, D')" and "unat b < unat a"
  shows "blk_used D b"
proof -
  let ?ni = "sb_ninodes (sb_of D)"
  obtain st bi where f: "find_free D ?ni (bitmap_starts (sb_size (sb_of D))) = Some (st, bi)"
    and a: "a = of_nat (st + bi)"
    using assms by (auto simp: balloc_spec_def Let_def)
  from find_free_Some [OF f] have st: "st \<in> set (bitmap_starts (sb_size (sb_of D)))"
    and ff: "bi < BPB" "\<forall>j<bi. bm_used (D (BBLOCK (of_nat st) ?ni)) j"
    by (auto simp: bm_first_free_Some)
  note ad = start_addr [OF st ff(1)]
  have P: "0 < BPB" by (simp add: BPB_def BSIZE_def)
  from st obtain m where m: "st = m * BPB" by (auto simp: bitmap_starts_mem)
  let ?k = "unat b div BPB"
  have lt: "unat b < m * BPB + bi" using assms(2) ad(1) by (simp add: a m del: of_nat_add of_nat_mult)
  show ?thesis
  proof (cases "?k = m")
    case True
    then have "unat b mod BPB < bi" using lt by (metis add_less_cancel_left mult.commute mult_div_mod_eq)
    moreover have "BBLOCK b ?ni = BBLOCK (of_nat st) ?ni"
      using True ad P by (simp add: BBLOCK_eq_iff m del: of_nat_mult)
    ultimately show ?thesis using ff(2) by (simp add: blk_used_def)
  next
    case False
    moreover have "?k \<le> m" using div_le_mono [OF less_imp_le [OF lt], of BPB] ff(1) P by simp
    ultimately have "?k < m" by simp
    then have "?k * BPB < st" using P by (simp add: m)
    obtain xs ys where xs: "bitmap_starts (sb_size (sb_of D)) = xs @ st # ys"
      "\<forall>x\<in>set xs. bm_first_free (D (BBLOCK (of_nat x) ?ni)) = None"
      using find_free_first [OF f] by blast
    have kx: "?k * BPB \<in> set xs" by (rule bitmap_starts_split [OF xs(1)]) fact
    then have all: "\<forall>j<BPB. bm_used (D (BBLOCK (of_nat (?k * BPB)) ?ni)) j"
      using xs(2) by (auto simp: bm_first_free_None)
    have "?k * BPB \<in> set (bitmap_starts (sb_size (sb_of D)))" using kx xs(1) by simp
    then have "BBLOCK (of_nat (?k * BPB)) ?ni = BBLOCK b ?ni"
      using start_addr(4) [of "?k * BPB" _ 0] P by (simp add: BBLOCK_eq_iff del: of_nat_mult)
    then show ?thesis using all P by (simp add: blk_used_def del: of_nat_mult)
  qed
qed

end
