(* ===== verification/Fs_Inode.thy ===== *)
theory Fs_Inode
  imports Fs_Block
begin

text \<open>
  The inode layer of \<open>kernel/fs.c\<close>: on-disk inodes, the cache of in-memory inodes with its
  reference counts and the \<open>I_BUSY\<close> lock, the block maps \<open>bmap\<close> and \<open>mbmap\<close> (the map of a
  mirrored file, three consecutive slots per logical block) and truncation. An inode pointer is an
  index of \<open>icache.inode\<close>; the routines that test for a null pointer take an option. What
  \<open>cprintf\<close> prints is left out, the calls in its arguments are not.
\<close>

definition NINODE :: nat where "NINODE = 50"
definition NDEV :: nat where "NDEV = 10"
definition ROOTDEV :: u32 where "ROOTDEV = 1"
definition ROOTINO :: u32 where "ROOTINO = 1"
definition T_DIR :: u16 where "T_DIR = 1"
definition T_FILE :: u16 where "T_FILE = 2"
definition T_DEV :: u16 where "T_DEV = 3"
definition T_MIRRORED :: u16 where "T_MIRRORED = 4"

record dinode =
  d_type :: u16
  d_major :: u16
  d_minor :: u16
  d_nlink :: u16
  d_size :: u32
  d_addrs :: "nat \<Rightarrow> u32"

record inode =
  i_dev :: u32
  i_inum :: u32
  i_ref :: int
  i_busy :: bool
  i_valid :: bool
  i_type :: u16
  i_major :: u16
  i_minor :: u16
  i_nlink :: u16
  i_size :: u32
  i_addrs :: "nat \<Rightarrow> u32"

record stat =
  st_type :: u16
  st_dev :: u32
  st_ino :: u32
  st_nlink :: u16
  st_logical_size :: u32
  st_physical_size :: u32

record fs = bio +
  icache :: "nat \<Rightarrow> inode"

section \<open>On-disk inodes\<close>

text \<open>\<open>dip = (struct dinode* )bp->data + inum%IPB\<close>, as an offset; a \<open>struct dinode\<close> is 64 bytes.\<close>

definition dip_off :: "u32 \<Rightarrow> nat" where
  "dip_off inum = 64 * (unat inum mod IPB)"

definition get_addrs :: "block \<Rightarrow> nat \<Rightarrow> nat \<Rightarrow> u32" where
  "get_addrs d o1 = (\<lambda>i. if i \<le> NDIRECT then get32 d (o1 + 4 * i) else 0)"

fun put_addrs :: "block \<Rightarrow> nat \<Rightarrow> (nat \<Rightarrow> u32) \<Rightarrow> nat \<Rightarrow> block" where
  "put_addrs d o1 a 0 = d"
| "put_addrs d o1 a (Suc k) = put32 (put_addrs d o1 a k) (o1 + 4 * k) (a k)"

definition get_dinode :: "block \<Rightarrow> nat \<Rightarrow> dinode" where
  "get_dinode d o1 = \<lparr>d_type = get16 d o1, d_major = get16 d (o1 + 2), d_minor = get16 d (o1 + 4),
     d_nlink = get16 d (o1 + 6), d_size = get32 d (o1 + 8), d_addrs = get_addrs d (o1 + 12)\<rparr>"

definition put_dinode :: "block \<Rightarrow> nat \<Rightarrow> dinode \<Rightarrow> block" where
  "put_dinode d o1 di =
     put_addrs (put32 (put16 (put16 (put16 (put16 d o1 (d_type di)) (o1 + 2) (d_major di)) (o1 + 4) (d_minor di))
       (o1 + 6) (d_nlink di)) (o1 + 8) (d_size di)) (o1 + 12) (d_addrs di) (NDIRECT + 1)"

definition dinode_of :: "inode \<Rightarrow> dinode" where
  "dinode_of ip = \<lparr>d_type = i_type ip, d_major = i_major ip, d_minor = i_minor ip, d_nlink = i_nlink ip,
     d_size = i_size ip, d_addrs = i_addrs ip\<rparr>"

definition inode_load :: "dinode \<Rightarrow> inode \<Rightarrow> inode" where
  "inode_load di ip = ip\<lparr>i_type := d_type di, i_major := d_major di, i_minor := d_minor di,
     i_nlink := d_nlink di, i_size := d_size di, i_addrs := d_addrs di\<rparr>"

section \<open>The inode cache\<close>

definition inode_of :: "nat \<Rightarrow> ('z fs_scheme, inode) km" where
  "inode_of ip = getk (\<lambda>s. icache s ip)"

definition upd_inode :: "nat \<Rightarrow> (inode \<Rightarrow> inode) \<Rightarrow> ('z fs_scheme, unit) km" where
  "upd_inode ip f = modk (\<lambda>s. s\<lparr>icache := (icache s)(ip := f (icache s ip))\<rparr>)"

definition iinit :: "('z fs_scheme, unit) km" where
  "iinit = initlk LkIcache"

text \<open>
  \<open>iget\<close>: the loop returns at the first cached entry and otherwise remembers the first slot
  with no references.
\<close>

definition iget :: "u32 \<Rightarrow> u32 \<Rightarrow> ('z fs_scheme, nat) km" where
  "iget dev inum =
     bindk (acq LkIcache) (\<lambda>_.
     bindk (getk icache) (\<lambda>ic.
     case find (\<lambda>ip. 0 < i_ref (ic ip) \<and> i_dev (ic ip) = dev \<and> i_inum (ic ip) = inum) [0..<NINODE] of
       Some ip \<Rightarrow>
         bindk (upd_inode ip (\<lambda>i. i\<lparr>i_ref := i_ref i + 1\<rparr>)) (\<lambda>_.
         bindk (rel LkIcache) (\<lambda>_.
         ret ip))
     | None \<Rightarrow>
         (case find (\<lambda>ip. i_ref (ic ip) = 0) [0..<NINODE] of
            None \<Rightarrow> panic ''iget: no inodes''
          | Some ip \<Rightarrow>
              bindk (upd_inode ip (\<lambda>i. i\<lparr>i_dev := dev, i_inum := inum, i_ref := 1,
                                    i_busy := False, i_valid := False\<rparr>)) (\<lambda>_.
              bindk (rel LkIcache) (\<lambda>_.
              ret ip)))))"

definition ialloc_try :: "u32 \<Rightarrow> u16 \<Rightarrow> nat \<Rightarrow> ('z fs_scheme, nat option) km" where
  "ialloc_try dev type inum =
     bindk (bread dev (IBLOCK (of_nat inum))) (\<lambda>bp.
     bindk (data_of bp) (\<lambda>d.
     if get16 d (dip_off (of_nat inum)) = 0 then
       bindk (upd_data bp (\<lambda>d. put16 (memset d (dip_off (of_nat inum)) 0 64) (dip_off (of_nat inum)) type)) (\<lambda>_.
       bindk (bwrite bp) (\<lambda>_.
       bindk (brelse bp) (\<lambda>_.
       bindk (iget dev (of_nat inum)) (\<lambda>ip.
       ret (Some ip)))))
     else
       bindk (brelse bp) (\<lambda>_.
       ret None)))"

definition ialloc :: "u32 \<Rightarrow> u16 \<Rightarrow> ('z fs_scheme, nat) km" where
  "ialloc dev type =
     bindk (readsb dev) (\<lambda>sb.
     bindk (search (ialloc_try dev type) [1..<unat (sb_ninodes sb)]) (\<lambda>r.
     case r of Some ip \<Rightarrow> ret ip | None \<Rightarrow> panic ''ialloc: no inodes''))"

definition iupdate :: "nat \<Rightarrow> ('z fs_scheme, unit) km" where
  "iupdate ip =
     bindk (inode_of ip) (\<lambda>i.
     bindk (bread (i_dev i) (IBLOCK (i_inum i))) (\<lambda>bp.
     bindk (upd_data bp (\<lambda>d. put_dinode d (dip_off (i_inum i)) (dinode_of i))) (\<lambda>_.
     bindk (bwrite bp) (\<lambda>_.
     brelse bp))))"

definition idup :: "nat \<Rightarrow> ('z fs_scheme, nat) km" where
  "idup ip =
     bindk (acq LkIcache) (\<lambda>_.
     bindk (upd_inode ip (\<lambda>i. i\<lparr>i_ref := i_ref i + 1\<rparr>)) (\<lambda>_.
     bindk (rel LkIcache) (\<lambda>_.
     ret ip)))"

definition ilock :: "nat option \<Rightarrow> ('z fs_scheme, unit) km" where
  "ilock ipo =
     (case ipo of None \<Rightarrow> panic ''ilock''
      | Some ip \<Rightarrow>
          bindk (inode_of ip) (\<lambda>i0.
          if i_ref i0 < 1 then panic ''ilock''
          else
            bindk (acq LkIcache) (\<lambda>_.
            bindk (inode_of ip) (\<lambda>i.
            bindk (whenk (i_busy i) (sleep (ChInode ip) (Some LkIcache))) (\<lambda>_.
            bindk (upd_inode ip (\<lambda>i. i\<lparr>i_busy := True\<rparr>)) (\<lambda>_.
            bindk (rel LkIcache) (\<lambda>_.
            bindk (inode_of ip) (\<lambda>i.
            whenk (\<not> i_valid i)
              (bindk (bread (i_dev i) (IBLOCK (i_inum i))) (\<lambda>bp.
                bindk (data_of bp) (\<lambda>d.
                bindk (upd_inode ip (inode_load (get_dinode d (dip_off (i_inum i))))) (\<lambda>_.
                bindk (brelse bp) (\<lambda>_.
                bindk (upd_inode ip (\<lambda>i. i\<lparr>i_valid := True\<rparr>)) (\<lambda>_.
                bindk (inode_of ip) (\<lambda>i.
                whenk (i_type i = 0) (panic ''ilock: no type''))))))))))))))))"

definition iunlock :: "nat option \<Rightarrow> ('z fs_scheme, unit) km" where
  "iunlock ipo =
     (case ipo of None \<Rightarrow> panic ''iunlock''
      | Some ip \<Rightarrow>
          bindk (inode_of ip) (\<lambda>i.
          if \<not> i_busy i \<or> i_ref i < 1 then panic ''iunlock''
          else
            bindk (acq LkIcache) (\<lambda>_.
            bindk (upd_inode ip (\<lambda>i. i\<lparr>i_busy := False\<rparr>)) (\<lambda>_.
            bindk (wakeup (ChInode ip)) (\<lambda>_.
            rel LkIcache)))))"

section \<open>Block maps and truncation\<close>

definition set_addr :: "nat \<Rightarrow> nat \<Rightarrow> u32 \<Rightarrow> ('z fs_scheme, unit) km" where
  "set_addr ip k addr = upd_inode ip (\<lambda>i. i\<lparr>i_addrs := (i_addrs i)(k := addr)\<rparr>)"

text \<open>
  The shape \<open>if((addr = ip->addrs[k]) == 0) ip->addrs[k] = addr = balloc(ip->dev)\<close>, which the
  block maps use for every slot of the inode.
\<close>

definition addr_slot :: "nat \<Rightarrow> nat \<Rightarrow> ('z fs_scheme, u32) km" where
  "addr_slot ip k =
     (if NDIRECT < k then undef ''addrs out of bounds''
      else
        bindk (inode_of ip) (\<lambda>i.
        if i_addrs i k = 0 then
          bindk (balloc (i_dev i)) (\<lambda>addr.
          bindk (set_addr ip k addr) (\<lambda>_.
          ret addr))
        else ret (i_addrs i k)))"

text \<open>The same for entry \<open>k\<close> of an indirect block locked in \<open>bp\<close>, written back when it changes.\<close>

definition ind_slot :: "u32 \<Rightarrow> nat \<Rightarrow> nat \<Rightarrow> ('z fs_scheme, u32) km" where
  "ind_slot dev bp k =
     (if NINDIRECT \<le> k then undef ''indirect block out of bounds''
      else
        bindk (data_of bp) (\<lambda>d.
        if get32 d (4 * k) = 0 then
          bindk (balloc dev) (\<lambda>addr.
          bindk (upd_data bp (\<lambda>d. put32 d (4 * k) addr)) (\<lambda>_.
          bindk (bwrite bp) (\<lambda>_.
          ret addr)))
        else ret (get32 d (4 * k))))"

text \<open>
  Entry \<open>k\<close> of the indirect block: load that block, allocating it if necessary, and look up or
  fill the entry.
\<close>

definition ind_map :: "nat \<Rightarrow> nat \<Rightarrow> ('z fs_scheme, u32) km" where
  "ind_map ip k =
     bindk (addr_slot ip NDIRECT) (\<lambda>addr.
     bindk (inode_of ip) (\<lambda>i.
     bindk (bread (i_dev i) addr) (\<lambda>bp.
     bindk (ind_slot (i_dev i) bp k) (\<lambda>a.
     bindk (brelse bp) (\<lambda>_.
     ret a)))))"

definition bmap :: "nat \<Rightarrow> nat \<Rightarrow> ('z fs_scheme, u32) km" where
  "bmap ip bn =
     (if bn < NDIRECT then addr_slot ip bn
      else if bn - NDIRECT < NINDIRECT then ind_map ip (bn - NDIRECT)
      else panic ''bmap: out of range'')"

text \<open>
  \<open>mbmap\<close>. In the direct part the slot of copy 0 is always filled first; in the indirect part
  an \<open>mbn\<close> above 2 only loads the indirect block and returns its address.
\<close>

definition mbmap :: "nat \<Rightarrow> nat \<Rightarrow> nat \<Rightarrow> ('z fs_scheme, u32) km" where
  "mbmap ip bn mbn =
     (if bn < NDIRECT then
        bindk (addr_slot ip bn) (\<lambda>addr.
        if mbn = 1 then addr_slot ip (bn + 1)
        else if mbn = 2 then addr_slot ip (bn + 2)
        else ret addr)
      else if bn - NDIRECT < NINDIRECT then
        (if mbn \<le> 2 then ind_map ip (bn - NDIRECT + mbn)
         else
           bindk (addr_slot ip NDIRECT) (\<lambda>addr.
           bindk (inode_of ip) (\<lambda>i.
           bindk (bread (i_dev i) addr) (\<lambda>bp.
           bindk (brelse bp) (\<lambda>_.
           ret addr)))))
      else panic ''bmap: out of range'')"

definition itrunc :: "nat \<Rightarrow> ('z fs_scheme, unit) km" where
  "itrunc ip =
     bindk (foreach (\<lambda>k.
       bindk (inode_of ip) (\<lambda>i.
       whenk (i_addrs i k \<noteq> 0)
         (bindk (bfree (i_dev i) (i_addrs i k)) (\<lambda>_.
           set_addr ip k 0)))) [0..<NDIRECT]) (\<lambda>_.
     bindk (inode_of ip) (\<lambda>i.
     bindk (whenk (i_addrs i NDIRECT \<noteq> 0)
       (bindk (bread (i_dev i) (i_addrs i NDIRECT)) (\<lambda>bp.
         bindk (foreach (\<lambda>j.
         bindk (data_of bp) (\<lambda>d.
         whenk (get32 d (4 * j) \<noteq> 0) (bfree (i_dev i) (get32 d (4 * j))))) [0..<NINDIRECT]) (\<lambda>_.
         bindk (brelse bp) (\<lambda>_.
         bindk (bfree (i_dev i) (i_addrs i NDIRECT)) (\<lambda>_.
         set_addr ip NDIRECT 0)))))) (\<lambda>_.
     bindk (upd_inode ip (\<lambda>i. i\<lparr>i_size := 0\<rparr>)) (\<lambda>_.
     iupdate ip))))"

definition iput :: "nat \<Rightarrow> ('z fs_scheme, unit) km" where
  "iput ip =
     bindk (acq LkIcache) (\<lambda>_.
     bindk (inode_of ip) (\<lambda>i.
     bindk (whenk (i_ref i = 1 \<and> i_valid i \<and> i_nlink i = 0)
       (if i_busy i then panic ''iput busy''
        else
          bindk (upd_inode ip (\<lambda>i. i\<lparr>i_busy := True\<rparr>)) (\<lambda>_.
          bindk (rel LkIcache) (\<lambda>_.
          bindk (itrunc ip) (\<lambda>_.
          bindk (upd_inode ip (\<lambda>i. i\<lparr>i_type := 0\<rparr>)) (\<lambda>_.
          bindk (iupdate ip) (\<lambda>_.
          bindk (acq LkIcache) (\<lambda>_.
          bindk (upd_inode ip (\<lambda>i. i\<lparr>i_busy := False, i_valid := False\<rparr>)) (\<lambda>_.
          wakeup (ChInode ip)))))))))) (\<lambda>_.
     bindk (upd_inode ip (\<lambda>i. i\<lparr>i_ref := i_ref i - 1\<rparr>)) (\<lambda>_.
     rel LkIcache))))"

definition iunlockput :: "nat option \<Rightarrow> ('z fs_scheme, unit) km" where
  "iunlockput ipo =
     bindk (iunlock ipo) (\<lambda>_.
     case ipo of None \<Rightarrow> undef ''null inode'' | Some ip \<Rightarrow> iput ip)"

definition stati :: "nat \<Rightarrow> ('z fs_scheme, stat) km" where
  "stati ip =
     bindk (inode_of ip) (\<lambda>i.
     ret \<lparr>st_type = i_type i, st_dev = i_dev i, st_ino = i_inum i, st_nlink = i_nlink i,
          st_logical_size = i_size i,
          st_physical_size = (if i_type i = T_MIRRORED then i_size i * 3 else i_size i)\<rparr>)"

section \<open>The disk image of an inode\<close>

lemma put_addrs_other: "i < o1 \<or> o1 + 4 * k \<le> i \<Longrightarrow> put_addrs d o1 a k i = d i"
  by (induction k) auto

lemma get32_put_addrs: "j < k \<Longrightarrow> get32 (put_addrs d o1 a k) (o1 + 4 * j) = a j"
proof (induction k)
  case (Suc k)
  then show ?case by (cases "j = k") auto
qed simp

lemma get_put_addrs_disjoint [simp]:
  "a + 4 \<le> o1 \<Longrightarrow> get32 (put_addrs d o1 f k) a = get32 d a"
  "a + 2 \<le> o1 \<Longrightarrow> get16 (put_addrs d o1 f k) a = get16 d a"
  by (rule get32_cong get16_cong; simp add: put_addrs_other)+

lemma get_put_addrs:
  "get_addrs (put_addrs d o1 a (NDIRECT + 1)) o1 = (\<lambda>i. if i \<le> NDIRECT then a i else 0)"
  by (simp add: get_addrs_def fun_eq_iff get32_put_addrs del: put_addrs.simps)

lemma get_put_dinode:
  "get_dinode (put_dinode d o1 di) o1 = di\<lparr>d_addrs := (\<lambda>i. if i \<le> NDIRECT then d_addrs di i else 0)\<rparr>"
  unfolding get_dinode_def put_dinode_def get_put_addrs
  by (simp del: put_addrs.simps)

lemma put_dinode_other: "i < o1 \<or> o1 + 64 \<le> i \<Longrightarrow> put_dinode d o1 di i = d i"
  by (auto simp: put_dinode_def NDIRECT_def put_addrs_other)

section \<open>Execution of the inode routines\<close>

lemma inode_of_eq [exec]: "inode_of ip s = Done (icache s ip) s"
  by (simp add: inode_of_def exec)

lemma upd_inode_eq [exec]: "upd_inode ip f s = Done () (s\<lparr>icache := (icache s)(ip := f (icache s ip))\<rparr>)"
  by (simp add: upd_inode_def exec)

lemma bindk_upd_inode:
  "bindk (upd_inode ip f) k s = k () (s\<lparr>icache := (icache s)(ip := f (icache s ip))\<rparr>)"
  by (simp add: bindk_def upd_inode_eq)

lemma set_addr_eq [exec]:
  "set_addr ip k a s = Done () (s\<lparr>icache := (icache s)(ip := (icache s ip)\<lparr>i_addrs := (i_addrs (icache s ip))(k := a)\<rparr>)\<rparr>)"
  by (simp add: set_addr_def exec)

lemma fs_frame [simp]:
  "unlocked lk (s\<lparr>icache := c\<rparr>) = unlocked lk s" "nolocks (s\<lparr>icache := c\<rparr>) = nolocks s"
  "cache_ok H (s\<lparr>icache := c\<rparr>) = cache_ok H s" "bok H dev (s\<lparr>icache := c\<rparr>) = bok H dev s"
  "held H (s\<lparr>icache := c\<rparr>) = held H s"
  unfolding unlocked_def nolocks_def cache_ok_def bok_def held_def present_def by simp_all

lemma bframe_icache: "bframe H s t \<Longrightarrow> icache t = icache s"
  unfolding bframe_def by (elim exE conjE) simp

lemma bframe_icache_upd: "bframe H s t \<Longrightarrow> bframe H (s\<lparr>icache := c\<rparr>) (t\<lparr>icache := c\<rparr>)"
  unfolding bframe_def
  by (elim exE conjE, rule exI, rule exI, rule exI, rule exI, rule conjI, rule fs.equality) auto

lemma hold_icache: "hold H dev n x s b t \<Longrightarrow> icache t = icache s"
  unfolding hold_def by (blast dest: bframe_icache)

lemma hold_icache_upd: "hold H dev n x s b t \<Longrightarrow> hold H dev n x (s\<lparr>icache := c\<rparr>) b (t\<lparr>icache := c\<rparr>)"
  by (simp add: hold_def bframe_icache_upd)

lemma bpost_icache: "bpost H dev s D t \<Longrightarrow> icache t = icache s"
  unfolding bpost_def by (blast dest: bframe_icache)

lemma bpost_icache_upd: "bpost H dev s D t \<Longrightarrow> bpost H dev (s\<lparr>icache := c\<rparr>) D (t\<lparr>icache := c\<rparr>)"
  by (simp add: bpost_def bframe_icache_upd)

text \<open>
  \<open>ipost H dev ip i D s t\<close>: since \<open>s\<close> the cached inode \<open>ip\<close> became \<open>i\<close> and the device's
  contents \<open>D\<close>; nothing else changed.
\<close>

definition ipost :: "nat set \<Rightarrow> u32 \<Rightarrow> nat \<Rightarrow> 'z fs_scheme \<Rightarrow> inode \<Rightarrow> (u32 \<Rightarrow> block) \<Rightarrow> 'z fs_scheme \<Rightarrow> bool" where
  "ipost H dev ip s i D t = bpost H dev (s\<lparr>icache := (icache s)(ip := i)\<rparr>) D t"

lemma ipost_refl: "bok H dev s \<Longrightarrow> ipost H dev ip s (icache s ip) (disk s dev) s"
  by (simp add: ipost_def bpost_refl)

lemma ipost_trans [trans]:
  "ipost H dev ip s i D t \<Longrightarrow> ipost H dev ip t j E u \<Longrightarrow> ipost H dev ip s j E u"
  unfolding ipost_def
  using bpost_icache_upd [of H dev "s\<lparr>icache := (icache s)(ip := i)\<rparr>" D t "(icache t)(ip := j)"]
    bpost_icache [of H dev "s\<lparr>icache := (icache s)(ip := i)\<rparr>" D t]
  by (auto intro: bpost_trans)

lemma ipost_sel:
  assumes "ipost H dev ip s i D t"
  shows "bok H dev t" and "disk t dev = D" and "held H t = held H s" and "icache t = (icache s)(ip := i)"
    and "icache t ip = i"
  using bpost_sel [of H dev "s\<lparr>icache := (icache s)(ip := i)\<rparr>" D t]
    bpost_icache [of H dev "s\<lparr>icache := (icache s)(ip := i)\<rparr>" D t] assms
  by (auto simp: ipost_def)

lemma ipost_bpost:
  "bpost H dev s D t \<Longrightarrow> ipost H dev ip s (icache s ip) D t"
  by (simp add: ipost_def)

lemma iupdate_rule:
  assumes "icache s ip = i" and "bok H (i_dev i) s" and "card H < NBUF"
    and "(i_dev i, IBLOCK (i_inum i)) \<notin> held H s"
  shows "returns (iupdate ip s) (\<lambda>_. bpost H (i_dev i) s ((disk s (i_dev i))(IBLOCK (i_inum i) :=
    put_dinode (disk s (i_dev i) (IBLOCK (i_inum i))) (dip_off (i_inum i)) (dinode_of i))))"
  unfolding iupdate_def
  by (subst bindk_Done [OF inode_of_eq], simp only: assms(1), rule bread_then [OF assms(2,4,3)],
      rule upd_then, assumption, rule returns_mono, rule hold_write_last, assumption)
    (auto simp: bpost_def)

section \<open>The block maps as functions on inode and disk\<close>

definition addr_slot_spec :: "inode \<Rightarrow> (u32 \<Rightarrow> block) \<Rightarrow> nat \<Rightarrow> (u32 \<times> inode \<times> (u32 \<Rightarrow> block)) option" where
  "addr_slot_spec i D k =
     (if i_addrs i k = 0
      then map_option (\<lambda>(a, D'). (a, i\<lparr>i_addrs := (i_addrs i)(k := a)\<rparr>, D')) (balloc_spec D)
      else Some (i_addrs i k, i, D))"

definition ind_slot_spec :: "u32 \<Rightarrow> (u32 \<Rightarrow> block) \<Rightarrow> nat \<Rightarrow> (u32 \<times> (u32 \<Rightarrow> block)) option" where
  "ind_slot_spec ind D k =
     (if get32 (D ind) (4 * k) = 0
      then map_option (\<lambda>(a, D'). (a, D'(ind := put32 (D ind) (4 * k) a))) (balloc_spec D)
      else Some (get32 (D ind) (4 * k), D))"

lemma addr_slot_rule:
  assumes i: "icache s ip = i" and ok: "bok H (i_dev i) s" "card H < NBUF" and mf: "meta_free H (i_dev i) s"
    and k: "k \<le> NDIRECT" and sp: "addr_slot_spec i (disk s (i_dev i)) k = Some (a, i', D)"
  shows "returns (addr_slot ip k s) (\<lambda>r t. r = a \<and> ipost H (i_dev i) ip s i' D t)"
proof (cases "i_addrs i k = 0")
  case True
  then have b: "balloc_spec (disk s (i_dev i)) = Some (a, D)"
    and i': "i' = i\<lparr>i_addrs := (i_addrs i)(k := a)\<rparr>"
    using sp by (auto simp: addr_slot_spec_def)
  have eq: "addr_slot ip k s = bindk (balloc (i_dev i)) (\<lambda>addr. bindk (set_addr ip k addr) (\<lambda>_. ret addr)) s"
    using k i True by (simp add: addr_slot_def bindk_Done [OF inode_of_eq])
  show ?thesis unfolding eq
  proof (rule returns_bindk, rule balloc_rule [OF ok(1) mf ok(2) b])
    fix r t assume r: "r = a \<and> bpost H (i_dev i) s D t"
    note t = conjunct2 [OF r]
    have ic: "(icache t)(ip := (icache t ip)\<lparr>i_addrs := (i_addrs (icache t ip))(k := r)\<rparr>) = (icache s)(ip := i')"
      using r i by (simp add: bpost_icache [OF t] i')
    show "returns (bindk (set_addr ip k r) (\<lambda>_. ret r) t) (\<lambda>r t. r = a \<and> ipost H (i_dev i) ip s i' D t)"
      unfolding bindk_Done [OF set_addr_eq] ic ipost_def
      by (rule returns_ret, rule conjI, rule conjunct1 [OF r], rule bpost_icache_upd [OF t])
  qed
next
  case False
  then show ?thesis using sp i k ipost_refl [OF ok(1), of ip]
    by (auto simp: addr_slot_def addr_slot_spec_def exec returns_def)
qed

lemma ind_slot_rule:
  assumes h: "hold H dev ind (disk t dev ind) s b t" and mf: "meta_free (insert b H) dev t"
    and room: "Suc (card H) < NBUF" and k: "k < NINDIRECT"
    and sp: "ind_slot_spec ind (disk t dev) k = Some (a, D)"
  shows "returns (ind_slot dev b k t) (\<lambda>r u. r = a \<and> hold H dev ind (D ind) s b u \<and> disk u = (disk t)(dev := D))"
proof (cases "get32 (disk t dev ind) (4 * k) = 0")
  case True
  then obtain D' where b: "balloc_spec (disk t dev) = Some (a, D')"
    and D: "D = D'(ind := put32 (disk t dev ind) (4 * k) a)"
    using sp by (auto simp: ind_slot_spec_def)
  have eq: "ind_slot dev b k t = bindk (balloc dev) (\<lambda>addr. bindk (upd_data b (\<lambda>d. put32 d (4 * k) addr))
      (\<lambda>_. bindk (bwrite b) (\<lambda>_. ret addr))) t"
    using k True by (simp add: ind_slot_def hold_data_bind [OF h])
  have r1: "returns (balloc dev t) (\<lambda>r u. r = a \<and> bpost (insert b H) dev t D' u)"
    by (rule balloc_rule [OF hold_bok [OF h] mf _ b]) (simp only: hold_card [OF h] room)
  show ?thesis unfolding eq
  proof (rule returns_bindk, rule r1, elim conjE)
    fix r u assume r: "r = a" and u: "bpost (insert b H) dev t D' u"
    have h': "hold H dev ind (disk t dev ind) s b u" by (rule hold_bpost [OF h u])
    show "returns (bindk (upd_data b (\<lambda>d. put32 d (4 * k) r)) (\<lambda>_. bindk (bwrite b) (\<lambda>_. ret r)) u)
      (\<lambda>r u. r = a \<and> hold H dev ind (D ind) s b u \<and> disk u = (disk t)(dev := D))"
      by (rule upd_then [OF h'], rule returns_bindk, rule hold_bwrite, assumption)
        (use u r in \<open>auto intro!: returns_ret simp: D bpost_def\<close>)
  qed
next
  case False
  then show ?thesis using sp k h
    by (auto simp: ind_slot_def ind_slot_spec_def hold_data_bind [OF h] intro!: returns_ret)
qed

definition ind_map_spec :: "inode \<Rightarrow> (u32 \<Rightarrow> block) \<Rightarrow> nat \<Rightarrow> (u32 \<times> inode \<times> (u32 \<Rightarrow> block)) option" where
  "ind_map_spec i D k =
     (case addr_slot_spec i D NDIRECT of None \<Rightarrow> None
      | Some (ind, i', D1) \<Rightarrow> map_option (\<lambda>(a, D2). (a, i', D2)) (ind_slot_spec ind D1 k))"

definition bmap_spec :: "inode \<Rightarrow> (u32 \<Rightarrow> block) \<Rightarrow> nat \<Rightarrow> (u32 \<times> inode \<times> (u32 \<Rightarrow> block)) option" where
  "bmap_spec i D bn =
     (if bn < NDIRECT then addr_slot_spec i D bn else ind_map_spec i D (bn - NDIRECT))"

definition mbmap_spec :: "inode \<Rightarrow> (u32 \<Rightarrow> block) \<Rightarrow> nat \<Rightarrow> nat \<Rightarrow> (u32 \<times> inode \<times> (u32 \<Rightarrow> block)) option" where
  "mbmap_spec i D bn mbn =
     (if bn < NDIRECT then
        (case addr_slot_spec i D bn of None \<Rightarrow> None
         | Some (a, i', D') \<Rightarrow> if mbn = 0 then Some (a, i', D') else addr_slot_spec i' D' (bn + mbn))
      else ind_map_spec i D (bn - NDIRECT + mbn))"

text \<open>A block that no operation on the allocator touches and that is not locked.\<close>

definition blk_free :: "nat set \<Rightarrow> u32 \<Rightarrow> 'z bio_scheme \<Rightarrow> u32 \<Rightarrow> bool" where
  "blk_free H dev s n \<longleftrightarrow> n \<noteq> 1 \<and> n \<notin> bitmap_blocks (disk s dev) \<and> (dev, n) \<notin> held H s"

lemma addr_slot_spec_frame:
  assumes "addr_slot_spec i D k = Some (a, i', D')"
  shows "i_dev i' = i_dev i" and "i_inum i' = i_inum i" and "bitmap_blocks D' = bitmap_blocks D"
    and "sb_of D' = sb_of D"
proof -
  have "i_dev i' = i_dev i \<and> i_inum i' = i_inum i \<and> bitmap_blocks D' = bitmap_blocks D \<and> sb_of D' = sb_of D"
  proof (cases "i_addrs i k = 0")
    case True
    then obtain D'' where "balloc_spec D = Some (a, D')" and "i' = i\<lparr>i_addrs := (i_addrs i)(k := a)\<rparr>"
      using assms by (auto simp: addr_slot_spec_def)
    then show ?thesis by (simp add: balloc_spec_used)
  next
    case False
    then show ?thesis using assms by (simp add: addr_slot_spec_def)
  qed
  then show "i_dev i' = i_dev i" "i_inum i' = i_inum i" "bitmap_blocks D' = bitmap_blocks D" "sb_of D' = sb_of D"
    by blast+
qed

lemma addr_slot_spec_val: "addr_slot_spec i D k = Some (a, i', D') \<Longrightarrow> i_addrs i' k = a"
  by (auto simp: addr_slot_spec_def split: if_splits)

lemma ind_map_rule:
  assumes i: "icache s ip = i" and ok: "bok H (i_dev i) s" "Suc (card H) < NBUF" and mf: "meta_free H (i_dev i) s"
    and k: "k < NINDIRECT" and sp: "ind_map_spec i (disk s (i_dev i)) k = Some (a, i', D)"
    and bf: "blk_free H (i_dev i) s (i_addrs i' NDIRECT)"
  shows "returns (ind_map ip k s) (\<lambda>r t. r = a \<and> ipost H (i_dev i) ip s i' D t)"
proof -
  obtain ind D1 where s1: "addr_slot_spec i (disk s (i_dev i)) NDIRECT = Some (ind, i', D1)"
    and s2: "ind_slot_spec ind D1 k = Some (a, D)"
    using sp by (auto simp: ind_map_spec_def split: option.splits)
  note fr = addr_slot_spec_frame [OF s1]
  have ind: "i_addrs i' NDIRECT = ind" by (rule addr_slot_spec_val [OF s1])
  have r1: "returns (addr_slot ip NDIRECT s) (\<lambda>r t. r = ind \<and> ipost H (i_dev i) ip s i' D1 t)"
    by (rule addr_slot_rule [OF i ok(1) _ mf _ s1]) (use ok in auto)
  show ?thesis unfolding ind_map_def
  proof (rule returns_bindk, rule r1, elim conjE)
    fix r t assume r: "r = ind" and t: "ipost H (i_dev i) ip s i' D1 t"
    note st = ipost_sel [OF t]
    show "returns (bindk (inode_of ip) (\<lambda>i. bindk (bread (i_dev i) r) (\<lambda>bp. bindk (ind_slot (i_dev i) bp k)
      (\<lambda>a. bindk (brelse bp) (\<lambda>_. ret a)))) t) (\<lambda>r t. r = a \<and> ipost H (i_dev i) ip s i' D t)"
      unfolding bindk_Done [OF inode_of_eq] st(5) fr(1) r
    proof (rule bread_then [OF st(1)])
      show "(i_dev i, ind) \<notin> held H t" using bf by (simp add: st blk_free_def ind)
      show "card H < NBUF" using ok by simp
      fix b u
      assume h: "hold H (i_dev i) ind (disk t (i_dev i) ind) t b u" and d: "disk u = disk t"
      have h': "hold H (i_dev i) ind (disk u (i_dev i) ind) t b u" using h d by simp
      have mf': "meta_free (insert b H) (i_dev i) u"
        using mf bf unfolding meta_free_def hold_held [OF h] d st fr blk_free_def ind by auto
      have s2': "ind_slot_spec ind (disk u (i_dev i)) k = Some (a, D)" using s2 by (simp add: d st)
      show "returns (bindk (ind_slot (i_dev i) b k) (\<lambda>a. bindk (brelse b) (\<lambda>_. ret a)) u)
        (\<lambda>r t. r = a \<and> ipost H (i_dev i) ip s i' D t)"
      proof (rule returns_bindk, rule ind_slot_rule [OF h' mf' ok(2) k s2'], elim conjE)
        fix r' v assume r': "r' = a" and v: "hold H (i_dev i) ind (D ind) t b v" "disk v = (disk u)(i_dev i := D)"
        show "returns (bindk (brelse b) (\<lambda>_. ret r') v) (\<lambda>r t. r = a \<and> ipost H (i_dev i) ip s i' D t)"
        proof (rule release_then [OF v(1)])
          fix w assume w: "bok H (i_dev i) w" "bframe H t w" "disk w = disk v"
          have "bpost H (i_dev i) t D w" using w v d by (simp add: bpost_def)
          then have "ipost H (i_dev i) ip s i' D w"
            using t bpost_trans unfolding ipost_def by blast
          then show "returns (ret r' w) (\<lambda>r t. r = a \<and> ipost H (i_dev i) ip s i' D t)"
            by (intro returns_ret) (simp add: r')
        qed (simp add: v)
      qed
    qed
  qed
qed

lemma bmap_rule:
  assumes i: "icache s ip = i" and ok: "bok H (i_dev i) s" "Suc (card H) < NBUF" and mf: "meta_free H (i_dev i) s"
    and bn: "bn < MAXFILE" and sp: "bmap_spec i (disk s (i_dev i)) bn = Some (a, i', D)"
    and bf: "NDIRECT \<le> bn \<Longrightarrow> blk_free H (i_dev i) s (i_addrs i' NDIRECT)"
  shows "returns (bmap ip bn s) (\<lambda>r t. r = a \<and> ipost H (i_dev i) ip s i' D t)"
proof (cases "bn < NDIRECT")
  case True
  then have "returns (addr_slot ip bn s) (\<lambda>r t. r = a \<and> ipost H (i_dev i) ip s i' D t)"
    by (intro addr_slot_rule [OF i ok(1) _ mf]) (use sp ok in \<open>auto simp: bmap_spec_def\<close>)
  then show ?thesis using True by (simp add: bmap_def)
next
  case False
  then have k: "bn - NDIRECT < NINDIRECT" using bn by (simp add: MAXFILE_def)
  then have "returns (ind_map ip (bn - NDIRECT) s) (\<lambda>r t. r = a \<and> ipost H (i_dev i) ip s i' D t)"
    by (intro ind_map_rule [OF i ok mf]) (use sp bf False in \<open>auto simp: bmap_spec_def\<close>)
  then show ?thesis using False k by (simp add: bmap_def)
qed

lemma mbmap_rule:
  assumes i: "icache s ip = i" and ok: "bok H (i_dev i) s" "Suc (card H) < NBUF" and mf: "meta_free H (i_dev i) s"
    and bn: "bn + 2 < NDIRECT \<or> NDIRECT \<le> bn \<and> bn + 2 < MAXFILE" and m: "mbn \<le> 2"
    and sp: "mbmap_spec i (disk s (i_dev i)) bn mbn = Some (a, i', D)"
    and bf: "NDIRECT \<le> bn \<Longrightarrow> blk_free H (i_dev i) s (i_addrs i' NDIRECT)"
  shows "returns (mbmap ip bn mbn s) (\<lambda>r t. r = a \<and> ipost H (i_dev i) ip s i' D t)"
proof (cases "bn < NDIRECT")
  case True
  then obtain a0 i0 D0 where s0: "addr_slot_spec i (disk s (i_dev i)) bn = Some (a0, i0, D0)"
    and s1: "if mbn = 0 then (a, i', D) = (a0, i0, D0) else addr_slot_spec i0 D0 (bn + mbn) = Some (a, i', D)"
    using sp by (auto simp: mbmap_spec_def split: option.splits if_splits)
  note fr = addr_slot_spec_frame [OF s0]
  have r0: "returns (addr_slot ip bn s) (\<lambda>r t. r = a0 \<and> ipost H (i_dev i) ip s i0 D0 t)"
    by (rule addr_slot_rule [OF i ok(1) _ mf _ s0]) (use ok True in auto)
  have rest: "returns (addr_slot ip (bn + mbn) t) (\<lambda>r t. r = a \<and> ipost H (i_dev i) ip s i' D t)"
    if t: "ipost H (i_dev i) ip s i0 D0 t" and "0 < mbn" for t
  proof -
    note st = ipost_sel [OF t]
    have "returns (addr_slot ip (bn + mbn) t) (\<lambda>r u. r = a \<and> ipost H (i_dev i0) ip t i' D u)"
      by (rule addr_slot_rule [OF st(5)])
        (use st ok mf fr bn m s1 True that in \<open>auto simp: meta_free_def\<close>)
    then show ?thesis unfolding fr(1) by (rule returns_mono) (use ipost_trans [OF t] in auto)
  qed
  have eq: "mbmap ip bn mbn s = bindk (addr_slot ip bn) (\<lambda>addr. if mbn = 0 then ret addr else addr_slot ip (bn + mbn)) s"
    using True m by (auto simp: mbmap_def le_Suc_eq numeral_2_eq_2)
  show ?thesis unfolding eq
    by (rule returns_bindk, rule r0) (use s1 rest in \<open>auto intro: returns_ret\<close>)
next
  case False
  then have k: "bn - NDIRECT + mbn < NINDIRECT" "bn - NDIRECT < NINDIRECT" using bn m by (auto simp: MAXFILE_def)
  then have "returns (ind_map ip (bn - NDIRECT + mbn) s) (\<lambda>r t. r = a \<and> ipost H (i_dev i) ip s i' D t)"
    by (intro ind_map_rule [OF i ok mf]) (use sp bf False in \<open>auto simp: mbmap_spec_def\<close>)
  then show ?thesis using False k m by (simp add: mbmap_def)
qed

text \<open>Beyond what fits: the panic a large offset leads to, and the store past the indirect block.\<close>

lemma mbmap_out_of_range:
  assumes "MAXFILE \<le> bn" shows "mbmap ip bn mbn s = Panic ''bmap: out of range''"
proof -
  have "\<not> bn < NDIRECT" "\<not> bn - NDIRECT < NINDIRECT" using assms by (auto simp: MAXFILE_def NINDIRECT_def)
  then show ?thesis by (simp add: mbmap_def panic_def)
qed

lemma bmap_out_of_range:
  assumes "MAXFILE \<le> bn" shows "bmap ip bn s = Panic ''bmap: out of range''"
proof -
  have "\<not> bn < NDIRECT" "\<not> bn - NDIRECT < NINDIRECT" using assms by (auto simp: MAXFILE_def NINDIRECT_def)
  then show ?thesis by (simp add: bmap_def panic_def)
qed

end
