(* ===== verification/Console.thy ===== *)
theory Console
  imports Fs_Inode
begin

text \<open>
  The console driver (\<open>kernel/console.c\<close>): number and format printing, the text screen, and
  the line-edited input buffer shared between the keyboard interrupt and \<open>consoleread\<close>. The
  screen is the CGA memory and the cursor register, the serial port the list of bytes sent to it.
  The cursor register holds \<open>crtpos\<close>. After a panic on another CPU \<open>consputc\<close> never
  returns, which is the outcome \<open>Panic\<close>.
\<close>

definition INPUT_BUF :: nat where "INPUT_BUF = 128"
definition BACKSPACE :: int where "BACKSPACE = 0x100"
definition CONSOLE :: nat where "CONSOLE = 1"

record console = fs +
  panicked :: bool
  cons_locking :: bool
  crt :: "nat \<Rightarrow> u16"
  crtpos :: nat
  uart_out :: "u8 list"
  in_buf :: "nat \<Rightarrow> u8"
  in_r :: u32
  in_w :: u32
  in_e :: u32
  devsw :: "nat \<Rightarrow> bool"

lemma unlocked_console [simp]:
  "unlocked lk (s\<lparr>panicked := x0\<rparr>) = unlocked lk s"
  "unlocked lk (s\<lparr>cons_locking := x1\<rparr>) = unlocked lk s"
  "unlocked lk (s\<lparr>crt := x2\<rparr>) = unlocked lk s"
  "unlocked lk (s\<lparr>crtpos := x3\<rparr>) = unlocked lk s"
  "unlocked lk (s\<lparr>uart_out := x4\<rparr>) = unlocked lk s"
  "unlocked lk (s\<lparr>in_buf := x5\<rparr>) = unlocked lk s"
  "unlocked lk (s\<lparr>in_r := x6\<rparr>) = unlocked lk s"
  "unlocked lk (s\<lparr>in_w := x7\<rparr>) = unlocked lk s"
  "unlocked lk (s\<lparr>in_e := x8\<rparr>) = unlocked lk s"
  "unlocked lk (s\<lparr>devsw := x9\<rparr>) = unlocked lk s"
  by (simp_all add: unlocked_def)

lemma nolocks_console [simp]:
  "nolocks (s\<lparr>panicked := x0\<rparr>) = nolocks s"
  "nolocks (s\<lparr>cons_locking := x1\<rparr>) = nolocks s"
  "nolocks (s\<lparr>crt := x2\<rparr>) = nolocks s"
  "nolocks (s\<lparr>crtpos := x3\<rparr>) = nolocks s"
  "nolocks (s\<lparr>uart_out := x4\<rparr>) = nolocks s"
  "nolocks (s\<lparr>in_buf := x5\<rparr>) = nolocks s"
  "nolocks (s\<lparr>in_r := x6\<rparr>) = nolocks s"
  "nolocks (s\<lparr>in_w := x7\<rparr>) = nolocks s"
  "nolocks (s\<lparr>in_e := x8\<rparr>) = nolocks s"
  "nolocks (s\<lparr>devsw := x9\<rparr>) = nolocks s"
  by (simp_all add: nolocks_def)

section \<open>Printing\<close>

definition digit_char :: "nat \<Rightarrow> u8" where
  "digit_char k = of_nat (if k < 10 then 48 + k else 87 + k)"

text \<open>The digits in the order the loop of \<open>printint\<close> stores them, least significant first.\<close>

function digits_rev :: "nat \<Rightarrow> nat \<Rightarrow> u8 list" where
  "digits_rev base x =
     (if base < 2 then [digit_char 0]
      else digit_char (x mod base) # (if x div base = 0 then [] else digits_rev base (x div base)))"

  by pat_completeness auto
termination
  by (relation "measure snd") (auto intro!: div_less_dividend gr0I)

declare digits_rev.simps [simp del]

definition printint :: "u32 \<Rightarrow> nat \<Rightarrow> bool \<Rightarrow> u8 list" where
  "printint xx base sg =
     (let neg = sg \<and> sint xx < 0; x = (if neg then - xx else xx) in
      rev (digits_rev base (unat x) @ (if neg then [45] else [])))"

datatype parg = PInt u32 | PStr "u8 list option"

text \<open>
  The characters \<open>cprintf\<close> sends to \<open>consputc\<close>. A conversion without an argument reads past
  the caller's arguments, and one with an argument of the other kind misreads it (\<open>None\<close>).
\<close>

fun cprintf_chars :: "u8 list \<Rightarrow> parg list \<Rightarrow> u8 list option" where
  "cprintf_chars [] args = Some []"
| "cprintf_chars (c # fmt) args =
     (if c \<noteq> 37 then map_option (Cons c) (cprintf_chars fmt args)
      else
        (case fmt of [] \<Rightarrow> Some []
         | d # rest \<Rightarrow>
             if d = 100 then
               (case args of PInt x # as \<Rightarrow> map_option ((@) (printint x 10 True)) (cprintf_chars rest as)
                | _ \<Rightarrow> None)
             else if d = 120 \<or> d = 112 then
               (case args of PInt x # as \<Rightarrow> map_option ((@) (printint x 16 False)) (cprintf_chars rest as)
                | _ \<Rightarrow> None)
             else if d = 115 then
               (case args of
                  PStr (Some t) # as \<Rightarrow> map_option ((@) t) (cprintf_chars rest as)
                | PStr None # as \<Rightarrow> map_option ((@) [40, 110, 117, 108, 108, 41]) (cprintf_chars rest as)
                | _ \<Rightarrow> None)
             else if d = 37 then map_option (Cons 37) (cprintf_chars rest args)
             else map_option (\<lambda>t. 37 # d # t) (cprintf_chars rest args)))"

section \<open>The screen\<close>

definition cgaputc :: "int \<Rightarrow> ('z console_scheme, unit) km" where
  "cgaputc c = modk (\<lambda>s.
     let pos = crtpos s;
         (mem1, pos1) =
           (if c = 10 then (crt s, pos + (80 - pos mod 80))
            else if c = BACKSPACE then (crt s, if 0 < pos then pos - 1 else pos)
            else ((crt s)(pos := (word_of_int c AND 0xff) OR 0x0700), pos + 1));
         (mem2, pos2) =
           (if 24 \<le> pos1 div 80 then
              let up = (\<lambda>i. if i < 23 * 80 then mem1 (i + 80) else mem1 i); p = pos1 - 80 in
              (\<lambda>i. if p \<le> i \<and> i < 24 * 80 then 0 else up i, p)
            else (mem1, pos1))
     in s\<lparr>crt := mem2(pos2 := 0x0720), crtpos := pos2 mod 65536\<rparr>)"

definition uartputc :: "int \<Rightarrow> ('z console_scheme, unit) km" where
  "uartputc c = modk (\<lambda>s. s\<lparr>uart_out := uart_out s @ [word_of_int c]\<rparr>)"

definition consputc :: "int \<Rightarrow> ('z console_scheme, unit) km" where
  "consputc c =
     bindk (getk panicked) (\<lambda>p.
     if p then panic ''frozen''
     else
       bindk (if c = BACKSPACE then
             bindk (uartputc 8) (\<lambda>_.
             bindk (uartputc 32) (\<lambda>_.
             uartputc 8))
           else uartputc c) (\<lambda>_.
       cgaputc c))"

definition cprintf :: "u8 list \<Rightarrow> parg list \<Rightarrow> ('z console_scheme, unit) km" where
  "cprintf fmt args =
     bindk (getk cons_locking) (\<lambda>locking.
     bindk (whenk locking (acq LkCons)) (\<lambda>_.
     bindk (case cprintf_chars fmt args of None \<Rightarrow> undef ''cprintf: missing argument''
      | Some cs \<Rightarrow> foreach (\<lambda>c. consputc (uint c)) cs) (\<lambda>_.
     whenk locking (rel LkCons))))"

section \<open>Input\<close>

text \<open>The indices are 32-bit counters that wrap; a slot is a counter modulo \<open>INPUT_BUF\<close>.\<close>

definition slot :: "u32 \<Rightarrow> nat" where
  "slot i = unat i mod INPUT_BUF"

text \<open>The loop of control-U: at most \<open>e - w\<close> characters are erased.\<close>

primrec kill_line :: "nat \<Rightarrow> ('z console_scheme, unit) km" where
  "kill_line 0 = ret ()"
| "kill_line (Suc k) =
     bindk (getk id) (\<lambda>s.
     if in_e s \<noteq> in_w s \<and> in_buf s (slot (in_e s - 1)) \<noteq> 10 then
       bindk (modk (\<lambda>s. s\<lparr>in_e := in_e s - 1\<rparr>)) (\<lambda>_.
       bindk (consputc BACKSPACE) (\<lambda>_.
       kill_line k))
     else ret ())"

text \<open>
  One round of the loop of \<open>consoleintr\<close> for character \<open>c\<close>. Control-P lists the processes and
  leaves the input alone.
\<close>

definition cons_key :: "int \<Rightarrow> ('z console_scheme, unit) km" where
  "cons_key c =
     (if c = 16 then ret ()
      else if c = 21 then bindk (getk (\<lambda>s. unat (in_e s - in_w s))) kill_line
      else if c = 8 \<or> c = 127 then
        bindk (getk id) (\<lambda>s.
        whenk (in_e s \<noteq> in_w s)
          (bindk (modk (\<lambda>s. s\<lparr>in_e := in_e s - 1\<rparr>)) (\<lambda>_.
            consputc BACKSPACE)))
      else
        bindk (getk id) (\<lambda>s.
        whenk (c \<noteq> 0 \<and> unat (in_e s - in_r s) < INPUT_BUF)
          (let d = (if c = 13 then 10 else c) in
           bindk (modk (\<lambda>s. s\<lparr>in_buf := (in_buf s)(slot (in_e s) := word_of_int d), in_e := in_e s + 1\<rparr>)) (\<lambda>_.
           bindk (consputc d) (\<lambda>_.
           bindk (getk id) (\<lambda>s.
           whenk (d = 10 \<or> d = 4 \<or> in_e s = in_r s + 128)
             (bindk (modk (\<lambda>s. s\<lparr>in_w := in_e s\<rparr>)) (\<lambda>_.
               wakeup ChInput))))))))"

text \<open>\<open>consoleintr\<close>; \<open>keys\<close> are the characters \<open>getc\<close> returns before it returns -1.\<close>

definition consoleintr :: "int list \<Rightarrow> ('z console_scheme, unit) km" where
  "consoleintr keys =
     bindk (acq LkInput) (\<lambda>_.
     bindk (foreach cons_key (takeWhile (\<lambda>c. 0 \<le> c) keys)) (\<lambda>_.
     rel LkInput))"

text \<open>
  The loop of \<open>consoleread\<close> with \<open>n\<close> bytes still wanted of \<open>target\<close>: the bytes stored at
  \<open>dst\<close>, and whether the process was found killed while it waited.
\<close>

primrec consoleread_loop :: "nat \<Rightarrow> nat \<Rightarrow> ('z console_scheme, bool \<times> u8 list) km" where
  "consoleread_loop target 0 = ret (False, [])"
| "consoleread_loop target (Suc n) =
     bindk (getk id) (\<lambda>s.
     if in_r s = in_w s then
       bindk myslot (\<lambda>p.
       if p_killed p then ret (True, [])
       else
         bindk (sleep ChInput (Some LkInput)) (\<lambda>_.
         ret (True, [])))
     else
       (let c = in_buf s (slot (in_r s)) in
        bindk (modk (\<lambda>s. s\<lparr>in_r := in_r s + 1\<rparr>)) (\<lambda>_.
        if c = 4 then
          bindk (whenk (Suc n < target) (modk (\<lambda>s. s\<lparr>in_r := in_r s - 1\<rparr>))) (\<lambda>_.
          ret (False, []))
        else if c = 10 then ret (False, [c])
        else
          bindk (consoleread_loop target n) (\<lambda>r.
          ret (fst r, c # snd r)))))"

definition consoleread :: "nat \<Rightarrow> mem \<Rightarrow> nat \<Rightarrow> ('z console_scheme, int \<times> mem) km" where
  "consoleread ip dst n =
     bindk (iunlock (Some ip)) (\<lambda>_.
     bindk (acq LkInput) (\<lambda>_.
     bindk (consoleread_loop n n) (\<lambda>r.
     bindk (rel LkInput) (\<lambda>_.
     bindk (ilock (Some ip)) (\<lambda>_.
     ret (if fst r then - 1 else int (length (snd r)),
          \<lambda>i. if i < length (snd r) then snd r ! i else dst i))))))"

definition consolewrite :: "nat \<Rightarrow> mem \<Rightarrow> int \<Rightarrow> ('z console_scheme, int) km" where
  "consolewrite ip buf n =
     bindk (iunlock (Some ip)) (\<lambda>_.
     bindk (acq LkCons) (\<lambda>_.
     bindk (foreach (\<lambda>i. consputc (uint (buf i))) [0..<nat n]) (\<lambda>_.
     bindk (rel LkCons) (\<lambda>_.
     bindk (ilock (Some ip)) (\<lambda>_.
     ret n)))))"

definition consoleinit :: "('z console_scheme, unit) km" where
  "consoleinit =
     bindk (initlk LkCons) (\<lambda>_.
     bindk (initlk LkInput) (\<lambda>_.
     modk (\<lambda>s. s\<lparr>devsw := (devsw s)(CONSOLE := True), cons_locking := True\<rparr>)))"

end
