(* ===== verification/Fs_File.thy ===== *)
theory Fs_File
  imports Console
begin

text \<open>
  File contents, directories and path names: \<open>readi\<close> and \<open>writei\<close> with the handling of
  mirrored files, \<open>dirlookup\<close>, \<open>dirlink\<close> and the path walk of \<open>kernel/fs.c\<close>. The
  destination or source of a transfer is the memory seen from the caller's pointer.
\<close>

definition DIRSIZ :: nat where "DIRSIZ = 14"

section \<open>readi and writei\<close>

text \<open>\<open>memmove\<close> between two separate objects: \<open>m\<close> bytes of \<open>src\<close> from \<open>j\<close> to \<open>dst\<close> at \<open>i\<close>.\<close>

definition blit :: "mem \<Rightarrow> nat \<Rightarrow> mem \<Rightarrow> nat \<Rightarrow> nat \<Rightarrow> mem" where
  "blit dst i src j m = (\<lambda>k. if i \<le> k \<and> k < i + m then src (j + (k - i)) else dst k)"

text \<open>
  \<open>strncmp\<close> of two block buffers. With a count above the block size the comparison runs past
  the buffers unless it stops before.
\<close>

fun blk_strncmp :: "block \<Rightarrow> block \<Rightarrow> nat \<Rightarrow> nat \<Rightarrow> int option" where
  "blk_strncmp p q i 0 = Some 0"
| "blk_strncmp p q i (Suc n) =
     (if BSIZE \<le> i then None
      else if p i \<noteq> 0 \<and> p i = q i then blk_strncmp p q (Suc i) n
      else Some (uint (p i) - uint (q i)))"

definition diffk :: "nat \<Rightarrow> nat \<Rightarrow> nat \<Rightarrow> ('z console_scheme, bool) km" where
  "diffk b1 b2 n =
     bindk (data_of b1) (\<lambda>d1.
     bindk (data_of b2) (\<lambda>d2.
     case blk_strncmp d1 d2 0 n of None \<Rightarrow> undef ''strncmp past the block''
     | Some v \<Rightarrow> ret (v \<noteq> 0)))"

text \<open>\<open>memmove(bd->data + o, bs->data + o, m)\<close>.\<close>

definition copy_part :: "nat \<Rightarrow> nat \<Rightarrow> nat \<Rightarrow> nat \<Rightarrow> ('z console_scheme, unit) km" where
  "copy_part bd bs o1 m =
     bindk (data_of bs) (\<lambda>d.
     upd_data bd (\<lambda>e. blit e o1 d o1 m))"

text \<open>\<open>bread(ip->dev, mbmap(ip, offset, k))\<close>.\<close>

definition mread :: "nat \<Rightarrow> nat \<Rightarrow> nat \<Rightarrow> ('z console_scheme, nat) km" where
  "mread ip offset k =
     bindk (mbmap ip offset k) (\<lambda>addr.
     bindk (inode_of ip) (\<lambda>i.
     bread (i_dev i) addr))"

text \<open>
  The first part of a round of the mirrored loop of \<open>readi\<close>: the three copies of the block are
  read and locked, and \<open>dst\<close> receives the data of each in turn.
\<close>

definition readi_load :: "nat \<Rightarrow> nat \<Rightarrow> nat \<Rightarrow> nat \<Rightarrow> nat \<Rightarrow> mem \<Rightarrow> ('z console_scheme, nat \<times> nat \<times> nat \<times> mem) km" where
  "readi_load ip offset o1 m tot dst =
      bindk (mread ip offset 0) (\<lambda>bp.
      bindk (data_of bp) (\<lambda>d.
      bindk (ret (blit dst tot d o1 m)) (\<lambda>dst1.
      bindk (mbmap ip offset 0) (\<lambda>_.
      bindk (mbmap ip offset 1) (\<lambda>_.
      bindk (mbmap ip offset 2) (\<lambda>_.
      bindk (mread ip offset 1) (\<lambda>bp2.
      bindk (data_of bp2) (\<lambda>d2.
      bindk (ret (blit dst1 tot d2 o1 m)) (\<lambda>dst2.
      bindk (mread ip offset 2) (\<lambda>bp3.
      bindk (data_of bp3) (\<lambda>d3.
      ret (bp, bp2, bp3, blit dst2 tot d3 o1 m))))))))))))"

text \<open>
  The comparisons. \<open>fl\<close> are the flags \<open>diff12\<close>, \<open>diff13\<close> and \<open>diff23\<close>, which keep their
  values from earlier rounds.
\<close>

type_synonym diffs = "bool \<times> bool \<times> bool"

definition readi_diffs :: "nat \<Rightarrow> nat \<Rightarrow> nat \<Rightarrow> nat \<Rightarrow> diffs \<Rightarrow> ('z console_scheme, diffs) km" where
  "readi_diffs bp bp2 bp3 n fl =
      bindk (diffk bp bp2 n) (\<lambda>c12.
      bindk (diffk bp2 bp3 n) (\<lambda>c23.
      bindk (diffk bp bp3 n) (\<lambda>c13.
      ret (fst fl \<or> c12, fst (snd fl) \<or> c13, snd (snd fl) \<or> c23))))"

text \<open>
  The repair of one copy: the buffer of copy \<open>k\<close> is released and read again, and the part of the
  block that is being read copied into it from \<open>src\<close>. \<open>wr\<close> tells which buffer \<open>bwrite\<close> gets,
  given the one just read: for the third copy the code writes the buffer of the second.
\<close>

definition readi_repair :: "nat \<Rightarrow> nat \<Rightarrow> nat \<Rightarrow> nat \<Rightarrow> nat \<Rightarrow> nat \<Rightarrow> nat \<Rightarrow> (nat \<Rightarrow> nat) \<Rightarrow> ('z console_scheme, nat) km" where
  "readi_repair ip offset k bad src o1 m wr =
      bindk (brelse bad) (\<lambda>_.
      bindk (mread ip offset k) (\<lambda>b.
      bindk (copy_part b src o1 m) (\<lambda>_.
      bindk (bwrite (wr b)) (\<lambda>_.
      ret b))))"

text \<open>
  The end of a round: the copy that differs from two equal ones is repaired, the buffers are
  released. The result is whether the three copies all differ, the flags and \<open>dst\<close>.
\<close>

definition readi_settle :: "nat \<Rightarrow> nat \<Rightarrow> nat \<Rightarrow> nat \<Rightarrow> nat \<Rightarrow> nat \<Rightarrow> nat \<Rightarrow> diffs \<Rightarrow> mem
    \<Rightarrow> ('z console_scheme, bool \<times> diffs \<times> mem) km" where
  "readi_settle ip offset o1 m bp bp2 bp3 fl dst =
     (let (f12, f13, f23) = fl in
      bindk (if f12 \<and> f23 \<and> \<not> f13 then readi_repair ip offset 1 bp2 bp3 o1 m (\<lambda>b. b) else ret bp2) (\<lambda>bp2.
      bindk (if f13 \<and> f12 \<and> \<not> f23 then readi_repair ip offset 0 bp bp3 o1 m (\<lambda>b. b) else ret bp) (\<lambda>bp.
      bindk (if f23 \<and> f13 \<and> \<not> f12 then readi_repair ip offset 2 bp3 bp2 o1 m (\<lambda>_. bp2) else ret bp3) (\<lambda>bp3.
      if f12 \<and> f23 \<and> f13 then
        bindk (brelse bp) (\<lambda>_.
        bindk (brelse bp2) (\<lambda>_.
        bindk (brelse bp3) (\<lambda>_.
        ret (True, (False, False, False), dst))))
      else
        bindk (brelse bp2) (\<lambda>_.
        bindk (brelse bp) (\<lambda>_.
        bindk (brelse bp3) (\<lambda>_.
        ret (False, (f12, f13, f23), dst))))))))"

definition readi_mround :: "nat \<Rightarrow> nat \<Rightarrow> nat \<Rightarrow> nat \<Rightarrow> nat \<Rightarrow> diffs \<Rightarrow> mem
    \<Rightarrow> ('z console_scheme, bool \<times> diffs \<times> mem) km" where
  "readi_mround ip n tot off m fl dst =
     (let offset = off div BSIZE * 3; o1 = off mod BSIZE in
      bindk (readi_load ip offset o1 m tot dst) (\<lambda>(bp, bp2, bp3, dst').
      bindk (readi_diffs bp bp2 bp3 n fl) (\<lambda>fl'.
      readi_settle ip offset o1 m bp bp2 bp3 fl' dst')))"

text \<open>The number of bytes a round moves: \<open>min(n - tot, BSIZE - off%BSIZE)\<close>.\<close>

definition chunk :: "nat \<Rightarrow> nat \<Rightarrow> nat \<Rightarrow> nat" where
  "chunk n tot off = min (n - tot) (BSIZE - off mod BSIZE)"

lemma chunk_pos: "tot < n \<Longrightarrow> 0 < chunk n tot off"
  by (simp add: chunk_def BSIZE_def)

lemma chunk_less: "\<not> n \<le> tot \<Longrightarrow> n - (tot + chunk n tot off) < n - tot"
  using chunk_pos [of tot n off] by simp

function readi_mirrored :: "nat \<Rightarrow> nat \<Rightarrow> nat \<Rightarrow> nat \<Rightarrow> diffs \<Rightarrow> mem \<Rightarrow> ('z console_scheme, bool \<times> mem) km" where
  "readi_mirrored ip n tot off fl dst =
     (if n \<le> tot then ret (False, dst)
      else
        bindk (readi_mround ip n tot off (chunk n tot off) fl dst) (\<lambda>(bad, fl', dst').
        if bad then ret (True, dst')
        else readi_mirrored ip n (tot + chunk n tot off) (off + chunk n tot off) fl' dst'))"
  by pat_completeness auto
termination
  by (relation "measure (\<lambda>(ip, n, tot, off, fl, dst). n - tot)") (auto intro: chunk_less)

function readi_plain :: "nat \<Rightarrow> nat \<Rightarrow> nat \<Rightarrow> nat \<Rightarrow> mem \<Rightarrow> ('z console_scheme, mem) km" where
  "readi_plain ip n tot off dst =
     (if n \<le> tot then ret dst
      else
        bindk (bmap ip (off div BSIZE)) (\<lambda>addr.
        bindk (inode_of ip) (\<lambda>i.
        bindk (bread (i_dev i) addr) (\<lambda>bp.
        bindk (data_of bp) (\<lambda>d.
        bindk (brelse bp) (\<lambda>_.
        readi_plain ip n (tot + chunk n tot off) (off + chunk n tot off)
          (blit dst tot d (off mod BSIZE) (chunk n tot off))))))))"
  by pat_completeness auto
termination
  by (relation "measure (\<lambda>(ip, n, tot, off, dst). n - tot)") (auto intro: chunk_less)

declare readi_mirrored.simps [simp del] readi_plain.simps [simp del]

text \<open>\<open>ip->major\<close> selects a device with an installed driver.\<close>

definition dev_ok :: "u16 \<Rightarrow> (nat \<Rightarrow> bool) \<Rightarrow> bool" where
  "dev_ok mj sw = (\<not> sint mj < 0 \<and> \<not> sint mj \<ge> int NDEV \<and> sw (nat (sint mj)))"

definition readi :: "nat \<Rightarrow> mem \<Rightarrow> u32 \<Rightarrow> u32 \<Rightarrow> ('z console_scheme, int \<times> mem) km" where
  "readi ip dst off n =
     bindk (inode_of ip) (\<lambda>i.
     if i_type i = T_DEV then
       bindk (getk devsw) (\<lambda>sw.
       if \<not> dev_ok (i_major i) sw then ret (- 1, dst)
       else consoleread ip dst (nat (sint n)))
     else if i_size i < off \<or> off + n < off then ret (- 1, dst)
     else
       (let n1 = (if i_size i < off + n then i_size i - off else n) in
        if i_type i = T_MIRRORED then
          bindk (readi_mirrored ip (unat n1) 0 (unat off) (False, False, False) dst) (\<lambda>(bad, dst').
          ret (if bad then - 1 else sint n1, dst'))
        else
          bindk (readi_plain ip (unat n1) 0 (unat off) dst) (\<lambda>dst'.
          ret (sint n1, dst'))))"

text \<open>One copy of a block in the mirrored loop of \<open>writei\<close>.\<close>

definition mwrite :: "nat \<Rightarrow> nat \<Rightarrow> nat \<Rightarrow> nat \<Rightarrow> mem \<Rightarrow> nat \<Rightarrow> nat \<Rightarrow> ('z console_scheme, unit) km" where
  "mwrite ip offset k o1 src tot m =
     bindk (mread ip offset k) (\<lambda>bp.
     bindk (upd_data bp (\<lambda>d. blit d o1 src tot m)) (\<lambda>_.
     bindk (bwrite bp) (\<lambda>_.
     brelse bp)))"

function writei_mirrored :: "nat \<Rightarrow> nat \<Rightarrow> nat \<Rightarrow> nat \<Rightarrow> mem \<Rightarrow> ('z console_scheme, nat) km" where
  "writei_mirrored ip n tot off src =
     (if n \<le> tot then ret off
      else
        (let offset = off div BSIZE * 3; o1 = off mod BSIZE; m = chunk n tot off in
         bindk (mbmap ip offset 0) (\<lambda>_.
         bindk (mbmap ip offset 1) (\<lambda>_.
         bindk (mbmap ip offset 2) (\<lambda>_.
         bindk (mwrite ip offset 0 o1 src tot m) (\<lambda>_.
         bindk (mwrite ip offset 1 o1 src tot m) (\<lambda>_.
         bindk (mwrite ip offset 2 o1 src tot m) (\<lambda>_.
         writei_mirrored ip n (tot + m) (off + m) src))))))))"
  by pat_completeness auto
termination
  by (relation "measure (\<lambda>(ip, n, tot, off, src). n - tot)") (auto intro: chunk_less)

function writei_plain :: "nat \<Rightarrow> nat \<Rightarrow> nat \<Rightarrow> nat \<Rightarrow> mem \<Rightarrow> ('z console_scheme, nat) km" where
  "writei_plain ip n tot off src =
     (if n \<le> tot then ret off
      else
        bindk (bmap ip (off div BSIZE)) (\<lambda>addr.
        bindk (inode_of ip) (\<lambda>i.
        bindk (bread (i_dev i) addr) (\<lambda>bp.
        bindk (upd_data bp (\<lambda>d. blit d (off mod BSIZE) src tot (chunk n tot off))) (\<lambda>_.
        bindk (bwrite bp) (\<lambda>_.
        bindk (brelse bp) (\<lambda>_.
        writei_plain ip n (tot + chunk n tot off) (off + chunk n tot off) src)))))))"
  by pat_completeness auto
termination
  by (relation "measure (\<lambda>(ip, n, tot, off, src). n - tot)") (auto intro: chunk_less)

declare writei_mirrored.simps [simp del] writei_plain.simps [simp del]

text \<open>The end of \<open>writei\<close>: the inode is written back, and again when the file has grown to \<open>end1\<close>.\<close>

definition writei_end :: "nat \<Rightarrow> u32 \<Rightarrow> nat \<Rightarrow> ('z console_scheme, int) km" where
  "writei_end ip n end1 =
     bindk (iupdate ip) (\<lambda>_.
     bindk (inode_of ip) (\<lambda>i.
     bindk (whenk (0 < n \<and> i_size i < of_nat end1)
           (bindk (upd_inode ip (\<lambda>i. i\<lparr>i_size := of_nat end1\<rparr>)) (\<lambda>_. iupdate ip))) (\<lambda>_.
     ret (sint n))))"

definition writei :: "nat \<Rightarrow> mem \<Rightarrow> u32 \<Rightarrow> u32 \<Rightarrow> ('z console_scheme, int) km" where
  "writei ip src off n =
     bindk (inode_of ip) (\<lambda>i.
     if i_type i = T_DEV then
       bindk (getk devsw) (\<lambda>sw.
       if \<not> dev_ok (i_major i) sw then ret (- 1)
       else consolewrite ip src (sint n))
     else if i_size i < off \<or> off + n < off then ret (- 1)
     else
       (let n1 = (if of_nat (MAXFILE * BSIZE) < off + n then of_nat (MAXFILE * BSIZE) - off else n) in
        bindk (if i_type i = T_MIRRORED then writei_mirrored ip (unat n1) 0 (unat off) src
               else writei_plain ip (unat n1) 0 (unat off) src) (\<lambda>end1.
        writei_end ip n1 end1)))"

section \<open>Directories\<close>

definition namecmp :: "mem \<Rightarrow> mem \<Rightarrow> int" where
  "namecmp s t = strncmp s t DIRSIZ"

text \<open>
  The inner loop of \<open>dirlookup\<close>: the first entry of a directory block, of the 32 it holds, that
  is in use and has the given name.
\<close>

definition de_inum :: "block \<Rightarrow> nat \<Rightarrow> u16" where
  "de_inum d k = get16 d (16 * k)"

definition de_match :: "mem \<Rightarrow> block \<Rightarrow> nat \<Rightarrow> bool" where
  "de_match name d k = (de_inum d k \<noteq> 0 \<and> namecmp name (ptr d (16 * k + 2)) = 0)"

definition dirlookup_block :: "nat \<Rightarrow> mem \<Rightarrow> nat \<Rightarrow> ('z console_scheme, (nat \<times> nat) option) km" where
  "dirlookup_block dp name off =
     bindk (bmap dp (off div BSIZE)) (\<lambda>addr.
     bindk (inode_of dp) (\<lambda>i.
     bindk (bread (i_dev i) addr) (\<lambda>bp.
     bindk (data_of bp) (\<lambda>d.
     case find (de_match name d) [0..<32] of
       Some k \<Rightarrow>
         bindk (brelse bp) (\<lambda>_.
         bindk (iget (i_dev i) (ucast (de_inum d k))) (\<lambda>ip.
         ret (Some (ip, off + 16 * k))))
     | None \<Rightarrow>
         bindk (brelse bp) (\<lambda>_.
         ret None)))))"

text \<open>\<open>dirlookup\<close> returns the inode and the byte offset that \<open>*poff\<close> receives.\<close>

definition dirlookup :: "nat \<Rightarrow> mem \<Rightarrow> ('z console_scheme, (nat \<times> nat) option) km" where
  "dirlookup dp name =
     bindk (inode_of dp) (\<lambda>i.
     if i_type i \<noteq> T_DIR then panic ''dirlookup not DIR''
     else search (dirlookup_block dp name)
            (map (\<lambda>k. k * BSIZE) [0..<(unat (i_size i) + BSIZE - 1) div BSIZE]))"

definition dirent_image :: "mem \<Rightarrow> u16 \<Rightarrow> mem \<Rightarrow> mem" where
  "dirent_image de inum name = put16 (strncpy de 2 name DIRSIZ) 0 inum"

text \<open>
  The search of \<open>dirlink\<close> for a free entry: the offset at which the loop ends, and the
  contents it leaves in the local \<open>de\<close>.
\<close>

primrec free_dirent :: "nat \<Rightarrow> nat list \<Rightarrow> mem \<Rightarrow> nat \<Rightarrow> ('z console_scheme, nat \<times> mem) km" where
  "free_dirent dp [] de cur = ret (cur, de)"
| "free_dirent dp (off # offs) de cur =
     bindk (readi dp de (of_nat off) 16) (\<lambda>(r, de').
     if r \<noteq> 16 then panic ''dirlink read''
     else if get16 de' 0 = 0 then ret (off, de')
     else free_dirent dp offs de' (off + 16))"

definition dirlink :: "nat \<Rightarrow> mem \<Rightarrow> u32 \<Rightarrow> mem \<Rightarrow> ('z console_scheme, int) km" where
  "dirlink dp name inum stack =
     bindk (dirlookup dp name) (\<lambda>r.
     case r of
       Some (ip, _) \<Rightarrow>
         bindk (iput ip) (\<lambda>_.
         ret (- 1))
     | None \<Rightarrow>
         bindk (inode_of dp) (\<lambda>i.
         bindk (free_dirent dp (map (\<lambda>k. 16 * k) [0..<(unat (i_size i) + 15) div 16]) stack 0) (\<lambda>(off, de).
         bindk (writei dp (dirent_image de (ucast inum) name) (of_nat off) 16) (\<lambda>w.
         if w \<noteq> 16 then panic ''dirlink'' else ret 0))))"

section \<open>Paths\<close>

text \<open>
  A path is the list of its bytes before the NUL. \<open>skipelem\<close> returns the rest of the path and
  the element, cut to \<open>DIRSIZ\<close> bytes, as it stores it at \<open>name\<close>; \<open>old\<close> is what \<open>name\<close> held.
\<close>

definition store_name :: "mem \<Rightarrow> u8 list \<Rightarrow> mem" where
  "store_name old el =
     (\<lambda>i. if i < min (length el) DIRSIZ then el ! i
          else if i = length el \<and> length el < DIRSIZ then 0 else old i)"

definition skipelem :: "u8 list \<Rightarrow> (u8 list \<times> u8 list) option" where
  "skipelem path =
     (let p = dropWhile (\<lambda>c. c = 47) path in
      if p = [] then None
      else Some (dropWhile (\<lambda>c. c = 47) (dropWhile (\<lambda>c. c \<noteq> 47) p), takeWhile (\<lambda>c. c \<noteq> 47) p))"

lemma skipelem_shorter: "skipelem path = Some (rest, el) \<Longrightarrow> length rest < length path"
proof -
  assume a: "skipelem path = Some (rest, el)"
  let ?p = "dropWhile (\<lambda>c. c = 47) path"
  have ne: "?p \<noteq> []" using a by (auto simp: skipelem_def Let_def split: if_splits)
  then have "hd ?p \<noteq> 47" by (rule hd_dropWhile)
  then have "length (dropWhile (\<lambda>c. c \<noteq> 47) ?p) < length ?p"
    using ne by (cases ?p) (auto simp: le_imp_less_Suc length_dropWhile_le)
  moreover have "length rest \<le> length (dropWhile (\<lambda>c. c \<noteq> 47) ?p)"
    using a by (auto simp: skipelem_def Let_def length_dropWhile_le split: if_splits)
  ultimately show ?thesis using length_dropWhile_le [of "\<lambda>c. c = 47" path] by linarith
qed

function namex_loop :: "nat \<Rightarrow> u8 list \<Rightarrow> bool \<Rightarrow> mem \<Rightarrow> ('z console_scheme, nat option \<times> mem) km" where
  "namex_loop ip path nameiparent name =
     (case skipelem path of
        None \<Rightarrow>
          if nameiparent then
            bindk (iput ip) (\<lambda>_.
            ret (None, name))
          else ret (Some ip, name)
      | Some (rest, el) \<Rightarrow>
          (let name' = store_name name el in
           bindk (ilock (Some ip)) (\<lambda>_.
           bindk (inode_of ip) (\<lambda>i.
           if i_type i \<noteq> T_DIR then
             bindk (iunlockput (Some ip)) (\<lambda>_.
             ret (None, name'))
           else if nameiparent \<and> rest = [] then
             bindk (iunlock (Some ip)) (\<lambda>_.
             ret (Some ip, name'))
           else
             bindk (dirlookup ip name') (\<lambda>r.
             bindk (iunlockput (Some ip)) (\<lambda>_.
             case r of None \<Rightarrow> ret (None, name')
             | Some (next, _) \<Rightarrow> namex_loop next rest nameiparent name'))))))"
  by pat_completeness auto
termination
  by (relation "measure (\<lambda>(ip, path, np, name). length path)") (auto dest: skipelem_shorter)

declare namex_loop.simps [simp del]

definition namex :: "u8 list \<Rightarrow> bool \<Rightarrow> mem \<Rightarrow> ('z console_scheme, nat option \<times> mem) km" where
  "namex path nameiparent name =
     bindk (if path \<noteq> [] \<and> hd path = 47 then iget ROOTDEV ROOTINO
              else
                bindk myslot (\<lambda>p.
                case p_cwd p of None \<Rightarrow> undef ''null cwd'' | Some c \<Rightarrow> idup c)) (\<lambda>ip.
     namex_loop ip path nameiparent name)"

definition namei :: "u8 list \<Rightarrow> ('z console_scheme, nat option) km" where
  "namei path = bindk (namex path False (\<lambda>_. 0)) (\<lambda>r. ret (fst r))"

definition nameiparent :: "u8 list \<Rightarrow> mem \<Rightarrow> ('z console_scheme, nat option \<times> mem) km" where
  "nameiparent path name = namex path True name"

end
