(* ===== verification/Contents.thy ===== *)
theory Contents
  imports Fs_File
begin

text \<open>
  File contents on disk. First the contract of working with several locked blocks at once, then the
  slots of an inode as a function of inode and disk, the contents of a plain file, and the three
  copies of a block of a mirrored file, with what \<open>readi\<close> and \<open>writei\<close> do to them.
\<close>

section \<open>Several locked blocks\<close>

text \<open>
  \<open>locks_all dev M s t\<close>: since \<open>s\<close> the buffers in the domain of \<open>M\<close> were locked; \<open>M b\<close> is the
  number of the block in \<open>b\<close> and what the buffer contains.
\<close>

definition locks_all :: "u32 \<Rightarrow> (nat \<rightharpoonup> u32 \<times> block) \<Rightarrow> 'z bio_scheme \<Rightarrow> 'z bio_scheme \<Rightarrow> bool" where
  "locks_all dev M s t \<longleftrightarrow> bok (dom M) dev t \<and> bframe {} s t \<and>
     (\<forall>b n x. M b = Some (n, x) \<longrightarrow> bufs t b = holds True dev n x)"

lemma locks_bok: "locks_all dev M s t \<Longrightarrow> bok (dom M) dev t"
  by (simp add: locks_all_def)

lemma locks_empty: "bok {} dev s \<Longrightarrow> locks_all dev Map.empty s s"
  by (simp add: locks_all_def)

lemma locks_icache: "locks_all dev M s t \<Longrightarrow> icache t = icache s"
  unfolding locks_all_def by (blast dest: bframe_icache)

lemma locks_held: "locks_all dev M s t \<Longrightarrow> held (dom M) t = (\<lambda>p. (dev, fst p)) ` ran M"
proof -
  assume h: "locks_all dev M s t"
  then have "(b_dev (bufs t b), b_sector (bufs t b)) = (dev, fst p)" if "M b = Some p" for b p
    using that by (cases p) (auto simp: locks_all_def)
  then show ?thesis unfolding held_def by (force simp: dom_def ran_def image_iff)
qed

lemma locks_read:
  assumes h: "locks_all dev M s t" and free: "\<forall>b x. M b \<noteq> Some (n, x)" and room: "card (dom M) < NBUF"
  shows "returns (bread dev n t) (\<lambda>b u. M b = None \<and> locks_all dev (M(b \<mapsto> (n, disk t dev n))) s u \<and> disk u = disk t)"
proof (rule returns_mono [OF bread_rule [OF locks_bok [OF h] _ room]])
  show "(dev, n) \<notin> held (dom M) t" unfolding locks_held [OF h] using free by (auto simp: ran_def)
  fix b u
  assume b: "b \<notin> dom M \<and> b < NBUF \<and> bframe (dom M) t u \<and> bok (insert b (dom M)) dev u \<and>
    bufs u b = holds True dev n (disk t dev n) \<and> disk u = disk t"
  have "bufs u c = holds True dev m x" if "M c = Some (m, x)" for c m x
    using that h b bframe_bufs [of "dom M" t u c] by (auto simp: locks_all_def)
  moreover have "bframe {} s u" using h b by (auto simp: locks_all_def intro: bframe_trans bframe_mono)
  ultimately show "M b = None \<and> locks_all dev (M(b \<mapsto> (n, disk t dev n))) s u \<and> disk u = disk t"
    using b by (auto simp: locks_all_def)
qed

lemma locks_data: "locks_all dev M s t \<Longrightarrow> M b = Some (n, x) \<Longrightarrow> data_of b t = Done x t"
  by (auto simp: data_of_eq locks_all_def)

lemma locks_upd:
  assumes h: "locks_all dev M s t" and b: "M b = Some (n, x)"
  shows "returns (upd_data b f t) (\<lambda>_ u. locks_all dev (M(b \<mapsto> (n, f x))) s u \<and> disk u = disk t)"
proof (rule returns_mono [OF upd_data_rule [OF locks_bok [OF h], of b dev n x]])
  show "b \<in> dom M" "bufs t b = holds True dev n x" using h b by (auto simp: locks_all_def)
  fix r u
  assume u: "bok (dom M) dev u \<and> bframe (dom M - {b}) t u \<and> bufs u b = holds True dev n (f x) \<and> disk u = disk t"
  have "bufs u c = holds True dev m y" if "M c = Some (m, y)" "c \<noteq> b" for c m y
    using that h u bframe_bufs [of "dom M - {b}" t u c] by (auto simp: locks_all_def)
  moreover have "bframe {} s u" using h u by (auto simp: locks_all_def intro: bframe_trans bframe_mono)
  moreover have "dom (M(b \<mapsto> (n, f x))) = dom M" using b by auto
  ultimately show "locks_all dev (M(b \<mapsto> (n, f x))) s u \<and> disk u = disk t"
    using u by (auto simp: locks_all_def)
qed

lemma locks_bpost:
  assumes h: "locks_all dev M s t" and p: "bpost (dom M) dev t D u"
  shows "locks_all dev M s u"
proof -
  have "bufs u c = holds True dev m y" if "M c = Some (m, y)" for c m y
    using that h p bframe_bufs [of "dom M" t u c] by (auto simp: locks_all_def bpost_def)
  then show ?thesis using h p by (auto simp: locks_all_def bpost_def intro: bframe_trans bframe_mono)
qed

lemma locks_write:
  assumes h: "locks_all dev M s t" and b: "M b = Some (n, x)"
  shows "returns (bwrite b t) (\<lambda>_ u. locks_all dev M s u \<and> disk u = (disk t)(dev := (disk t dev)(n := x)))"
proof (rule returns_mono [OF bwrite_rule [OF locks_bok [OF h], of b n x]])
  show "b \<in> dom M" "bufs t b = holds True dev n x" using h b by (auto simp: locks_all_def)
  fix r u
  assume u: "bok (dom M) dev u \<and> bframe (dom M) t u \<and> disk u = (disk t)(dev := (disk t dev)(n := x))"
  then show "locks_all dev M s u \<and> disk u = (disk t)(dev := (disk t dev)(n := x))"
    using locks_bpost [OF h, of "(disk t dev)(n := x)" u] by (auto simp: bpost_def)
qed

lemma locks_release:
  assumes h: "locks_all dev M s t" and b: "M b = Some (n, disk t dev n)"
  shows "returns (brelse b t) (\<lambda>_ u. locks_all dev (M(b := None)) s u \<and> disk u = disk t)"
proof (rule returns_mono [OF brelse_rule [of b "dom M - {b}" dev t dev n]])
  show "bok (insert b (dom M - {b})) dev t" using locks_bok [OF h] b by (simp add: insert_absorb domI)
  show "bufs t b = holds True dev n (disk t dev n)" using h b by (auto simp: locks_all_def)
  fix r u
  assume u: "bok (dom M - {b}) dev u \<and> bframe (dom M - {b}) t u \<and> disk u = disk t"
  have "bufs u c = holds True dev m y" if "M c = Some (m, y)" "c \<noteq> b" for c m y
    using that h u bframe_bufs [of "dom M - {b}" t u c] by (auto simp: locks_all_def)
  then show "locks_all dev (M(b := None)) s u \<and> disk u = disk t"
    using h u by (auto simp: locks_all_def intro: bframe_trans bframe_mono)
qed simp

text \<open>The same rules for a routine that goes on with \<open>k\<close>.\<close>

lemma then_read:
  assumes "locks_all dev M s t" and "\<forall>b x. M b \<noteq> Some (n, x)" and "card (dom M) < NBUF"
    and "\<And>b u. M b = None \<Longrightarrow> locks_all dev (M(b \<mapsto> (n, disk t dev n))) s u \<Longrightarrow> disk u = disk t \<Longrightarrow> returns (k b u) Q"
  shows "returns (bindk (bread dev n) k t) Q"
  by (rule returns_bindk, rule locks_read [OF assms(1-3)]) (use assms(4) in blast)

lemma then_data:
  assumes "locks_all dev M s t" and "M b = Some (n, x)" and "returns (k x t) Q"
  shows "returns (bindk (data_of b) k t) Q"
  using assms(3) by (simp add: bindk_def locks_data [OF assms(1,2)])

lemma then_upd:
  assumes "locks_all dev M s t" and "M b = Some (n, x)"
    and "\<And>u. locks_all dev (M(b \<mapsto> (n, f x))) s u \<Longrightarrow> disk u = disk t \<Longrightarrow> returns (k () u) Q"
  shows "returns (bindk (upd_data b f) k t) Q"
  by (rule returns_bindk, rule locks_upd [OF assms(1,2)]) (use assms(3) in auto)

lemma then_write:
  assumes "locks_all dev M s t" and "M b = Some (n, x)"
    and "\<And>u. locks_all dev M s u \<Longrightarrow> disk u = (disk t)(dev := (disk t dev)(n := x)) \<Longrightarrow> returns (k () u) Q"
  shows "returns (bindk (bwrite b) k t) Q"
  by (rule returns_bindk, rule locks_write [OF assms(1,2)]) (use assms(3) in auto)

lemma then_release:
  assumes "locks_all dev M s t" and "M b = Some (n, disk t dev n)"
    and "\<And>u. locks_all dev (M(b := None)) s u \<Longrightarrow> disk u = disk t \<Longrightarrow> returns (k () u) Q"
  shows "returns (bindk (brelse b) k t) Q"
  by (rule returns_bindk, rule locks_release [OF assms(1,2)]) (use assms(3) in auto)

section \<open>The slots of an inode\<close>

text \<open>The block that slot \<open>j\<close> of a file refers to: a direct one or an entry of the indirect block.\<close>

definition addr_of :: "inode \<Rightarrow> (u32 \<Rightarrow> block) \<Rightarrow> nat \<Rightarrow> u32" where
  "addr_of i D j =
     (if j < NDIRECT then i_addrs i j else get32 (D (i_addrs i NDIRECT)) (4 * (j - NDIRECT)))"

definition meta :: "(u32 \<Rightarrow> block) \<Rightarrow> u32 set" where
  "meta D = insert 1 (bitmap_blocks D)"

text \<open>Slot \<open>j\<close> is allocated, to a block that is neither the super block, nor of the bitmap, nor the indirect block.\<close>

definition mapped :: "inode \<Rightarrow> (u32 \<Rightarrow> block) \<Rightarrow> nat \<Rightarrow> bool" where
  "mapped i D j \<longleftrightarrow> j < MAXFILE \<and> addr_of i D j \<noteq> 0 \<and> addr_of i D j \<notin> meta D \<and>
     (NDIRECT \<le> j \<longrightarrow> i_addrs i NDIRECT \<noteq> 0 \<and> i_addrs i NDIRECT \<notin> meta D) \<and> addr_of i D j \<noteq> i_addrs i NDIRECT"

text \<open>The locked blocks are data blocks of the file.\<close>

definition data_only :: "inode \<Rightarrow> (u32 \<Rightarrow> block) \<Rightarrow> (nat \<rightharpoonup> u32 \<times> block) \<Rightarrow> bool" where
  "data_only i D M \<longleftrightarrow> (\<forall>b n x. M b = Some (n, x) \<longrightarrow> n \<notin> meta D \<and> n \<noteq> i_addrs i NDIRECT)"

lemma data_only_empty [simp]: "data_only i D Map.empty"
  by (simp add: data_only_def)

lemma data_only_upd: "data_only i D M \<Longrightarrow> mapped i D j \<Longrightarrow> addr_of i D j = n \<Longrightarrow> data_only i D (M(b \<mapsto> (n, x)))"
  by (auto simp: data_only_def mapped_def)

lemma data_only_del: "data_only i D M \<Longrightarrow> data_only i D (M(b := None))"
  by (auto simp: data_only_def)

lemma meta_upd: "n \<notin> meta D \<Longrightarrow> meta (D(n := x)) = meta D"
  by (auto simp: meta_def bitmap_blocks_def sb_of_def)

lemma addr_of_upd: "n \<noteq> i_addrs i NDIRECT \<Longrightarrow> addr_of i (D(n := x)) j = addr_of i D j"
  by (simp add: addr_of_def)

lemma mapped_upd:
  "n \<notin> meta D \<Longrightarrow> n \<noteq> i_addrs i NDIRECT \<Longrightarrow> mapped i (D(n := x)) j = mapped i D j"
  by (simp add: mapped_def addr_of_upd meta_upd)

lemma data_only_disk:
  "n \<notin> meta D \<Longrightarrow> data_only i (D(n := x)) M = data_only i D M"
  by (simp add: data_only_def meta_upd)

lemma locks_meta_free:
  assumes h: "locks_all dev M s t" and d: "data_only i (disk t dev) M"
  shows "meta_free (dom M) dev t"
proof -
  have "n \<notin> meta (disk t dev)" if "(dev, n) \<in> held (dom M) t" for n
  proof -
    from that obtain b x where "M b = Some (n, x)" unfolding locks_held [OF h] by (auto simp: ran_def)
    then show ?thesis using d by (auto simp: data_only_def)
  qed
  then show ?thesis by (auto simp: meta_free_def meta_def)
qed

lemma locks_ind_free:
  assumes h: "locks_all dev M s t" and d: "data_only i (disk t dev) M" and m: "mapped i (disk t dev) j" "NDIRECT \<le> j"
  shows "blk_free (dom M) dev t (i_addrs i NDIRECT)"
proof -
  have "(dev, i_addrs i NDIRECT) \<notin> held (dom M) t"
    unfolding locks_held [OF h] using d by (fastforce simp: data_only_def ran_def)
  then show ?thesis using m by (auto simp: blk_free_def mapped_def meta_def)
qed

lemma bmap_spec_mapped: "mapped i D j \<Longrightarrow> bmap_spec i D j = Some (addr_of i D j, i, D)"
  by (auto simp: bmap_spec_def mapped_def addr_of_def addr_slot_spec_def ind_map_spec_def ind_slot_spec_def)

lemma mbmap_spec_mapped:
  assumes "mapped i D bn" and "mapped i D (bn + k)" and "bn + 2 < NDIRECT \<or> NDIRECT \<le> bn" and "k \<le> 2"
  shows "mbmap_spec i D bn k = Some (addr_of i D (bn + k), i, D)"
proof (cases "bn < NDIRECT")
  case True
  then have "bn + k < NDIRECT" using assms by linarith
  then show ?thesis using assms True by (auto simp: mbmap_spec_def mapped_def addr_of_def addr_slot_spec_def)
next
  case False
  then have "bn + k - NDIRECT = bn - NDIRECT + k" by simp
  then show ?thesis using assms False
    by (auto simp: mbmap_spec_def mapped_def addr_of_def addr_slot_spec_def ind_map_spec_def ind_slot_spec_def)
qed

lemma locks_ipost:
  assumes h: "locks_all dev M s t" and i: "icache s ip = i" and p: "ipost (dom M) dev ip t i (disk t dev) u"
  shows "locks_all dev M s u \<and> disk u = disk t"
proof -
  have "t\<lparr>icache := (icache t)(ip := i)\<rparr> = t" using locks_icache [OF h] i by (intro fs.equality) auto
  then have "bpost (dom M) dev t (disk t dev) u" using p by (simp add: ipost_def)
  then show ?thesis using locks_bpost [OF h, of "disk t dev" u] by (simp add: bpost_def)
qed

lemma locks_bmap:
  assumes h: "locks_all dev M s t" and i: "icache s ip = i" "i_dev i = dev" and d: "data_only i (disk t dev) M"
    and m: "mapped i (disk t dev) j" and room: "Suc (card (dom M)) < NBUF"
  shows "returns (bmap ip j t) (\<lambda>r u. r = addr_of i (disk t dev) j \<and> locks_all dev M s u \<and> disk u = disk t)"
proof (rule returns_mono)
  show "returns (bmap ip j t) (\<lambda>r u. r = addr_of i (disk t dev) j \<and> ipost (dom M) (i_dev i) ip t i (disk t dev) u)"
    by (rule bmap_rule)
      (use h i m room locks_icache [OF h] locks_bok [OF h] locks_meta_free [OF h d] locks_ind_free [OF h d m]
        in \<open>auto simp: bmap_spec_mapped mapped_def\<close>)
qed (use locks_ipost [OF h i(1)] i in auto)

lemma locks_mbmap:
  assumes h: "locks_all dev M s t" and i: "icache s ip = i" "i_dev i = dev" and d: "data_only i (disk t dev) M"
    and m: "mapped i (disk t dev) bn" "mapped i (disk t dev) (bn + 2)" "mapped i (disk t dev) (bn + k)"
    and r: "bn + 2 < NDIRECT \<or> NDIRECT \<le> bn" "k \<le> 2" and room: "Suc (card (dom M)) < NBUF"
  shows "returns (mbmap ip bn k t) (\<lambda>r u. r = addr_of i (disk t dev) (bn + k) \<and> locks_all dev M s u \<and> disk u = disk t)"
proof (rule returns_mono)
  show "returns (mbmap ip bn k t) (\<lambda>r u. r = addr_of i (disk t dev) (bn + k) \<and>
      ipost (dom M) (i_dev i) ip t i (disk t dev) u)"
    by (rule mbmap_rule)
      (use h i m r room locks_icache [OF h] locks_bok [OF h] locks_meta_free [OF h d] locks_ind_free [OF h d m(1)]
        in \<open>auto simp: mbmap_spec_mapped mapped_def\<close>)
qed (use locks_ipost [OF h i(1)] i in auto)

section \<open>The bytes of a plain file\<close>

definition file_byte :: "inode \<Rightarrow> (u32 \<Rightarrow> block) \<Rightarrow> nat \<Rightarrow> u8" where
  "file_byte i D x = D (addr_of i D (x div BSIZE)) (x mod BSIZE)"

definition range_mapped :: "inode \<Rightarrow> (u32 \<Rightarrow> block) \<Rightarrow> nat \<Rightarrow> nat \<Rightarrow> bool" where
  "range_mapped i D off m \<longleftrightarrow> (\<forall>x. off \<le> x \<and> x < off + m \<longrightarrow> mapped i D (x div BSIZE))"

lemma chunk_div:
  assumes "e < chunk n tot off"
  shows "(off + e) div BSIZE = off div BSIZE" and "(off + e) mod BSIZE = off mod BSIZE + e"
proof -
  have e: "off mod BSIZE + e < BSIZE" using assms by (auto simp: chunk_def)
  have "off + e = off div BSIZE * BSIZE + (off mod BSIZE + e)" by simp
  then show "(off + e) div BSIZE = off div BSIZE" "(off + e) mod BSIZE = off mod BSIZE + e"
    using e by (metis div_mult_self3 add.right_neutral div_less BSIZE_def zero_neq_numeral, metis mod_mult_self3 mod_less)
qed

lemma chunk_le: "tot \<le> n \<Longrightarrow> tot + chunk n tot off \<le> n"
  by (simp add: chunk_def)

lemma range_mapped_first: "range_mapped i D off (n - tot) \<Longrightarrow> tot < n \<Longrightarrow> mapped i D (off div BSIZE)"
  by (auto simp: range_mapped_def)

lemma range_mapped_rest:
  "range_mapped i D off (n - tot) \<Longrightarrow> range_mapped i D (off + chunk n tot off) (n - (tot + chunk n tot off))"
  by (auto simp: range_mapped_def)

text \<open>\<open>bmap\<close> followed by \<open>bread\<close> of the mapped block, with no other block locked.\<close>

lemma map_and_read:
  assumes h: "locks_all dev Map.empty s t" and i: "icache s ip = i" "i_dev i = dev" and m: "mapped i (disk t dev) j"
    and k: "\<And>b u. locks_all dev [b \<mapsto> (addr_of i (disk t dev) j, disk t dev (addr_of i (disk t dev) j))] s u \<Longrightarrow>
      disk u = disk t \<Longrightarrow> returns (k i b u) Q"
  shows "returns (bindk (bmap ip j) (\<lambda>addr. bindk (inode_of ip) (\<lambda>i. bindk (bread (i_dev i) addr) (k i))) t) Q"
proof (rule returns_bindk, rule locks_bmap [OF h i _ m])
  fix a u assume a: "a = addr_of i (disk t dev) j \<and> locks_all dev Map.empty s u \<and> disk u = disk t"
  then have u: "locks_all dev Map.empty s u" "disk u = disk t" by auto
  have ic: "icache u ip = i" using locks_icache [OF u(1)] i by simp
  show "returns (bindk (inode_of ip) (\<lambda>i. bindk (bread (i_dev i) a) (k i)) u) Q"
    unfolding bindk_Done [OF inode_of_eq] ic i(2)
    by (rule returns_bindk, rule locks_read [OF u(1)]) (use a k u in \<open>auto simp: NBUF_def\<close>)
qed (simp_all add: NBUF_def)

lemma readi_plain_rule:
  assumes "locks_all dev Map.empty s t" and "icache s ip = i" and "i_dev i = dev"
    and "range_mapped i (disk t dev) off (n - tot)" and "tot \<le> n"
  shows "returns (readi_plain ip n tot off dst t) (\<lambda>r u.
    r = (\<lambda>k. if tot \<le> k \<and> k < n then file_byte i (disk t dev) (off + (k - tot)) else dst k) \<and>
    locks_all dev Map.empty s u \<and> disk u = disk t)"
  using assms
proof (induction ip n tot off dst arbitrary: t rule: readi_plain.induct)
  case (1 ip n tot off dst)
  let ?D = "disk t dev" and ?m = "chunk n tot off"
  let ?a = "addr_of i ?D (off div BSIZE)"
  let ?F = "\<lambda>k. if tot \<le> k \<and> k < n then file_byte i ?D (off + (k - tot)) else dst k"
  show ?case
  proof (cases "n \<le> tot")
    case True
    then have "?F = dst" by (intro ext) auto
    then show ?thesis using 1 True by (simp add: readi_plain.simps returns_ret)
  next
    case False
    let ?dst = "blit dst tot (?D ?a) (off mod BSIZE) ?m"
    have m: "mapped i ?D (off div BSIZE)" using 1 False by (intro range_mapped_first) auto
    have eq: "(\<lambda>k. if tot + ?m \<le> k \<and> k < n then file_byte i ?D (off + ?m + (k - (tot + ?m))) else ?dst k) = ?F"
    proof
      fix k
      have "?dst k = ?F k" if "tot \<le> k" "k < tot + ?m"
      proof -
        have "k - tot < ?m" using that by simp
        from chunk_div [OF this] show ?thesis
          using that 1 chunk_le [of tot n off] by (simp add: blit_def file_byte_def)
      qed
      then show "(if tot + ?m \<le> k \<and> k < n then file_byte i ?D (off + ?m + (k - (tot + ?m))) else ?dst k) = ?F k"
        by (auto simp: blit_def add.commute add.left_commute)
    qed
    have next_: "returns (readi_plain ip n (tot + ?m) (off + ?m) ?dst v)
        (\<lambda>r u. r = ?F \<and> locks_all dev Map.empty s u \<and> disk u = disk t)"
      if v: "locks_all dev Map.empty s v" "disk v = disk t" for v
    proof -
      have "returns (readi_plain ip n (tot + ?m) (off + ?m) ?dst v) (\<lambda>r u. r = (\<lambda>k. if tot + ?m \<le> k \<and> k < n
          then file_byte i (disk v dev) (off + ?m + (k - (tot + ?m))) else ?dst k) \<and>
          locks_all dev Map.empty s u \<and> disk u = disk v)"
        by (rule "1.IH" [OF False]) (use 1 v chunk_le [of tot n off] range_mapped_rest [of i ?D off n tot] in simp_all)
      then show ?thesis unfolding v(2) eq .
    qed
    show ?thesis
    proof (subst readi_plain.simps, subst if_not_P [OF False], rule map_and_read [OF 1(2-4) m])
      fix b u assume u: "locks_all dev [b \<mapsto> (?a, ?D ?a)] s u" "disk u = disk t"
      have "data_of b u = Done (?D ?a) u" by (rule locks_data [OF u(1)]) simp
      then show "returns (bindk (data_of b) (\<lambda>d. bindk (brelse b) (\<lambda>_. readi_plain ip n (tot + ?m) (off + ?m)
          (blit dst tot d (off mod BSIZE) ?m))) u) (\<lambda>r u. r = ?F \<and> locks_all dev Map.empty s u \<and> disk u = disk t)"
        by (simp add: bindk_Done) (rule returns_bindk, rule locks_release [OF u(1)], use u next_ in auto)
    qed
  qed
qed

text \<open>
  \<open>wrote i D D' off m src tot\<close>: between the contents \<open>D\<close> and \<open>D'\<close> of the device the \<open>m\<close> bytes
  of the file from \<open>off\<close> on became those of \<open>src\<close> from \<open>tot\<close> on; no slot and no other byte of
  an allocated block of the file changed, and no block outside the file.
\<close>

definition wrote :: "inode \<Rightarrow> (u32 \<Rightarrow> block) \<Rightarrow> (u32 \<Rightarrow> block) \<Rightarrow> nat \<Rightarrow> nat \<Rightarrow> mem \<Rightarrow> nat \<Rightarrow> bool" where
  "wrote i D D' off m src tot \<longleftrightarrow> meta D' = meta D \<and> addr_of i D' = addr_of i D \<and>
     (\<forall>x. mapped i D (x div BSIZE) \<longrightarrow>
        file_byte i D' x = (if off \<le> x \<and> x < off + m then src (tot + (x - off)) else file_byte i D x)) \<and>
     (\<forall>b. b \<notin> addr_of i D ` {j. mapped i D j} \<longrightarrow> D' b = D b)"

lemma wrote_mapped: "wrote i D D' off m src tot \<Longrightarrow> mapped i D' j = mapped i D j"
  by (simp add: wrote_def mapped_def)

lemma wrote_inj:
  "wrote i D D' off m src tot \<Longrightarrow> inj_on (addr_of i D') {j. mapped i D' j} = inj_on (addr_of i D) {j. mapped i D j}"
  by (simp add: wrote_mapped) (simp add: wrote_def)

lemma wrote_range: "wrote i D D' off m src tot \<Longrightarrow> range_mapped i D' x k = range_mapped i D x k"
  by (simp add: range_mapped_def wrote_mapped)

lemma wrote_none: "wrote i D D off 0 src tot"
  by (auto simp: wrote_def)

lemma wrote_one:
  assumes m: "mapped i D (off div BSIZE)" and inj: "inj_on (addr_of i D) {j. mapped i D j}"
    and a: "a = addr_of i D (off div BSIZE)"
  shows "wrote i D (D(a := blit (D a) (off mod BSIZE) src tot (chunk n tot off))) off (chunk n tot off) src tot"
    (is "wrote i D ?D off ?m src tot")
proof -
  have a': "a \<notin> meta D" "a \<noteq> i_addrs i NDIRECT" using m by (auto simp: a mapped_def)
  have "file_byte i ?D x = (if off \<le> x \<and> x < off + ?m then src (tot + (x - off)) else file_byte i D x)"
    if x: "mapped i D (x div BSIZE)" for x
  proof (cases "x div BSIZE = off div BSIZE")
    case True
    have o': "off = off div BSIZE * BSIZE + off mod BSIZE" by (rule div_mult_mod_eq [symmetric])
    have x': "x = off div BSIZE * BSIZE + x mod BSIZE" unfolding True [symmetric] by (rule div_mult_mod_eq [symmetric])
    have "x mod BSIZE < BSIZE" by (simp add: BSIZE_def)
    then have "off mod BSIZE \<le> x mod BSIZE \<and> x mod BSIZE < off mod BSIZE + ?m \<longleftrightarrow> off \<le> x \<and> x < off + ?m"
      and "x mod BSIZE - off mod BSIZE = x - off"
      using x' o' by linarith+
    then show ?thesis by (simp add: file_byte_def addr_of_upd [OF a'(2)] True a [symmetric] blit_def)
  next
    case False
    then have ne: "addr_of i D (x div BSIZE) \<noteq> a" using inj x m by (auto simp: a inj_on_def)
    have out: "\<not> (off \<le> x \<and> x < off + ?m)"
    proof
      assume "off \<le> x \<and> x < off + ?m"
      then have "(off + (x - off)) div BSIZE = off div BSIZE" by (intro chunk_div(1) [of _ n tot]) auto
      then show False using False \<open>off \<le> x \<and> x < off + ?m\<close> by simp
    qed
    show ?thesis unfolding if_not_P [OF out] using ne by (simp add: file_byte_def addr_of_upd [OF a'(2)])
  qed
  moreover have "?D b = D b" if "b \<notin> addr_of i D ` {j. mapped i D j}" for b
    using that m by (auto simp: a)
  ultimately show ?thesis using a' by (simp add: wrote_def meta_upd addr_of_upd fun_eq_iff)
qed

lemma wrote_trans:
  assumes w: "wrote i D D1 off m src tot" and v: "wrote i D1 D2 (off + m) k src (tot + m)"
  shows "wrote i D D2 off (m + k) src tot"
proof -
  have "file_byte i D2 x = (if off \<le> x \<and> x < off + (m + k) then src (tot + (x - off)) else file_byte i D x)"
    if x: "mapped i D (x div BSIZE)" for x
    using w v x wrote_mapped [OF w, of "x div BSIZE"] by (auto simp: wrote_def)
  then show ?thesis using w v wrote_mapped [OF w] by (simp add: wrote_def)
qed

lemma writei_plain_rule:
  assumes "locks_all dev Map.empty s t" and "icache s ip = i" and "i_dev i = dev"
    and "range_mapped i (disk t dev) off (n - tot)" and "tot \<le> n"
    and "inj_on (addr_of i (disk t dev)) {j. mapped i (disk t dev) j}"
  shows "returns (writei_plain ip n tot off src t) (\<lambda>r u. r = off + (n - tot) \<and> locks_all dev Map.empty s u \<and>
    (\<exists>D. disk u = (disk t)(dev := D) \<and> wrote i (disk t dev) D off (n - tot) src tot))"
  using assms
proof (induction ip n tot off src arbitrary: t rule: writei_plain.induct)
  case (1 ip n tot off src)
  let ?D = "disk t dev" and ?m = "chunk n tot off"
  let ?a = "addr_of i ?D (off div BSIZE)"
  let ?Q = "\<lambda>r u. r = off + (n - tot) \<and> locks_all dev Map.empty s u \<and>
    (\<exists>D. disk u = (disk t)(dev := D) \<and> wrote i ?D D off (n - tot) src tot)"
  show ?case
  proof (cases "n \<le> tot")
    case True
    then have "?Q off t" using 1 wrote_none [of i ?D off src tot] by (auto intro!: exI [of _ ?D])
    then show ?thesis using True by (subst writei_plain.simps) (simp add: returns_ret)
  next
    case False
    let ?D1 = "?D(?a := blit (?D ?a) (off mod BSIZE) src tot ?m)"
    have m: "mapped i ?D (off div BSIZE)" using 1 False by (intro range_mapped_first) auto
    have w1: "wrote i ?D ?D1 off ?m src tot" by (rule wrote_one [OF m 1(7) refl])
    have le: "tot + ?m \<le> n" using 1 by (intro chunk_le) simp
    have next_: "returns (writei_plain ip n (tot + ?m) (off + ?m) src v) ?Q"
      if v: "locks_all dev Map.empty s v" "disk v = (disk t)(dev := ?D1)" for v
    proof -
      have vd: "disk v dev = ?D1" using v by simp
      have "range_mapped i (disk v dev) (off + ?m) (n - (tot + ?m))"
        and "inj_on (addr_of i (disk v dev)) {j. mapped i (disk v dev) j}"
        unfolding vd wrote_range [OF w1] wrote_inj [OF w1] using 1 by (simp_all add: range_mapped_rest)
      then have "returns (writei_plain ip n (tot + ?m) (off + ?m) src v) (\<lambda>r u. r = (off + ?m) + (n - (tot + ?m)) \<and>
          locks_all dev Map.empty s u \<and> (\<exists>D. disk u = (disk v)(dev := D) \<and>
          wrote i (disk v dev) D (off + ?m) (n - (tot + ?m)) src (tot + ?m)))"
        by (intro "1.IH" [OF False v(1) 1(3,4) _ le])
      then show ?thesis
      proof (rule returns_mono, elim conjE exE)
        fix r u D assume u: "r = (off + ?m) + (n - (tot + ?m))" "locks_all dev Map.empty s u" "disk u = (disk v)(dev := D)"
          and w2: "wrote i (disk v dev) D (off + ?m) (n - (tot + ?m)) src (tot + ?m)"
        have "?m + (n - (tot + ?m)) = n - tot" using le by simp
        then have "wrote i ?D D off (n - tot) src tot" using wrote_trans [OF w1 w2 [unfolded vd]] by simp
        then show "?Q r u" using u v le by (intro conjI exI [of _ D]) simp_all
      qed
    qed
    show ?thesis
    proof (subst writei_plain.simps, subst if_not_P [OF False], rule map_and_read [OF 1(2-4) m])
      fix b u assume u: "locks_all dev [b \<mapsto> (?a, ?D ?a)] s u" "disk u = disk t"
      show "returns (bindk (upd_data b (\<lambda>d. blit d (off mod BSIZE) src tot ?m)) (\<lambda>_. bindk (bwrite b) (\<lambda>_.
          bindk (brelse b) (\<lambda>_. writei_plain ip n (tot + ?m) (off + ?m) src))) u) ?Q"
      proof (rule then_upd [OF u(1)])
        show "[b \<mapsto> (?a, ?D ?a)] b = Some (?a, ?D ?a)" by simp
        fix v assume v: "locks_all dev ([b \<mapsto> (?a, ?D ?a)](b \<mapsto> (?a, blit (?D ?a) (off mod BSIZE) src tot ?m))) s v"
          "disk v = disk u"
        show "returns (bindk (bwrite b) (\<lambda>_. bindk (brelse b) (\<lambda>_. writei_plain ip n (tot + ?m) (off + ?m) src)) v) ?Q"
          by (rule then_write [OF v(1), of _ ?a], simp, rule then_release [where n = ?a], assumption)
            (use u v next_ in auto)
      qed
    qed
  qed
qed

section \<open>Whole calls on a plain file\<close>

lemma locks_empty_bpost:
  "locks_all dev Map.empty s u \<Longrightarrow> disk u = (disk s)(dev := D) \<Longrightarrow> bpost {} dev s D u"
  by (simp add: locks_all_def bpost_def)

lemma size_irrelevant [simp]:
  "addr_of (i\<lparr>i_size := z\<rparr>) = addr_of i" "mapped (i\<lparr>i_size := z\<rparr>) = mapped i"
  "file_byte (i\<lparr>i_size := z\<rparr>) = file_byte i" "range_mapped (i\<lparr>i_size := z\<rparr>) = range_mapped i"
  by (simp_all add: addr_of_def mapped_def file_byte_def range_mapped_def fun_eq_iff)

text \<open>A file system in which the file's blocks are its own: no block in two slots, and the inode's block is none of them.\<close>

definition own_blocks :: "inode \<Rightarrow> (u32 \<Rightarrow> block) \<Rightarrow> bool" where
  "own_blocks i D \<longleftrightarrow> inj_on (addr_of i D) {j. mapped i D j} \<and> IBLOCK (i_inum i) \<notin> meta D \<and>
     IBLOCK (i_inum i) \<noteq> i_addrs i NDIRECT \<and> (\<forall>j. mapped i D j \<longrightarrow> IBLOCK (i_inum i) \<noteq> addr_of i D j)"

text \<open>The copy of the inode on disk.\<close>

definition disk_inode :: "u32 \<Rightarrow> (u32 \<Rightarrow> block) \<Rightarrow> dinode" where
  "disk_inode inum D = get_dinode (D (IBLOCK inum)) (dip_off inum)"

lemma file_byte_iblock:
  assumes "own_blocks i D" and "mapped i D (x div BSIZE)"
  shows "file_byte i (D(IBLOCK (i_inum i) := y)) x = file_byte i D x"
  using assms by (auto simp: own_blocks_def file_byte_def addr_of_upd)

lemma range_mapped_iblock:
  assumes "own_blocks i D" shows "range_mapped i (D(IBLOCK (i_inum i) := y)) off m = range_mapped i D off m"
  using assms by (simp add: own_blocks_def range_mapped_def mapped_upd)

lemma own_blocks_wrote:
  "wrote i D D' off m src tot \<Longrightarrow> own_blocks i D \<Longrightarrow> own_blocks i D'"
  using wrote_inj [of i D D' off m src tot] wrote_mapped [of i D D' off m src tot]
  by (simp add: own_blocks_def) (simp add: wrote_def)

lemma iupdate_plain:
  assumes "bpost {} dev s D t" and "icache t ip = i" and "i_dev i = dev"
  shows "returns (iupdate ip t) (\<lambda>_ u. \<exists>x. bpost {} dev s (D(IBLOCK (i_inum i) := x)) u \<and>
    get_dinode x (dip_off (i_inum i)) = (dinode_of i)\<lparr>d_addrs := (\<lambda>k. if k \<le> NDIRECT then i_addrs i k else 0)\<rparr>)"
proof -
  note t = bpost_sel [OF assms(1)]
  have "returns (iupdate ip t) (\<lambda>_. bpost {} (i_dev i) t ((disk t (i_dev i))(IBLOCK (i_inum i) :=
      put_dinode (disk t (i_dev i) (IBLOCK (i_inum i))) (dip_off (i_inum i)) (dinode_of i))))"
    by (rule iupdate_rule [OF assms(2)]) (use t assms(3) in \<open>simp_all add: NBUF_def held_def\<close>)
  moreover have "get_dinode (put_dinode d o1 (dinode_of i)) o1 =
      (dinode_of i)\<lparr>d_addrs := (\<lambda>k. if k \<le> NDIRECT then i_addrs i k else 0)\<rparr>" for d o1
    by (simp add: get_put_dinode) (simp add: dinode_of_def cong: if_cong)
  ultimately show ?thesis
    by (elim returns_mono, intro exI conjI) (use assms t in \<open>auto intro: bpost_trans\<close>)
qed

lemma writei_plain_then:
  assumes ok: "bok {} dev s" and i: "icache s ip = i" "i_dev i = dev"
    and rm: "range_mapped i (disk s dev) (unat off) (unat n)" and own: "own_blocks i (disk s dev)"
  shows "returns (writei_plain ip (unat n) 0 (unat off) src s) (\<lambda>r u. r = unat off + unat n \<and>
    (\<exists>D. bpost {} dev s D u \<and> wrote i (disk s dev) D (unat off) (unat n) src 0))"
proof (rule returns_mono)
  show "returns (writei_plain ip (unat n) 0 (unat off) src s) (\<lambda>r u. r = unat off + (unat n - 0) \<and>
    locks_all dev Map.empty s u \<and> (\<exists>D. disk u = (disk s)(dev := D) \<and>
      wrote i (disk s dev) D (unat off) (unat n - 0) src 0))"
    by (rule writei_plain_rule [OF locks_empty [OF ok] i]) (use rm own in \<open>simp_all add: own_blocks_def\<close>)
qed (auto intro: locks_empty_bpost)

text \<open>
  The end of a \<open>writei\<close> call that left \<open>D\<close> on the device: the size of the inode is that of
  the file after the write, in the cache and on disk.
\<close>

definition size_after :: "inode \<Rightarrow> nat \<Rightarrow> nat \<Rightarrow> u32" where
  "size_after i off n = (if 0 < n \<and> unat (i_size i) < off + n then of_nat (off + n) else i_size i)"

lemma size_after_ge:
  assumes "off \<le> unat (i_size i)" and "off + n \<le> MAXFILE * BSIZE"
  shows "off + n \<le> unat (size_after i off n)"
proof -
  have "MAXFILE * BSIZE = 71680" by (simp add: MAXFILE_def BSIZE_def NDIRECT_def NINDIRECT_def)
  then have "unat (of_nat (off + n) :: u32) = off + n" using assms(2) by (intro unat_of_nat_lt) simp
  then show ?thesis using assms(1) by (auto simp: size_after_def simp del: of_nat_add)
qed

definition ended :: "u32 \<Rightarrow> nat \<Rightarrow> 'z fs_scheme \<Rightarrow> nat \<Rightarrow> nat \<Rightarrow> (u32 \<Rightarrow> block) \<Rightarrow> 'z fs_scheme \<Rightarrow> bool" where
  "ended dev ip s off n D t \<longleftrightarrow>
     (\<exists>x. ipost {} dev ip s ((icache s ip)\<lparr>i_size := size_after (icache s ip) off n\<rparr>)
         (D(IBLOCK (i_inum (icache s ip)) := x)) t \<and>
       d_size (get_dinode x (dip_off (i_inum (icache s ip)))) = size_after (icache s ip) off n)"

lemma writei_end_rule:
  assumes u: "bpost {} dev s D u" and i: "icache s ip = i" "i_dev i = dev"
    and n: "unat off + unat n \<le> MAXFILE * BSIZE" and e: "e = unat off + unat n"
  shows "returns (writei_end ip n e u) (\<lambda>r t. r = int (unat n) \<and> ended dev ip s (unat (off :: u32)) (unat n) D t)"
  unfolding writei_end_def
proof (rule returns_bindk, rule iupdate_plain [OF u _ i(2)], simp add: bpost_icache [OF u] i, elim exE conjE)
  let ?post = "\<lambda>r t. r = int (unat n) \<and> ended dev ip s (unat off) (unat n) D t"
  let ?c = "0 < unat n \<and> unat (i_size i) < e"
  fix a v x assume v: "bpost {} dev s (D(IBLOCK (i_inum i) := x)) v"
    and x: "get_dinode x (dip_off (i_inum i)) = (dinode_of i)\<lparr>d_addrs := (\<lambda>k. if k \<le> NDIRECT then i_addrs i k else 0)\<rparr>"
  have MB: "MAXFILE * BSIZE = 71680" by (simp add: MAXFILE_def BSIZE_def NDIRECT_def NINDIRECT_def)
  have ue: "unat (of_nat e :: u32) = e" using n by (intro unat_of_nat_lt) (simp add: MB e)
  have sn: "sint n = int (unat n)" using n by (intro sint_small) (simp add: MB)
  have iv: "icache v ip = i" using bpost_icache [OF v] i by simp
  have cond: "(0 < n \<and> i_size i < of_nat e) = ?c" by (simp add: word_less_nat_alt ue unat_gt_0)
  show "returns (bindk (inode_of ip) (\<lambda>i. bindk (whenk (0 < n \<and> i_size i < of_nat e)
      (bindk (upd_inode ip (\<lambda>i. i\<lparr>i_size := of_nat e\<rparr>)) (\<lambda>_. iupdate ip))) (\<lambda>_. ret (sint n))) v) ?post"
  proof (cases ?c)
    case False
    have sz: "size_after i (unat off) (unat n) = i_size i"
      unfolding size_after_def e [symmetric] by (rule if_not_P [OF False])
    have "ended dev ip s (unat off) (unat n) D v"
      unfolding ended_def i(1) sz using ipost_bpost [OF v, of ip] x i by (intro exI [of _ x]) (simp add: dinode_of_def)
    then show ?thesis
      unfolding bindk_Done [OF inode_of_eq] iv cond whenk_def if_not_P [OF False] bindk_ret
      by (intro returns_ret) (simp add: sn)
  next
    case True
    let ?i = "i\<lparr>i_size := of_nat e\<rparr>" let ?v = "v\<lparr>icache := (icache v)(ip := ?i)\<rparr>"
    have sz: "size_after i (unat off) (unat n) = of_nat e"
      unfolding size_after_def e [symmetric] by (rule if_P [OF True])
    have v': "bpost {} dev (s\<lparr>icache := (icache s)(ip := ?i)\<rparr>) (D(IBLOCK (i_inum i) := x)) ?v"
      using bpost_icache_upd [OF v, of "(icache s)(ip := ?i)"] bpost_icache [OF v] by simp
    have "returns (iupdate ip ?v) (\<lambda>_. ended dev ip s (unat off) (unat n) D)"
    proof (rule returns_mono, rule iupdate_plain [OF v', of ip ?i], simp, simp add: i, elim exE conjE)
      fix u y assume "bpost {} dev (s\<lparr>icache := (icache s)(ip := ?i)\<rparr>) (D(IBLOCK (i_inum i) := x, IBLOCK (i_inum ?i) := y)) u"
        and "get_dinode y (dip_off (i_inum ?i)) = (dinode_of ?i)\<lparr>d_addrs := (\<lambda>k. if k \<le> NDIRECT then i_addrs ?i k else 0)\<rparr>"
      then show "ended dev ip s (unat off) (unat n) D u"
        unfolding ended_def i(1) sz by (intro exI [of _ y]) (simp add: ipost_def dinode_of_def)
    qed
    then show ?thesis
      unfolding bindk_Done [OF inode_of_eq] iv cond whenk_def if_P [OF True] bindk_assoc bindk_upd_inode
      by (rule returns_bindk) (simp add: returns_ret sn)
  qed
qed

lemma writei_eq:
  assumes i: "icache s ip = i" "i_type i \<noteq> T_DEV"
    and off: "unat off \<le> unat (i_size i)" "unat off + unat n \<le> MAXFILE * BSIZE"
  shows "writei ip src off n s = bindk (if i_type i = T_MIRRORED then writei_mirrored ip (unat n) 0 (unat off) src
    else writei_plain ip (unat n) 0 (unat off) src) (writei_end ip n) s"
proof -
  have MB: "MAXFILE * BSIZE = 71680" by (simp add: MAXFILE_def BSIZE_def NDIRECT_def NINDIRECT_def)
  have un: "unat (off + n) = unat off + unat n" using off by (subst unat_add_lem [THEN iffD1]) (auto simp: MB)
  have g: "\<not> (i_size i < off \<or> off + n < off)" "\<not> of_nat (MAXFILE * BSIZE) < off + n"
    using off un by (simp_all add: word_less_nat_alt MB)
  show ?thesis
    unfolding writei_def bindk_Done [OF inode_of_eq] i(1) Let_def if_not_P [OF i(2)] if_not_P [OF g(1)] if_not_P [OF g(2)]
    by (rule refl)
qed

text \<open>What one \<open>writei\<close> call does to a plain file whose slots are allocated.\<close>

lemma writei_rule:
  assumes ok: "bok {} dev s" and i: "icache s ip = i" "i_dev i = dev" "i_type i \<noteq> T_DEV" "i_type i \<noteq> T_MIRRORED"
    and off: "unat off \<le> unat (i_size i)" "unat off + unat n \<le> MAXFILE * BSIZE"
    and rm: "range_mapped i (disk s dev) (unat off) (unat n)" and own: "own_blocks i (disk s dev)"
  shows "returns (writei ip src off n s) (\<lambda>r t. r = int (unat n) \<and>
    (\<exists>D. ended dev ip s (unat off) (unat n) D t \<and> wrote i (disk s dev) D (unat off) (unat n) src 0))"
  unfolding writei_eq [OF i(1,3) off] if_not_P [OF i(4)]
proof (rule returns_bindk, rule writei_plain_then [OF ok i(1,2) rm own], elim conjE exE)
  fix r u D assume "r = unat off + unat n" "bpost {} dev s D u" "wrote i (disk s dev) D (unat off) (unat n) src 0"
  then show "returns (writei_end ip n r u) (\<lambda>r t. r = int (unat n) \<and>
      (\<exists>D. ended dev ip s (unat off) (unat n) D t \<and> wrote i (disk s dev) D (unat off) (unat n) src 0))"
    by (intro returns_mono [OF writei_end_rule [OF _ i(1,2) off(2)]]) auto
qed

lemma readi_rule:
  assumes ok: "bok {} dev s" and i: "icache s ip = i" "i_dev i = dev" "i_type i \<noteq> T_DEV" "i_type i \<noteq> T_MIRRORED"
    and off: "unat off \<le> unat (i_size i)" "unat off + unat n < 2 ^ 32" and m: "m = min (unat n) (unat (i_size i) - unat off)"
    and small: "m < 2 ^ 31" and rm: "range_mapped i (disk s dev) (unat off) m"
  shows "returns (readi ip dst off n s) (\<lambda>(r, d) t. r = int m \<and>
    d = (\<lambda>k. if k < m then file_byte i (disk s dev) (unat off + k) else dst k) \<and> bpost {} dev s (disk s dev) t)"
proof -
  have un: "unat (off + n) = unat off + unat n" using off by (subst unat_add_lem [THEN iffD1]) auto
  have g: "\<not> (i_size i < off \<or> off + n < off)" using off un by (simp add: word_less_nat_alt)
  let ?n1 = "if i_size i < off + n then i_size i - off else n"
  have n1: "unat ?n1 = m"
    using off un by (auto simp: m word_less_nat_alt word_le_nat_alt unat_sub)
  have sn: "sint ?n1 = int m" using small n1 by (simp only: sint_small)
  have eq: "readi ip dst off n s = bindk (readi_plain ip m 0 (unat off) dst) (\<lambda>dst'. ret (int m, dst')) s"
    unfolding readi_def bindk_Done [OF inode_of_eq] i(1) Let_def n1 sn using i g by simp
  have "returns (readi_plain ip m 0 (unat off) dst s) (\<lambda>r u.
      r = (\<lambda>k. if 0 \<le> k \<and> k < m then file_byte i (disk s dev) (unat off + (k - 0)) else dst k) \<and>
      locks_all dev Map.empty s u \<and> disk u = disk s)"
    by (rule readi_plain_rule [OF locks_empty [OF ok] i(1,2)]) (use rm in simp_all)
  then show ?thesis unfolding eq
    by (rule returns_bindk) (auto intro!: returns_ret simp: bpost_def locks_all_def)
qed

end
