(* ===== verification/Mirror.thy ===== *)
theory Mirror
  imports Contents
begin

text \<open>
  The mirrored loops of \<open>readi\<close> and \<open>writei\<close> on a block whose three copies are allocated: what
  is read, when a copy is repaired, and what is written.
\<close>

section \<open>Three copies\<close>

definition copy_addr :: "inode \<Rightarrow> (u32 \<Rightarrow> block) \<Rightarrow> nat \<Rightarrow> nat \<Rightarrow> u32" where
  "copy_addr i D l k = addr_of i D (l * 3 + k)"

text \<open>Logical block \<open>l\<close> of a mirrored file has three different blocks on disk.\<close>

definition replicated :: "inode \<Rightarrow> (u32 \<Rightarrow> block) \<Rightarrow> nat \<Rightarrow> bool" where
  "replicated i D l \<longleftrightarrow> (\<forall>k\<le>2. mapped i D (l * 3 + k)) \<and>
     distinct [copy_addr i D l 0, copy_addr i D l 1, copy_addr i D l 2]"

lemma replicated_mapped: "replicated i D l \<Longrightarrow> k \<le> 2 \<Longrightarrow> mapped i D (l * 3 + k)"
  by (simp add: replicated_def)

lemma replicated_apart:
  assumes "replicated i D l" and "k \<le> 2"
  shows "copy_addr i D l k \<notin> meta D" and "copy_addr i D l k \<noteq> i_addrs i NDIRECT"
  using replicated_mapped [OF assms] by (auto simp: mapped_def copy_addr_def)

lemma copy_addr_upd: "n \<noteq> i_addrs i NDIRECT \<Longrightarrow> copy_addr i (D(n := x)) l k = copy_addr i D l k"
  by (simp add: copy_addr_def addr_of_upd)

lemma replicated_upd:
  "n \<notin> meta D \<Longrightarrow> n \<noteq> i_addrs i NDIRECT \<Longrightarrow> replicated i (D(n := x)) l = replicated i D l"
  by (simp add: replicated_def mapped_upd copy_addr_upd)

lemma copies_direct_or_not: "l * 3 + 2 < NDIRECT \<or> NDIRECT \<le> l * 3"
  by (cases "l < 4") (simp_all add: NDIRECT_def)

lemma then_mbmap:
  assumes h: "locks_all dev M s t" and i: "icache s ip = i" "i_dev i = dev" and d: "data_only i (disk t dev) M"
    and r: "replicated i (disk t dev) l" "k \<le> 2" and room: "Suc (card (dom M)) < NBUF"
    and c: "\<And>u. locks_all dev M s u \<Longrightarrow> disk u = disk t \<Longrightarrow> returns (c (copy_addr i (disk t dev) l k) u) Q"
  shows "returns (bindk (mbmap ip (l * 3) k) c t) Q"
  by (rule returns_bindk, rule locks_mbmap [OF h i d])
    (use r room copies_direct_or_not c replicated_mapped [OF r(1), of 0] replicated_mapped [OF r(1), of 2]
      replicated_mapped [OF r] in \<open>auto simp: copy_addr_def\<close>)

lemma then_mread:
  assumes h: "locks_all dev M s t" and i: "icache s ip = i" "i_dev i = dev" and d: "data_only i (disk t dev) M"
    and r: "replicated i (disk t dev) l" "k \<le> 2" and room: "Suc (card (dom M)) < NBUF"
    and a: "a = copy_addr i (disk t dev) l k" and fr: "\<forall>b x. M b \<noteq> Some (a, x)"
    and c: "\<And>b u. M b = None \<Longrightarrow> locks_all dev (M(b \<mapsto> (a, disk t dev a))) s u \<Longrightarrow> disk u = disk t \<Longrightarrow> returns (c b u) Q"
  shows "returns (bindk (mread ip (l * 3) k) c t) Q"
  unfolding mread_def bindk_assoc
proof (rule then_mbmap [OF h i d r room])
  fix u assume u: "locks_all dev M s u" "disk u = disk t"
  have ic: "icache u ip = i" using locks_icache [OF u(1)] i by simp
  show "returns (bindk (inode_of ip) (\<lambda>j. bindk (bread (i_dev j) (copy_addr i (disk t dev) l k)) c) u) Q"
    unfolding bindk_Done [OF inode_of_eq] ic i(2) a [symmetric]
    by (rule then_read [OF u(1) fr]) (use room u c in auto)
qed

text \<open>The three buffers of a round and their contents.\<close>

definition three :: "inode \<Rightarrow> (u32 \<Rightarrow> block) \<Rightarrow> nat \<Rightarrow> nat \<Rightarrow> nat \<Rightarrow> nat \<Rightarrow> (nat \<rightharpoonup> u32 \<times> block)" where
  "three i D l b1 b2 b3 = [b1 \<mapsto> (copy_addr i D l 0, D (copy_addr i D l 0)),
     b2 \<mapsto> (copy_addr i D l 1, D (copy_addr i D l 1)), b3 \<mapsto> (copy_addr i D l 2, D (copy_addr i D l 2))]"

lemma data_only_copy:
  "data_only i D M \<Longrightarrow> replicated i D l \<Longrightarrow> k \<le> 2 \<Longrightarrow> data_only i D (M(b \<mapsto> (copy_addr i D l k, x)))"
  using replicated_apart [of i D l k] by (auto simp: data_only_def)

lemma card_three: "card (dom M) \<le> card S \<Longrightarrow> card S + 1 < NBUF \<Longrightarrow> Suc (card (dom M)) < NBUF"
  by simp

lemma then_load:
  assumes h: "locks_all dev Map.empty s t" and i: "icache s ip = i" "i_dev i = dev"
    and r: "replicated i (disk t dev) l"
    and c: "\<And>b1 b2 b3 u. distinct [b1, b2, b3] \<Longrightarrow> locks_all dev (three i (disk t dev) l b1 b2 b3) s u \<Longrightarrow> disk u = disk t \<Longrightarrow>
      returns (c (b1, b2, b3, blit dst tot (disk t dev (copy_addr i (disk t dev) l 2)) o1 m) u) Q"
  shows "returns (bindk (readi_load ip (l * 3) o1 m tot dst) c t) Q"
proof -
  let ?D = "disk t dev" let ?a = "copy_addr i ?D l"
  have ne: "?a 0 \<noteq> ?a 1" "?a 1 \<noteq> ?a 2" "?a 0 \<noteq> ?a 2" using r by (auto simp: replicated_def)
  have blit2: "blit (blit d tot x o1 m) tot y o1 m = blit d tot y o1 m" for d x y
    by (rule ext) (simp add: blit_def)
  have do1: "data_only i ?D [b1 \<mapsto> (?a 0, ?D (?a 0))]" for b1
    by (rule data_only_copy [OF _ r]) simp_all
  have do2: "data_only i ?D [b1 \<mapsto> (?a 0, ?D (?a 0)), b2 \<mapsto> (?a 1, ?D (?a 1))]" for b1 b2
    by (rule data_only_copy [OF do1 r]) simp_all
  have mb: "returns (bindk (mbmap ip (l * 3) 0) (\<lambda>_. bindk (mbmap ip (l * 3) 1) (\<lambda>_. bindk (mbmap ip (l * 3) 2) k)) v) R"
    if v: "locks_all dev [b1 \<mapsto> (?a 0, ?D (?a 0))] s v" "disk v = disk t"
      and k: "\<And>u a. locks_all dev [b1 \<mapsto> (?a 0, ?D (?a 0))] s u \<Longrightarrow> disk u = disk t \<Longrightarrow> returns (k a u) R" for v b1 k R
    by (rule then_mbmap [OF v(1) i], unfold v(2), rule do1, rule r, simp, simp add: NBUF_def,
        rule then_mbmap [OF _ i], assumption, simp add: do1, simp add: r, simp, simp add: NBUF_def,
        rule then_mbmap [OF _ i], assumption, simp add: do1, simp add: r, simp, simp add: NBUF_def, rule k)
      simp_all
  show ?thesis
    unfolding readi_load_def bindk_assoc bindk_ret
  proof (rule then_mread [OF h i _ r _ _ refl])
    fix b1 u assume u: "locks_all dev (Map.empty(b1 \<mapsto> (?a 0, ?D (?a 0)))) s u" "disk u = disk t"
    show "returns (bindk (data_of b1) (\<lambda>d. bindk (mbmap ip (l * 3) 0) (\<lambda>_. bindk (mbmap ip (l * 3) 1) (\<lambda>_.
      bindk (mbmap ip (l * 3) 2) (\<lambda>_. bindk (mread ip (l * 3) 1) (\<lambda>bp2. bindk (data_of bp2) (\<lambda>d2.
      bindk (mread ip (l * 3) 2) (\<lambda>bp3. bindk (data_of bp3) (\<lambda>d3.
      c (b1, bp2, bp3, blit (blit (blit dst tot d o1 m) tot d2 o1 m) tot d3 o1 m))))))))) u) Q"
    proof (rule then_data [OF u(1)], simp, rule mb [OF u])
      fix v and a :: u32 assume v: "locks_all dev [b1 \<mapsto> (?a 0, ?D (?a 0))] s v" "disk v = disk t"
      show "returns (bindk (mread ip (l * 3) 1) (\<lambda>bp2. bindk (data_of bp2) (\<lambda>d2. bindk (mread ip (l * 3) 2) (\<lambda>bp3.
        bindk (data_of bp3) (\<lambda>d3. c (b1, bp2, bp3, blit (blit (blit dst tot (?D (?a 0)) o1 m) tot d2 o1 m) tot d3 o1 m))))) v) Q"
      proof (rule then_mread [OF v(1) i _ _ _ _ refl])
        fix b2 w assume b2: "[b1 \<mapsto> (?a 0, ?D (?a 0))] b2 = None"
          and "locks_all dev ([b1 \<mapsto> (?a 0, ?D (?a 0))](b2 \<mapsto> (copy_addr i (disk v dev) l 1, disk v dev (copy_addr i (disk v dev) l 1)))) s w"
          "disk w = disk v"
        then have w: "locks_all dev [b1 \<mapsto> (?a 0, ?D (?a 0)), b2 \<mapsto> (?a 1, ?D (?a 1))] s w" "disk w = disk t"
          using v by simp_all
        show "returns (bindk (data_of b2) (\<lambda>d2. bindk (mread ip (l * 3) 2) (\<lambda>bp3.
          bindk (data_of bp3) (\<lambda>d3. c (b1, b2, bp3, blit (blit (blit dst tot (?D (?a 0)) o1 m) tot d2 o1 m) tot d3 o1 m)))) w) Q"
        proof (rule then_data [OF w(1), where n = "?a 1" and x = "?D (?a 1)"], simp, rule then_mread [OF w(1) i _ _ _ _ refl])
          fix b3 x assume b3: "[b1 \<mapsto> (?a 0, ?D (?a 0)), b2 \<mapsto> (?a 1, ?D (?a 1))] b3 = None"
            and "locks_all dev ([b1 \<mapsto> (?a 0, ?D (?a 0)), b2 \<mapsto> (?a 1, ?D (?a 1))](b3 \<mapsto>
              (copy_addr i (disk w dev) l 2, disk w dev (copy_addr i (disk w dev) l 2)))) s x" "disk x = disk w"
          then have x: "locks_all dev (three i ?D l b1 b2 b3) s x" "disk x = disk t"
            using w by (simp_all add: three_def)
          have db: "distinct [b1, b2, b3]" using b2 b3 by (auto split: if_splits)
          show "returns (bindk (data_of b3) (\<lambda>d3. c (b1, b2, b3, blit (blit (blit dst tot (?D (?a 0)) o1 m) tot (?D (?a 1)) o1 m) tot d3 o1 m)) x) Q"
            by (rule then_data [OF x(1), where n = "?a 2" and x = "?D (?a 2)"], simp add: three_def, unfold blit2, rule c [OF db x])
        qed (use w r ne do2 b2 in \<open>auto simp: NBUF_def split: if_splits\<close>)
      qed (use v r ne do1 in \<open>auto simp: NBUF_def split: if_splits\<close>)
    qed
  qed (simp_all add: NBUF_def)
qed

section \<open>Comparing copies\<close>

text \<open>What \<open>strncmp\<close> sees as different: the first position before a NUL where the blocks differ.\<close>

definition sdiff :: "block \<Rightarrow> block \<Rightarrow> nat \<Rightarrow> bool" where
  "sdiff p q n \<longleftrightarrow> (\<exists>j<n. p j \<noteq> q j \<and> (\<forall>k<j. p k \<noteq> 0 \<and> p k = q k))"

lemma blk_strncmp_total: "i + n \<le> BSIZE \<Longrightarrow> \<exists>v. blk_strncmp p q i n = Some v"
  by (induction n arbitrary: i) auto

lemma blk_strncmp_sdiff:
  assumes "i + n \<le> BSIZE" and "\<forall>k<i. p k \<noteq> 0 \<and> p k = q k"
  shows "\<exists>v. blk_strncmp p q i n = Some v \<and> (v \<noteq> 0) = sdiff p q (i + n)"
  using assms
proof (induction n arbitrary: i)
  case 0
  then show ?case by (auto simp: sdiff_def)
next
  case (Suc n)
  show ?case
  proof (cases "p i \<noteq> 0 \<and> p i = q i")
    case True
    then have "\<exists>v. blk_strncmp p q (Suc i) n = Some v \<and> (v \<noteq> 0) = sdiff p q (Suc i + n)"
      using Suc.prems by (intro Suc.IH) (auto simp: less_Suc_eq)
    moreover have "blk_strncmp p q i (Suc n) = blk_strncmp p q (Suc i) n"
      using conjunct1 [OF True] conjunct2 [OF True] Suc.prems(1) by simp
    ultimately show ?thesis by simp
  next
    case False
    have "(uint (p i) - uint (q i) \<noteq> 0) = sdiff p q (i + Suc n)"
    proof (cases "p i = q i")
      case True
      then have "p i = 0" using False by simp
      then have "\<not> sdiff p q (i + Suc n)" using True Suc.prems(2) unfolding sdiff_def
        by (metis linorder_neqE_nat)
      then show ?thesis using True by simp
    next
      case False
      then have "uint (p i) \<noteq> uint (q i)" using word_uint_eqI by blast
      then show ?thesis using False Suc.prems unfolding sdiff_def by (auto intro!: exI [of _ i])
    qed
    then show ?thesis using False Suc.prems by auto
  qed
qed

lemma sdiff_sym: "sdiff p q n = sdiff q p n"
  unfolding sdiff_def by metis

lemma sdiff_refl [simp]: "\<not> sdiff p p n"
  by (simp add: sdiff_def)

text \<open>Of two of three copies that compare equal, the third differs from both or from none.\<close>

lemma sdiff_trans: "\<not> sdiff p q n \<Longrightarrow> \<not> sdiff q r n \<Longrightarrow> \<not> sdiff p r n"
proof
  assume pq: "\<not> sdiff p q n" and qr: "\<not> sdiff q r n" and "sdiff p r n"
  then obtain j where j: "j < n" "p j \<noteq> r j" and b: "\<forall>k<j. p k \<noteq> 0 \<and> p k = r k" by (auto simp: sdiff_def)
  have eq: "p k = q k" if "k \<le> j" for k
    using that
  proof (induction k rule: less_induct)
    case (less k)
    then have "\<forall>l<k. p l \<noteq> 0 \<and> p l = q l" using b by (meson less_le_trans less_imp_le)
    then show ?case using pq less.prems j unfolding sdiff_def by (meson le_less_trans)
  qed
  then have "sdiff q r n" using j b unfolding sdiff_def by (intro exI [of _ j]) auto
  then show False using qr by simp
qed

lemma then_diffs:
  assumes h: "locks_all dev M s t" and m: "M b1 = Some (n1, d1)" "M b2 = Some (n2, d2)" "M b3 = Some (n3, d3)"
    and n: "n \<le> BSIZE" and c: "returns (c (sdiff d1 d2 n, sdiff d1 d3 n, sdiff d2 d3 n) t) Q"
  shows "returns (bindk (readi_diffs b1 b2 b3 n (False, False, False)) c t) Q"
proof -
  have cmp: "diffk x y n t = Done (sdiff p q n) t" if x: "M x = Some (k, p)" and y: "M y = Some (l, q)" for x y k l p q
  proof -
    obtain v where "blk_strncmp p q 0 n = Some v" "(v \<noteq> 0) = sdiff p q n"
      using blk_strncmp_sdiff [of 0 n p q] n by auto
    then show ?thesis
      by (simp add: diffk_def bindk_def locks_data [OF h x] locks_data [OF h y] ret_def)
  qed
  have "readi_diffs b1 b2 b3 n (False, False, False) t = Done (sdiff d1 d2 n, sdiff d1 d3 n, sdiff d2 d3 n) t"
    by (simp add: readi_diffs_def bindk_def cmp [OF m(1,2)] cmp [OF m(2,3)] cmp [OF m(1,3)] ret_def)
  then show ?thesis using c by (simp add: bindk_def)
qed

section \<open>Repairing a copy\<close>

lemma then_repair:
  assumes h: "locks_all dev M s t" and i: "icache s ip = i" "i_dev i = dev" and d: "data_only i (disk t dev) M"
    and r: "replicated i (disk t dev) l" "k \<le> 2" and room: "card (dom M) \<le> 3"
    and a: "a = copy_addr i (disk t dev) l k"
    and bad: "M bad = Some (a, disk t dev a)" and src: "M src = Some (n, x)" "src \<noteq> bad"
    and only: "\<forall>b x. M b = Some (a, x) \<longrightarrow> b = bad"
    and c: "\<And>b u. (M(bad := None)) b = None \<Longrightarrow> locks_all dev (M(bad := None, b \<mapsto> (a, blit (disk t dev a) o1 x o1 m))) s u \<Longrightarrow>
      disk u = (disk t)(dev := (disk t dev)(a := blit (disk t dev a) o1 x o1 m)) \<Longrightarrow> returns (c b u) Q"
  shows "returns (bindk (readi_repair ip (l * 3) k bad src o1 m (\<lambda>b. b)) c t) Q"
  unfolding readi_repair_def bindk_assoc
proof (rule then_release [OF h bad])
  let ?M = "M(bad := None)" and ?D = "disk t dev"
  have fin: "finite (dom M)" using bok_finite [OF locks_bok [OF h]] .
  fix u assume u: "locks_all dev ?M s u" "disk u = disk t"
  show "returns (bindk (mread ip (l * 3) k) (\<lambda>b. bindk (copy_part b src o1 m) (\<lambda>_. bindk (bwrite b) (\<lambda>_. bindk (ret b) c))) u) Q"
  proof (rule then_mread [OF u(1) i], unfold u(2))
    show "data_only i ?D ?M" by (rule data_only_del [OF d])
    show "replicated i ?D l" "k \<le> 2" "a = copy_addr i ?D l k" by fact+
    have "card (dom ?M) \<le> card (dom M)" using fin by (intro card_mono) auto
    then show "Suc (card (dom ?M)) < NBUF" using room by (simp add: NBUF_def)
    show "\<forall>b x. ?M b \<noteq> Some (a, x)" using only by auto
    fix b v assume b: "?M b = None" and v: "locks_all dev (?M(b \<mapsto> (a, ?D a))) s v" "disk v = disk t"
    have bs: "b \<noteq> src" using b src by auto
    have sv: "(?M(b \<mapsto> (a, ?D a))) src = Some (n, x)" using bs src by simp
    show "returns (bindk (copy_part b src o1 m) (\<lambda>_. bindk (bwrite b) (\<lambda>_. bindk (ret b) c)) v) Q"
      unfolding copy_part_def bindk_assoc bindk_ret
    proof (rule then_data [OF v(1) sv], rule then_upd [OF v(1)])
      show "(?M(b \<mapsto> (a, ?D a))) b = Some (a, ?D a)" by simp
      fix w assume w: "locks_all dev (?M(b \<mapsto> (a, ?D a), b \<mapsto> (a, blit (?D a) o1 x o1 m))) s w" "disk w = disk v"
      show "returns (bindk (bwrite b) (\<lambda>_. c b) w) Q"
        by (rule then_write [OF w(1), of b a "blit (?D a) o1 x o1 m"]) (use w v b c in auto)
    qed
  qed
qed

section \<open>One round\<close>

lemma release_three:
  assumes h: "locks_all dev M s t" and db: "distinct [x, y, z]" and dm: "dom M = {x, y, z}"
    and at: "\<forall>b n e. M b = Some (n, e) \<longrightarrow> e = disk t dev n"
    and c: "\<And>u. locks_all dev Map.empty s u \<Longrightarrow> disk u = disk t \<Longrightarrow> returns (c u) Q"
  shows "returns (bindk (brelse x) (\<lambda>_. bindk (brelse y) (\<lambda>_. bindk (brelse z) (\<lambda>_. c))) t) Q"
proof -
  have ex: "\<exists>n. M b = Some (n, disk t dev n)" if "b \<in> {x, y, z}" for b
  proof -
    have "b \<in> dom M" unfolding dm by (rule that)
    then obtain p where "M b = Some p" by (auto simp: dom_def)
    then obtain n e where b: "M b = Some (n, e)" by (cases p) simp
    then have "e = disk t dev n" using at by blast
    then show ?thesis using b by blast
  qed
  have "\<exists>n. M x = Some (n, disk t dev n)" "\<exists>n. M y = Some (n, disk t dev n)" "\<exists>n. M z = Some (n, disk t dev n)"
    by (rule ex, simp)+
  then obtain nx ny nz where M: "M x = Some (nx, disk t dev nx)" "M y = Some (ny, disk t dev ny)" "M z = Some (nz, disk t dev nz)"
    by (elim exE)
  have e: "M(x := None, y := None, z := None) = Map.empty" 
  proof
    fix b show "(M(x := None, y := None, z := None)) b = None" using dm domIff [of b M] by auto
  qed
  show ?thesis
  proof (rule then_release [OF h M(1)])
    fix u assume u: "locks_all dev (M(x := None)) s u" "disk u = disk t"
    show "returns (bindk (brelse y) (\<lambda>_. bindk (brelse z) (\<lambda>_. c)) u) Q"
    proof (rule then_release [OF u(1)])
      show "(M(x := None)) y = Some (ny, disk u dev ny)" using M u db by auto
      fix v assume v: "locks_all dev (M(x := None, y := None)) s v" "disk v = disk u"
      show "returns (bindk (brelse z) (\<lambda>_. c) v) Q"
      proof (rule then_release [OF v(1)])
        show "(M(x := None, y := None)) z = Some (nz, disk v dev nz)" using M u v db by auto
        fix w assume "locks_all dev (M(x := None, y := None, z := None)) s w" "disk w = disk v"
        then show "returns (c w) Q" unfolding e using c u v by simp
      qed
    qed
  qed
qed

lemma three_sel:
  assumes "distinct [b1, b2, b3]"
  shows "three i D l b1 b2 b3 b1 = Some (copy_addr i D l 0, D (copy_addr i D l 0))"
    and "three i D l b1 b2 b3 b2 = Some (copy_addr i D l 1, D (copy_addr i D l 1))"
    and "three i D l b1 b2 b3 b3 = Some (copy_addr i D l 2, D (copy_addr i D l 2))"
    and "dom (three i D l b1 b2 b3) = {b1, b2, b3}" and "card (dom (three i D l b1 b2 b3)) = 3"
    and "three i D l b1 b2 b3 b = Some (n, x) \<Longrightarrow> x = D n"
  using assms by (auto simp: three_def split: if_splits)

lemma three_only:
  assumes "distinct [b1, b2, b3]" and "replicated i D l"
  shows "three i D l b1 b2 b3 b = Some (copy_addr i D l 0, x) \<Longrightarrow> b = b1"
    and "three i D l b1 b2 b3 b = Some (copy_addr i D l 1, x) \<Longrightarrow> b = b2"
    and "three i D l b1 b2 b3 b = Some (copy_addr i D l 2, x) \<Longrightarrow> b = b3"
  using assms by (auto simp: three_def replicated_def split: if_splits)

lemma three_data_only: "replicated i D l \<Longrightarrow> data_only i D (three i D l b1 b2 b3)"
  unfolding three_def by (intro data_only_copy data_only_empty) simp_all

text \<open>The state in which a round has loaded and compared the three copies.\<close>

definition loaded :: "u32 \<Rightarrow> nat \<Rightarrow> inode \<Rightarrow> (u32 \<Rightarrow> block) \<Rightarrow> nat \<Rightarrow> nat \<Rightarrow> nat \<Rightarrow> nat \<Rightarrow> 'z fs_scheme \<Rightarrow> 'z fs_scheme \<Rightarrow> bool" where
  "loaded dev ip i D l b1 b2 b3 s u \<longleftrightarrow> icache s ip = i \<and> i_dev i = dev \<and> replicated i D l \<and> distinct [b1, b2, b3] \<and>
     locks_all dev (three i D l b1 b2 b3) s u \<and> disk u dev = D"

lemma mround_then:
  assumes h: "locks_all dev Map.empty s t" and i: "icache s ip = i" "i_dev i = dev"
    and D: "disk t dev = D" and l: "off div BSIZE = l" and r: "replicated i D l" and n: "n \<le> BSIZE"
    and a: "copy_addr i D l = a"
    and c: "\<And>b1 b2 b3 u. loaded dev ip i D l b1 b2 b3 s u \<Longrightarrow> disk u = disk t \<Longrightarrow>
      returns (readi_settle ip (l * 3) (off mod BSIZE) m b1 b2 b3
        (sdiff (D (a 0)) (D (a 1)) n, sdiff (D (a 0)) (D (a 2)) n, sdiff (D (a 1)) (D (a 2)) n)
        (blit dst tot (D (a 2)) (off mod BSIZE) m) u) Q"
  shows "returns (readi_mround ip n tot off m (False, False, False) dst t) Q"
  unfolding readi_mround_def Let_def l
proof (rule then_load [OF h i], unfold D case_prod_conv)
  fix b1 b2 b3 u assume db: "distinct [b1, b2, b3]" and u: "locks_all dev (three i D l b1 b2 b3) s u" "disk u = disk t"
  have "loaded dev ip i D l b1 b2 b3 s u" using i r db u D by (simp add: loaded_def)
  from c [OF this u(2)]
  show "returns (bindk (readi_diffs b1 b2 b3 n (False, False, False)) (\<lambda>fl'. readi_settle ip (l * 3) (off mod BSIZE) m b1 b2 b3 fl'
      (blit dst tot (D (copy_addr i D l 2)) (off mod BSIZE) m)) u) Q"
    unfolding a by (intro then_diffs [OF u(1) three_sel(1-3) [OF db] n]) (simp add: a)
qed (rule r)

lemma settle_keep:
  assumes u: "loaded dev ip i D l b1 b2 b3 s u" and f: "fl = (f, f, f)"
  shows "returns (readi_settle ip (l * 3) o1 m b1 b2 b3 fl dst u) (\<lambda>(bad, _, d) v.
    bad = f \<and> d = dst \<and> locks_all dev Map.empty s v \<and> disk v = disk u)"
proof -
  have db: "distinct [b1, b2, b3]" "distinct [b2, b1, b3]" and u1: "locks_all dev (three i D l b1 b2 b3) s u"
    and at: "\<forall>b n e. three i D l b1 b2 b3 b = Some (n, e) \<longrightarrow> e = disk u dev n"
    and dm: "dom (three i D l b1 b2 b3) = {b1, b2, b3}" "dom (three i D l b1 b2 b3) = {b2, b1, b3}"
    using u three_sel [of b1 b2 b3 i D l] by (auto simp: loaded_def)
  show ?thesis
    by (cases f) (simp_all add: f readi_settle_def bindk_ret,
      rule release_three [OF u1 db(1) dm(1) at], rule returns_ret, simp,
      rule release_three [OF u1 db(2) dm(2) at], rule returns_ret, simp)
qed

text \<open>The repair of copy \<open>k\<close> from the third one.\<close>

lemma settle_repair:
  assumes u: "loaded dev ip i D l b1 b2 b3 s u" and a: "a = copy_addr i D l"
    and k: "k = 1 \<and> fl = (True, False, True) \<or> k = 0 \<and> fl = (True, True, False)"
  shows "returns (readi_settle ip (l * 3) o1 m b1 b2 b3 fl dst u) (\<lambda>(bad, _, d) v.
    \<not> bad \<and> d = dst \<and> locks_all dev Map.empty s v \<and>
    disk v = (disk u)(dev := D(a k := blit (D (a k)) o1 (D (a 2)) o1 m)))"
proof -
  have i: "icache s ip = i" "i_dev i = dev" and r: "replicated i D l" and db: "distinct [b1, b2, b3]"
    and u1: "locks_all dev (three i D l b1 b2 b3) s u" and ud: "disk u dev = D"
    using u by (simp_all add: loaded_def)
  let ?T = "three i D l b1 b2 b3" and ?x = "blit (D (a k)) o1 (D (a 2)) o1 m"
  obtain bad keep where bk: "k = 1 \<and> bad = b2 \<and> keep = b1 \<or> k = 0 \<and> bad = b1 \<and> keep = b2" using k by blast
  note sel = three_sel [OF db] note only = three_only [OF db r]
  have k2: "k \<le> 2" using k by auto
  have bad: "?T bad = Some (a k, disk u dev (a k))" and on: "\<forall>b x. ?T b = Some (a k, x) \<longrightarrow> b = bad"
    and b3: "?T b3 = Some (a 2, D (a 2))" "b3 \<noteq> bad"
    using bk sel only db by (auto simp: a ud)
  have fin: "returns (bindk (brelse x) (\<lambda>_. bindk (brelse y) (\<lambda>_. bindk (brelse b3) (\<lambda>_. ret (False, fl, dst)))) v)
      (\<lambda>(bad, _, d) v. \<not> bad \<and> d = dst \<and> locks_all dev Map.empty s v \<and> disk v = (disk u)(dev := D(a k := ?x)))"
    if b: "(?T(bad := None)) b = None" and xy: "(x, y) = (b, keep) \<or> (x, y) = (keep, b)"
      and v: "locks_all dev (?T(bad := None, b \<mapsto> (a k, ?x))) s v" "disk v = (disk u)(dev := D(a k := ?x))" for b x y v
  proof (rule release_three [OF v(1)])
    show "distinct [x, y, b3]" using b xy bk db sel by (auto split: if_splits)
    show "dom (?T(bad := None, b \<mapsto> (a k, ?x))) = {x, y, b3}" using sel(4) db xy bk by (auto split: if_splits)
    show "\<forall>c n e. (?T(bad := None, b \<mapsto> (a k, ?x))) c = Some (n, e) \<longrightarrow> e = disk v dev n"
    proof (intro allI impI)
      fix c n e assume c: "(?T(bad := None, b \<mapsto> (a k, ?x))) c = Some (n, e)"
      show "e = disk v dev n"
      proof (cases "c = b")
        case True
        then show ?thesis using c v(2) by auto
      next
        case False
        then have T: "?T c = Some (n, e)" "c \<noteq> bad" using c by (auto split: if_splits)
        then have "n \<noteq> a k" using on by auto
        then show ?thesis using sel(6) [OF T(1)] v(2) by simp
      qed
    qed
  qed (use v in \<open>auto intro!: returns_ret\<close>)
  show ?thesis
  proof (cases "k = 1")
    case True
    then have fl: "fl = (True, False, True)" and e: "bad = b2" "keep = b1" using k bk by auto
    show ?thesis
      unfolding readi_settle_def fl Let_def case_prod_conv simp_thms if_True if_False bindk_ret
      by (rule then_repair [OF u1 i _ _ k2 _ _ bad b3 on, unfolded True e])
        (use fin True e sel(5) three_data_only [OF r] r in \<open>auto simp: ud a fl bindk_ret\<close>)
  next
    case False
    then have fl: "fl = (True, True, False)" and k0: "k = 0" and e: "bad = b1" "keep = b2" using k bk by auto
    show ?thesis
      unfolding readi_settle_def fl Let_def case_prod_conv simp_thms if_True if_False bindk_ret
      by (rule then_repair [OF u1 i _ _ k2 _ _ bad b3 on, unfolded k0 e])
        (use fin k0 e sel(5) three_data_only [OF r] r in \<open>auto simp: ud a fl bindk_ret\<close>)
  qed
qed

text \<open>
  When the third copy is the odd one, the buffer that was repaired is released without having been
  written: \<open>bwrite\<close> gets the buffer of the second copy.
\<close>

lemma settle_copy3:
  assumes u: "loaded dev ip i D l b1 b2 b3 s u" and a: "a = copy_addr i D l"
  shows "returns (readi_settle ip (l * 3) o1 m b1 b2 b3 (False, True, True) dst u) (\<lambda>(bad, _, d) v.
    \<not> bad \<and> d = dst \<and> disk v = disk u \<and>
    (\<exists>b. bufs v b = holds False dev (a 2) (blit (D (a 2)) o1 (D (a 1)) o1 m)))" (is "returns _ ?Q")
proof -
  have i: "icache s ip = i" "i_dev i = dev" and r: "replicated i D l" and db: "distinct [b1, b2, b3]"
    and u1: "locks_all dev (three i D l b1 b2 b3) s u" and ud: "disk u dev = D"
    using u by (simp_all add: loaded_def)
  let ?T = "three i D l b1 b2 b3" and ?x = "blit (D (a 2)) o1 (D (a 1)) o1 m"
  note sel = three_sel [OF db] note only = three_only [OF db r]
  let ?fin = "\<lambda>b. bindk (brelse b2) (\<lambda>_. bindk (brelse b1) (\<lambda>_. bindk (brelse b) (\<lambda>_. ret (False, (False, True, True), dst))))"
  have fin: "returns (?fin b v) ?Q"
    if b: "b \<notin> {b1, b2}" and v: "locks_all dev (?T(b3 := None, b \<mapsto> (a 2, ?x))) s v" "disk v = disk u" for b v
  proof (rule then_release [OF v(1)])
    show "(?T(b3 := None, b \<mapsto> (a 2, ?x))) b2 = Some (a 1, disk v dev (a 1))" using b db sel v ud by (simp add: a)
    fix w assume w: "locks_all dev (?T(b3 := None, b \<mapsto> (a 2, ?x), b2 := None)) s w" "disk w = disk v"
    show "returns (bindk (brelse b1) (\<lambda>_. bindk (brelse b) (\<lambda>_. ret (False, (False, True, True), dst))) w) ?Q"
    proof (rule then_release [OF w(1)])
      show "(?T(b3 := None, b \<mapsto> (a 2, ?x), b2 := None)) b1 = Some (a 0, disk w dev (a 0))"
        using b db sel v w ud by (simp add: a)
      fix y assume y: "locks_all dev (?T(b3 := None, b \<mapsto> (a 2, ?x), b2 := None, b1 := None)) s y" "disk y = disk w"
      then have "bufs y b = holds True dev (a 2) ?x" using b by (auto simp: locks_all_def)
      moreover have "nolocks y" using y by (auto simp: locks_all_def bok_def)
      ultimately show "returns (bindk (brelse b) (\<lambda>_. ret (False, (False, True, True), dst)) y) ?Q"
        using y w v by (auto simp: bindk_def brelse_eq ret_def returns_def intro!: exI [of _ b])
    qed
  qed
  show ?thesis
    unfolding readi_settle_def Let_def case_prod_conv simp_thms if_True if_False bindk_ret readi_repair_def bindk_assoc
  proof (rule then_release [OF u1])
    show "?T b3 = Some (a 2, disk u dev (a 2))" using sel ud by (simp add: a)
    fix v assume v: "locks_all dev (?T(b3 := None)) s v" "disk v = disk u"
    have vd: "disk v dev = D" using v ud by simp
    show "returns (bindk (mread ip (l * 3) 2) (\<lambda>b. bindk (copy_part b b2 o1 m) (\<lambda>_. bindk (bwrite b2) (\<lambda>_. ?fin b))) v) ?Q"
    proof (rule then_mread [OF v(1) i _ _ _ _ refl], unfold vd a [symmetric])
      show "data_only i D (?T(b3 := None))" by (rule data_only_del [OF three_data_only [OF r]])
      show "Suc (card (dom (?T(b3 := None)))) < NBUF"
        using card_Diff1_le [of "dom ?T" b3] sel(5) by (simp add: NBUF_def)
      show "\<forall>b x. (?T(b3 := None)) b \<noteq> Some (a 2, x)" using only(3) by (auto simp: a)
      fix b w assume b: "(?T(b3 := None)) b = None" and w: "locks_all dev (?T(b3 := None, b \<mapsto> (a 2, D (a 2)))) s w" "disk w = disk v"
      have bn: "b \<notin> {b1, b2}" using b sel db by (auto split: if_splits)
      have m2: "(?T(b3 := None, b \<mapsto> (a 2, y))) b2 = Some (a 1, D (a 1))" for y using bn sel db by (simp add: a)
      show "returns (bindk (copy_part b b2 o1 m) (\<lambda>_. bindk (bwrite b2) (\<lambda>_. ?fin b)) w) ?Q"
        unfolding copy_part_def bindk_assoc
      proof (rule then_data [OF w(1) m2], rule then_upd [OF w(1)])
        fix z assume z: "locks_all dev (?T(b3 := None, b \<mapsto> (a 2, D (a 2)), b \<mapsto> (a 2, ?x))) s z" "disk z = disk w"
        then have z': "locks_all dev (?T(b3 := None, b \<mapsto> (a 2, ?x))) s z" by simp
        show "returns (bindk (bwrite b2) (\<lambda>_. ?fin b) z) ?Q"
          by (rule then_write [OF z' m2], rule fin [OF bn], assumption) (use z w v ud in auto)
      qed simp
    qed (use r in simp_all)
  qed
qed

section \<open>Reading within one block\<close>

lemma readi_one_block:
  assumes i: "icache s ip = i" "i_type i = T_MIRRORED" and n: "0 < unat n" "unat off mod BSIZE + unat n \<le> BSIZE"
    and sz: "unat off + unat n \<le> unat (i_size i)"
  shows "readi ip dst off n s =
    bindk (readi_mround ip (unat n) 0 (unat off) (unat n) (False, False, False) dst)
      (\<lambda>(bad, _, d). ret (if bad then - 1 else int (unat n), d)) s"
proof -
  have un: "unat (off + n) = unat off + unat n"
    using sz unat_lt2p [of "i_size i"] by (subst unat_add_lem [THEN iffD1]) auto
  have g: "\<not> (i_size i < off \<or> off + n < off)" "\<not> i_size i < off + n" using sz un by (simp_all add: word_less_nat_alt)
  have ch: "chunk (unat n) 0 (unat off) = unat n" using n by (simp add: chunk_def)
  have sn: "sint n = int (unat n)" using n by (intro sint_small) (simp add: BSIZE_def)
  have stop: "readi_mirrored ip (unat n) (unat n) x fl d = ret (False, d)" for x fl d
    by (subst readi_mirrored.simps) simp
  have rm: "readi_mirrored ip (unat n) 0 (unat off) (False, False, False) dst =
      bindk (readi_mround ip (unat n) 0 (unat off) (unat n) (False, False, False) dst)
        (\<lambda>(bad, fl', dst'). if bad then ret (True, dst') else ret (False, dst'))"
    by (subst readi_mirrored.simps, subst if_not_P, use n in simp, unfold ch add_0 stop, rule refl)
  have nd: "\<not> T_MIRRORED = T_DEV" by (simp add: T_MIRRORED_def T_DEV_def)
  have "readi ip dst off n s = bindk (bindk (readi_mround ip (unat n) 0 (unat off) (unat n) (False, False, False) dst)
      (\<lambda>(bad, fl', dst'). if bad then ret (True, dst') else ret (False, dst')))
      (\<lambda>(bad, dst'). ret (if bad then - 1 else int (unat n), dst')) s"
    unfolding readi_def bindk_Done [OF inode_of_eq] i Let_def if_not_P [OF nd] if_not_P [OF g(1)] if_not_P [OF g(2)]
      if_P [OF refl] rm sn by (rule refl)
  then show ?thesis
    by (simp add: bindk_assoc case_prod_beta bindk_def ret_def split: outcome.splits)
qed

text \<open>The state after a read that kept the cache invariant: only the device's contents changed.\<close>

lemma mirrored_read_rule:
  assumes ok: "bok {} dev s" and i: "icache s ip = i" "i_dev i = dev" "i_type i = T_MIRRORED"
    and n: "0 < unat n" "unat off mod BSIZE + unat n \<le> BSIZE" and sz: "unat off + unat n \<le> unat (i_size i)"
    and D: "disk s dev = D" and l: "unat off div BSIZE = l" and r: "replicated i D l" and a: "copy_addr i D l = a"
    and st: "\<And>b1 b2 b3 u. loaded dev ip i D l b1 b2 b3 s u \<Longrightarrow> disk u = disk s \<Longrightarrow>
      returns (readi_settle ip (l * 3) (unat off mod BSIZE) (unat n) b1 b2 b3
        (sdiff (D (a 0)) (D (a 1)) (unat n), sdiff (D (a 0)) (D (a 2)) (unat n), sdiff (D (a 1)) (D (a 2)) (unat n))
        (blit dst 0 (D (a 2)) (unat off mod BSIZE) (unat n)) u)
        (\<lambda>(bad, _, d) u. Q (if bad then - 1 else int (unat n)) d u)"
  shows "returns (readi ip dst off n s) (\<lambda>(r, d) u. Q r d u)"
  unfolding readi_one_block [OF i(1,3) n sz]
proof (rule returns_bindk)
  show "returns (readi_mround ip (unat n) 0 (unat off) (unat n) (False, False, False) dst s)
      (\<lambda>(bad, _, d) u. Q (if bad then - 1 else int (unat n)) d u)"
    by (rule mround_then [OF locks_empty [OF ok] i(1,2) D l r _ a]) (use st n in auto)
qed (auto intro: returns_ret)

section \<open>Writing\<close>

definition copy_byte :: "inode \<Rightarrow> (u32 \<Rightarrow> block) \<Rightarrow> nat \<Rightarrow> nat \<Rightarrow> u8" where
  "copy_byte i D k x = D (copy_addr i D (x div BSIZE) k) (x mod BSIZE)"

definition range_replicated :: "inode \<Rightarrow> (u32 \<Rightarrow> block) \<Rightarrow> nat \<Rightarrow> nat \<Rightarrow> bool" where
  "range_replicated i D off m \<longleftrightarrow> (\<forall>x. off \<le> x \<and> x < off + m \<longrightarrow> replicated i D (x div BSIZE))"

text \<open>
  The counterpart of \<open>wrote\<close> for a mirrored file: in each of the three copies exactly the bytes of
  the range changed.
\<close>

definition mwrote :: "inode \<Rightarrow> (u32 \<Rightarrow> block) \<Rightarrow> (u32 \<Rightarrow> block) \<Rightarrow> nat \<Rightarrow> nat \<Rightarrow> mem \<Rightarrow> nat \<Rightarrow> bool" where
  "mwrote i D D' off m src tot \<longleftrightarrow> meta D' = meta D \<and> addr_of i D' = addr_of i D \<and>
     (\<forall>x k. replicated i D (x div BSIZE) \<and> k \<le> 2 \<longrightarrow>
        copy_byte i D' k x = (if off \<le> x \<and> x < off + m then src (tot + (x - off)) else copy_byte i D k x)) \<and>
     (\<forall>b. b \<notin> addr_of i D ` {j. mapped i D j} \<longrightarrow> D' b = D b)"

lemma mwrote_mapped: "mwrote i D D' off m src tot \<Longrightarrow> mapped i D' j = mapped i D j"
  by (simp add: mwrote_def mapped_def)

lemma mwrote_replicated: "mwrote i D D' off m src tot \<Longrightarrow> replicated i D' l = replicated i D l"
  using mwrote_mapped [of i D D' off m src tot] by (simp add: replicated_def copy_addr_def) (simp add: mwrote_def)

lemma mwrote_inj:
  "mwrote i D D' off m src tot \<Longrightarrow> inj_on (addr_of i D') {j. mapped i D' j} = inj_on (addr_of i D) {j. mapped i D j}"
  by (simp add: mwrote_mapped) (simp add: mwrote_def)

lemma mwrote_none: "mwrote i D D off 0 src tot"
  by (auto simp: mwrote_def)

lemma mwrote_trans:
  assumes w: "mwrote i D D1 off m src tot" and v: "mwrote i D1 D2 (off + m) k src (tot + m)"
  shows "mwrote i D D2 off (m + k) src tot"
proof -
  have "copy_byte i D2 c x = (if off \<le> x \<and> x < off + (m + k) then src (tot + (x - off)) else copy_byte i D c x)"
    if x: "replicated i D (x div BSIZE)" "c \<le> 2" for x c
    using w v x mwrote_replicated [OF w, of "x div BSIZE"] by (auto simp: mwrote_def)
  then show ?thesis using w v mwrote_mapped [OF w] by (simp add: mwrote_def)
qed

text \<open>One round of writing: the same part of the three copies.\<close>

definition write3 :: "(u32 \<Rightarrow> block) \<Rightarrow> (nat \<Rightarrow> u32) \<Rightarrow> nat \<Rightarrow> mem \<Rightarrow> nat \<Rightarrow> nat \<Rightarrow> (u32 \<Rightarrow> block)" where
  "write3 D a o1 src tot m = D(a 0 := blit (D (a 0)) o1 src tot m, a 1 := blit (D (a 1)) o1 src tot m,
     a 2 := blit (D (a 2)) o1 src tot m)"

lemma write3_apply:
  assumes "distinct [a 0, a 1, a 2]"
  shows "write3 D a o1 src tot m b = (if b \<in> {a 0, a 1, a 2} then blit (D b) o1 src tot m else D b)"
  using assms by (auto simp: write3_def)

lemma write3_frame:
  assumes r: "replicated i D l" and a: "a = copy_addr i D l"
  shows "meta (write3 D a o1 src tot m) = meta D" and "addr_of i (write3 D a o1 src tot m) = addr_of i D"
proof -
  note ap = replicated_apart [OF r, folded a]
  show "meta (write3 D a o1 src tot m) = meta D"
    using ap(1) [of 0] ap(1) [of 1] ap(1) [of 2] by (simp add: write3_def meta_upd)
  show "addr_of i (write3 D a o1 src tot m) = addr_of i D"
    using ap(2) [of 0] ap(2) [of 1] ap(2) [of 2] by (simp add: write3_def addr_of_upd fun_eq_iff)
qed

lemma mwrote_one:
  assumes r: "replicated i D (off div BSIZE)" and inj: "inj_on (addr_of i D) {j. mapped i D j}"
    and a: "a = copy_addr i D (off div BSIZE)"
  shows "mwrote i D (write3 D a (off mod BSIZE) src tot (chunk n tot off)) off (chunk n tot off) src tot"
    (is "mwrote i D ?D off ?m src tot")
proof -
  have dis: "distinct [a 0, a 1, a 2]" using r by (simp add: replicated_def a)
  note fr = write3_frame [OF r a, of "off mod BSIZE" src tot ?m]
  have ca: "copy_addr i ?D = copy_addr i D" by (simp add: copy_addr_def fr fun_eq_iff)
  have "copy_byte i ?D k x = (if off \<le> x \<and> x < off + ?m then src (tot + (x - off)) else copy_byte i D k x)"
    if x: "replicated i D (x div BSIZE)" "k \<le> 2" for x k
  proof (cases "x div BSIZE = off div BSIZE")
    case True
    have o': "off = off div BSIZE * BSIZE + off mod BSIZE" by (rule div_mult_mod_eq [symmetric])
    have x': "x = off div BSIZE * BSIZE + x mod BSIZE" unfolding True [symmetric] by (rule div_mult_mod_eq [symmetric])
    have in3: "a k \<in> {a 0, a 1, a 2}" using x(2) le_Suc_eq [of k 1] by (auto simp: numeral_2_eq_2 le_Suc_eq)
    have "off mod BSIZE \<le> x mod BSIZE \<and> x mod BSIZE < off mod BSIZE + ?m \<longleftrightarrow> off \<le> x \<and> x < off + ?m"
      and "x mod BSIZE - off mod BSIZE = x - off"
      using x' o' by linarith+
    then show ?thesis
      unfolding copy_byte_def ca True a [symmetric] write3_apply [OF dis] if_P [OF in3] by (simp add: blit_def)
  next
    case False
    have out: "\<not> (off \<le> x \<and> x < off + ?m)"
    proof
      assume "off \<le> x \<and> x < off + ?m"
      then have "(off + (x - off)) div BSIZE = off div BSIZE" by (intro chunk_div(1) [of _ n tot]) auto
      then show False using False \<open>off \<le> x \<and> x < off + ?m\<close> by simp
    qed
    have "copy_addr i D (x div BSIZE) k \<noteq> a j" if "j \<le> 2" for j
    proof
      assume "copy_addr i D (x div BSIZE) k = a j"
      then have "x div BSIZE * 3 + k = off div BSIZE * 3 + j"
        using inj replicated_mapped [OF x] replicated_mapped [OF r that] by (auto simp: a copy_addr_def inj_on_def)
      then show False using False x(2) that by linarith
    qed
    then have "copy_addr i D (x div BSIZE) k \<notin> {a 0, a 1, a 2}" by auto
    then show ?thesis unfolding if_not_P [OF out] copy_byte_def ca write3_apply [OF dis] by simp
  qed
  moreover have "?D b = D b" if "b \<notin> addr_of i D ` {j. mapped i D j}" for b
  proof -
    have "a k \<in> addr_of i D ` {j. mapped i D j}" if "k \<le> 2" for k
      using replicated_mapped [OF r that] by (auto simp: a copy_addr_def)
    then have "b \<notin> {a 0, a 1, a 2}" using that by auto
    then show ?thesis by (simp add: write3_apply [OF dis])
  qed
  ultimately show ?thesis by (simp add: mwrote_def fr)
qed

lemma then_mwrite:
  assumes h: "locks_all dev Map.empty s t" and i: "icache s ip = i" "i_dev i = dev"
    and r: "replicated i (disk t dev) l" "k \<le> 2" and a: "a = copy_addr i (disk t dev) l k"
    and c: "\<And>u. locks_all dev Map.empty s u \<Longrightarrow>
      disk u = (disk t)(dev := (disk t dev)(a := blit (disk t dev a) o1 src tot m)) \<Longrightarrow> returns (c u) Q"
  shows "returns (bindk (mwrite ip (l * 3) k o1 src tot m) (\<lambda>_. c) t) Q"
  unfolding mwrite_def bindk_assoc
proof (rule then_mread [OF h i data_only_empty r _ a])
  let ?x = "blit (disk t dev a) o1 src tot m"
  fix b u assume u: "locks_all dev [b \<mapsto> (a, disk t dev a)] s u" "disk u = disk t"
  show "returns (bindk (upd_data b (\<lambda>d. blit d o1 src tot m)) (\<lambda>_. bindk (bwrite b) (\<lambda>_. bindk (brelse b) (\<lambda>_. c))) u) Q"
  proof (rule then_upd [OF u(1)])
    show "[b \<mapsto> (a, disk t dev a)] b = Some (a, disk t dev a)" by simp
    fix v assume "locks_all dev ([b \<mapsto> (a, disk t dev a)](b \<mapsto> (a, ?x))) s v" "disk v = disk u"
    then have v: "locks_all dev [b \<mapsto> (a, ?x)] s v" "disk v = disk t" using u by simp_all
    show "returns (bindk (bwrite b) (\<lambda>_. bindk (brelse b) (\<lambda>_. c)) v) Q"
      by (rule then_write [OF v(1), of _ a], simp, rule then_release [where n = a], assumption) (use u v c in auto)
  qed
qed (simp_all add: NBUF_def)

lemma writei_mirrored_rule:
  assumes "locks_all dev Map.empty s t" and "icache s ip = i" and "i_dev i = dev"
    and "range_replicated i (disk t dev) off (n - tot)" and "tot \<le> n"
    and "inj_on (addr_of i (disk t dev)) {j. mapped i (disk t dev) j}"
  shows "returns (writei_mirrored ip n tot off src t) (\<lambda>r u. r = off + (n - tot) \<and> locks_all dev Map.empty s u \<and>
    (\<exists>D. disk u = (disk t)(dev := D) \<and> mwrote i (disk t dev) D off (n - tot) src tot))"
  using assms
proof (induction ip n tot off src arbitrary: t rule: writei_mirrored.induct)
  case (1 ip n tot off src)
  let ?D = "disk t dev" and ?m = "chunk n tot off" and ?l = "off div BSIZE" and ?o = "off mod BSIZE"
  let ?a = "copy_addr i ?D ?l"
  let ?Q = "\<lambda>r u. r = off + (n - tot) \<and> locks_all dev Map.empty s u \<and>
    (\<exists>D. disk u = (disk t)(dev := D) \<and> mwrote i ?D D off (n - tot) src tot)"
  show ?case
  proof (cases "n \<le> tot")
    case True
    then have "?Q off t" using 1 mwrote_none [of i ?D off src tot] by (auto intro!: exI [of _ ?D])
    then show ?thesis using True by (subst writei_mirrored.simps) (simp add: returns_ret)
  next
    case False
    have r: "replicated i ?D ?l" using 1 False by (auto simp: range_replicated_def)
    note ap = replicated_apart [OF r]
    have dis: "?a 0 \<noteq> ?a 1" "?a 1 \<noteq> ?a 2" "?a 0 \<noteq> ?a 2" using r by (auto simp: replicated_def)
    let ?b = "\<lambda>k. blit (?D (?a k)) ?o src tot ?m"
    let ?D3 = "write3 ?D ?a ?o src tot ?m"
    have w1: "mwrote i ?D ?D3 off ?m src tot" by (rule mwrote_one [OF r 1(7) refl])
    have le: "tot + ?m \<le> n" using 1 by (intro chunk_le) simp
    have next_: "returns (writei_mirrored ip n (tot + ?m) (off + ?m) src v) ?Q"
      if v: "locks_all dev Map.empty s v" "disk v = (disk t)(dev := ?D3)" for v
    proof -
      have vd: "disk v dev = ?D3" using v by simp
      have "range_replicated i (disk v dev) (off + ?m) (n - (tot + ?m))"
        and "inj_on (addr_of i (disk v dev)) {j. mapped i (disk v dev) j}"
        unfolding vd mwrote_inj [OF w1] range_replicated_def mwrote_replicated [OF w1]
        using 1 by (auto simp: range_replicated_def)
      then have "returns (writei_mirrored ip n (tot + ?m) (off + ?m) src v) (\<lambda>r u. r = (off + ?m) + (n - (tot + ?m)) \<and>
          locks_all dev Map.empty s u \<and> (\<exists>D. disk u = (disk v)(dev := D) \<and>
          mwrote i (disk v dev) D (off + ?m) (n - (tot + ?m)) src (tot + ?m)))"
        by (intro "1.IH" [OF False refl refl refl v(1) 1(3,4) _ le])
      then show ?thesis
      proof (rule returns_mono, elim conjE exE)
        fix r u D assume u: "r = (off + ?m) + (n - (tot + ?m))" "locks_all dev Map.empty s u" "disk u = (disk v)(dev := D)"
          and w2: "mwrote i (disk v dev) D (off + ?m) (n - (tot + ?m)) src (tot + ?m)"
        have "?m + (n - (tot + ?m)) = n - tot" using le by simp
        then have "mwrote i ?D D off (n - tot) src tot" using mwrote_trans [OF w1 w2 [unfolded vd]] by simp
        then show "?Q r u" using u v le by (intro conjI exI [of _ D]) simp_all
      qed
    qed
    let ?k = "\<lambda>_. writei_mirrored ip n (tot + ?m) (off + ?m) src"
    have w3: "returns (bindk (mwrite ip (?l * 3) 2 ?o src tot ?m) ?k v) ?Q"
      if v: "locks_all dev Map.empty s v" "disk v = (disk t)(dev := ?D(?a 0 := ?b 0, ?a 1 := ?b 1))" for v
      by (rule then_mwrite [OF v(1) 1(3,4)], insert ap dis, simp_all add: v copy_addr_upd replicated_upd meta_upd r)
        (rule next_, assumption, simp add: write3_def)
    have w2: "returns (bindk (mwrite ip (?l * 3) 1 ?o src tot ?m) (\<lambda>_. bindk (mwrite ip (?l * 3) 2 ?o src tot ?m) ?k) v) ?Q"
      if v: "locks_all dev Map.empty s v" "disk v = (disk t)(dev := ?D(?a 0 := ?b 0))" for v
      by (rule then_mwrite [OF v(1) 1(3,4)], insert ap dis, simp_all add: v copy_addr_upd replicated_upd meta_upd r)
        (rule w3 [unfolded One_nat_def], assumption, simp)
    have w0: "returns (bindk (mwrite ip (?l * 3) 0 ?o src tot ?m) (\<lambda>_. bindk (mwrite ip (?l * 3) 1 ?o src tot ?m)
        (\<lambda>_. bindk (mwrite ip (?l * 3) 2 ?o src tot ?m) ?k)) v) ?Q"
      if v: "locks_all dev Map.empty s v" "disk v = disk t" for v
      by (rule then_mwrite [OF v(1) 1(3,4)], insert ap dis, simp_all only: v r)
        (rule w2, assumption+)
    have room: "Suc (card (dom (Map.empty :: nat \<rightharpoonup> u32 \<times> block))) < NBUF" by (simp add: NBUF_def)
    show ?thesis
      by (subst writei_mirrored.simps, subst if_not_P [OF False], unfold Let_def,
          rule then_mbmap [OF 1(2-4) data_only_empty r _ room], simp,
          rule then_mbmap [OF _ 1(3,4) data_only_empty _ _ room], assumption, simp add: r, simp,
          rule then_mbmap [OF _ 1(3,4) data_only_empty _ _ room], assumption, simp add: r, simp,
          rule w0) simp_all
  qed
qed

lemma copy_byte_iblock:
  assumes own: "own_blocks i D" and r: "replicated i D (x div BSIZE)" "k \<le> 2"
  shows "copy_byte i (D(IBLOCK (i_inum i) := y)) k x = copy_byte i D k x"
  using assms replicated_mapped [OF r] by (auto simp: own_blocks_def copy_byte_def copy_addr_upd) (auto simp: copy_addr_def)

lemma replicated_iblock:
  "own_blocks i D \<Longrightarrow> replicated i (D(IBLOCK (i_inum i) := y)) l = replicated i D l"
  by (simp add: own_blocks_def replicated_upd)

lemma own_blocks_mwrote: "mwrote i D D' off m src tot \<Longrightarrow> own_blocks i D \<Longrightarrow> own_blocks i D'"
  using mwrote_inj [of i D D' off m src tot] mwrote_mapped [of i D D' off m src tot]
  by (simp add: own_blocks_def) (simp add: mwrote_def)

lemma size_irrelevant3 [simp]:
  "copy_addr (i\<lparr>i_size := z\<rparr>) = copy_addr i" "replicated (i\<lparr>i_size := z\<rparr>) = replicated i"
  by (simp_all add: copy_addr_def replicated_def fun_eq_iff)

lemma writei_mirror_rule:
  assumes ok: "bok {} dev s" and i: "icache s ip = i" "i_dev i = dev" "i_type i = T_MIRRORED"
    and off: "unat off \<le> unat (i_size i)" "unat off + unat n \<le> MAXFILE * BSIZE"
    and rr: "range_replicated i (disk s dev) (unat off) (unat n)" and own: "own_blocks i (disk s dev)"
  shows "returns (writei ip src off n s) (\<lambda>r t. r = int (unat n) \<and>
    (\<exists>D. ended dev ip s (unat off) (unat n) D t \<and> mwrote i (disk s dev) D (unat off) (unat n) src 0))"
proof -
  have nd: "i_type i \<noteq> T_DEV" using i by (simp add: T_MIRRORED_def T_DEV_def)
  have "returns (writei_mirrored ip (unat n) 0 (unat off) src s) (\<lambda>r u. r = unat off + (unat n - 0) \<and>
      locks_all dev Map.empty s u \<and> (\<exists>D. disk u = (disk s)(dev := D) \<and>
      mwrote i (disk s dev) D (unat off) (unat n - 0) src 0))"
    by (rule writei_mirrored_rule [OF locks_empty [OF ok] i(1,2)]) (use rr own in \<open>simp_all add: own_blocks_def\<close>)
  then show ?thesis
    unfolding writei_eq [OF i(1) nd off] if_P [OF i(3)]
  proof (rule returns_bindk, elim conjE exE)
    fix r u D assume "r = unat off + (unat n - 0)" "locks_all dev Map.empty s u" "disk u = (disk s)(dev := D)"
      "mwrote i (disk s dev) D (unat off) (unat n - 0) src 0"
    then show "returns (writei_end ip n r u) (\<lambda>r t. r = int (unat n) \<and>
        (\<exists>D. ended dev ip s (unat off) (unat n) D t \<and> mwrote i (disk s dev) D (unat off) (unat n) src 0))"
      by (intro returns_mono [OF writei_end_rule [OF locks_empty_bpost i(1,2) off(2)]]) auto
  qed
qed

end
