(* ===== verification/Interfaces.thy ===== *)
theory Interfaces
  imports Kernel_Prelude
begin

text \<open>
  Contracts that several parts of the system share: tables searched for their first free slot, and
  ring buffers addressed by two counters that wrap at 32 bits. Each is a locale whose lemmas are
  proved once; the theories of the parts interpret them on their own definitions.
\<close>

section \<open>Tables with free slots\<close>

text \<open>
  \<open>unused t i\<close>: slot \<open>i\<close> of table \<open>t\<close> is free; \<open>take_slot t i\<close>: the table after the slot was
  taken; \<open>lim\<close>: the number of slots.
\<close>

locale slot_table =
  fixes unused :: "'t \<Rightarrow> nat \<Rightarrow> bool" and take_slot :: "'t \<Rightarrow> nat \<Rightarrow> 't" and lim :: nat
  assumes taken_used: "\<not> unused (take_slot t i) i"
    and take_others: "j \<noteq> i \<Longrightarrow> unused (take_slot t i) j = unused t j"
begin

definition first :: "'t \<Rightarrow> nat option" where
  "first t = find (unused t) [0..<lim]"

definition n_unused :: "'t \<Rightarrow> nat" where
  "n_unused t = card {i. i < lim \<and> unused t i}"

lemma first_Some: "first t = Some i \<longleftrightarrow> i < lim \<and> unused t i \<and> (\<forall>j<i. \<not> unused t j)"
proof
  assume "first t = Some i"
  then obtain k where "k < lim" "[0..<lim] ! k = i" "unused t i" "\<forall>j<k. \<not> unused t ([0..<lim] ! j)"
    by (auto simp: first_def find_Some_iff)
  then show "i < lim \<and> unused t i \<and> (\<forall>j<i. \<not> unused t j)" by auto
next
  assume "i < lim \<and> unused t i \<and> (\<forall>j<i. \<not> unused t j)"
  then show "first t = Some i" unfolding first_def find_Some_iff by (intro exI [of _ i]) auto
qed

lemma first_None: "first t = None \<longleftrightarrow> n_unused t = 0"
  by (auto simp: first_def find_None_iff n_unused_def)

lemma n_unused_take:
  assumes "first t = Some i" shows "Suc (n_unused (take_slot t i)) = n_unused t"
proof -
  have i: "i < lim" "unused t i" using assms by (auto simp: first_Some)
  have "{j. j < lim \<and> unused t j} = insert i {j. j < lim \<and> unused (take_slot t i) j}"
    using i taken_used take_others by (auto, metis)
  moreover have "i \<notin> {j. j < lim \<and> unused (take_slot t i) j}" using taken_used by auto
  ultimately show ?thesis unfolding n_unused_def by simp
qed

lemma next_first:
  assumes "first t = Some i" and "first (take_slot t i) = Some j" shows "i < j"
proof -
  have "j \<noteq> i" using assms taken_used by (auto simp: first_Some)
  moreover have "\<not> j < i" using assms take_others by (auto simp: first_Some)
  ultimately show ?thesis by simp
qed

end

section \<open>Ring buffers\<close>

text \<open>
  A buffer of \<open>cap\<close> slots with a read and a write counter of 32 bits; a counter's slot is its
  value modulo \<open>cap\<close>. \<open>cap\<close> divides \<open>2 ^ 32\<close>, so slots stay consistent when the counters wrap.
\<close>

locale ring =
  fixes cap :: nat and data :: "'r \<Rightarrow> nat \<Rightarrow> u8" and rd :: "'r \<Rightarrow> u32" and wr :: "'r \<Rightarrow> u32"
    and put :: "u8 \<Rightarrow> 'r \<Rightarrow> 'r" and pop :: "'r \<Rightarrow> 'r"
  assumes cap_pos: "0 < cap" and cap_lt: "cap < 2 ^ 32" and cap_dvd: "cap dvd 2 ^ 32"
    and put_data: "data (put c r) = (data r)(unat (wr r) mod cap := c)"
    and put_wr: "wr (put c r) = wr r + 1" and put_rd: "rd (put c r) = rd r"
    and pop_data: "data (pop r) = data r" and pop_rd: "rd (pop r) = rd r + 1" and pop_wr: "wr (pop r) = wr r"
begin

definition len :: "'r \<Rightarrow> nat" where
  "len r = unat (wr r - rd r)"

definition ok :: "'r \<Rightarrow> bool" where
  "ok r = (len r \<le> cap)"

text \<open>The bytes in the buffer, oldest first.\<close>

definition contents :: "'r \<Rightarrow> u8 list" where
  "contents r = map (\<lambda>k. data r (unat (rd r + of_nat k) mod cap)) [0..<len r]"

lemma length_contents [simp]: "length (contents r) = len r"
  by (simp add: contents_def)

lemma rd_plus_len: "rd r + of_nat (len r) = wr r"
  by (simp add: len_def)

lemma slot_add: "unat (x + of_nat k :: u32) mod cap = (unat x + k) mod cap"
proof -
  obtain m where m: "2 ^ 32 = cap * m" using cap_dvd by (elim dvdE)
  have "unat (x + of_nat k) = (unat x + k) mod 2 ^ 32"
    by (simp add: unat_word_ariths unat_of_nat take_bit_eq_mod mod_simps)
  then show ?thesis unfolding m by (simp add: mod_mult2_eq)
qed

lemma slots_distinct:
  assumes "j < k" and "k \<le> cap" and "k - j < cap"
  shows "unat (x + of_nat j :: u32) mod cap \<noteq> unat (x + of_nat k) mod cap"
proof
  assume "unat (x + of_nat j :: u32) mod cap = unat (x + of_nat k) mod cap"
  then have "(unat x + j) mod cap = (unat x + k) mod cap" by (simp add: slot_add)
  then have "cap dvd (unat x + k) - (unat x + j)" using assms(1) by (subst mod_eq_dvd_iff_nat [symmetric]) simp_all
  then show False using assms by (auto dest: dvd_imp_le)
qed

lemma len_put:
  assumes "ok r" and "len r \<noteq> cap"
  shows "len (put c r) = Suc (len r)"
proof -
  have "Suc (len r) < 2 ^ 32" using assms cap_lt by (simp add: ok_def)
  moreover have "wr (put c r) - rd (put c r) = of_nat (Suc (len r))" by (simp add: put_wr put_rd len_def)
  ultimately show ?thesis unfolding len_def by (simp del: of_nat_Suc add: len_def [symmetric])
qed

lemma put_contents:
  assumes "ok r" and "len r \<noteq> cap"
  shows "contents (put c r) = contents r @ [c]" and "ok (put c r)"
proof -
  have lt: "len r < cap" using assms by (simp add: ok_def)
  show "ok (put c r)" using lt len_put [OF assms] by (simp add: ok_def)
  have "data (put c r) (unat (rd r + of_nat k) mod cap) = data r (unat (rd r + of_nat k) mod cap)"
    if "k < len r" for k
    using slots_distinct [of k "len r" "rd r"] that lt
    by (simp add: put_data rd_plus_len [symmetric] del: of_nat_diff)
  moreover have "data (put c r) (unat (rd r + of_nat (len r)) mod cap) = c"
    by (simp add: put_data rd_plus_len)
  ultimately show "contents (put c r) = contents r @ [c]"
    by (simp add: contents_def len_put [OF assms] put_rd)
qed

lemma len_pop:
  assumes "0 < len r" shows "len (pop r) = len r - 1"
proof -
  have "wr (pop r) - rd (pop r) = (wr r - rd r) - 1" by (simp add: pop_wr pop_rd)
  moreover have "1 \<le> wr r - rd r" using assms by (simp add: len_def word_le_nat_alt)
  ultimately show ?thesis using unat_sub [of 1 "wr r - rd r"] by (simp only: len_def) simp
qed

lemma pop_contents:
  assumes "0 < len r"
  shows "contents r = data r (unat (rd r) mod cap) # contents (pop r)" and "ok r \<Longrightarrow> ok (pop r)"
proof -
  show "ok r \<Longrightarrow> ok (pop r)" using len_pop [OF assms] by (simp add: ok_def)
  have "[0..<len r] = 0 # map Suc [0..<len (pop r)]"
    using assms len_pop [OF assms] by (simp only: map_Suc_upt upt_conv_Cons [OF assms]) simp
  then show "contents r = data r (unat (rd r) mod cap) # contents (pop r)"
    by (simp add: contents_def pop_data pop_rd o_def add.assoc)
qed

lemma empty_iff: "rd r = wr r \<longleftrightarrow> contents r = []"
  by (auto simp: contents_def len_def unat_eq_zero)

lemma full_iff: "wr r = rd r + of_nat cap \<longleftrightarrow> len r = cap"
proof
  assume "wr r = rd r + of_nat cap"
  then show "len r = cap" using cap_lt by (simp add: len_def)
next
  assume "len r = cap"
  then show "wr r = rd r + of_nat cap" using rd_plus_len [of r] by simp
qed

end

end
