(* ===== verification/Pipe.thy ===== *)
theory Pipe
  imports Fs_File Interfaces
begin

text \<open>
  Pipes (\<open>kernel/pipe.c\<close>). A \<open>struct pipe\<close> fills a page from \<open>kalloc\<close>; a pipe pointer is
  the address of that page, and \<open>pipes\<close> gives the structure at each address. The state also
  has the open file table of \<open>kernel/file.c\<close> and the user memory of the current process.
  \<open>nread\<close> and \<open>nwrite\<close> are 32-bit counters that are never reset and wrap.
\<close>

definition PIPESIZE :: nat where "PIPESIZE = 512"
definition NFILE :: nat where "NFILE = 100"

record pipe =
  pp_data :: "nat \<Rightarrow> u8"
  pp_nread :: u32
  pp_nwrite :: u32
  pp_readopen :: bool
  pp_writeopen :: bool

datatype fdtype = FD_NONE | FD_PIPE | FD_INODE

record xfile =
  f_type :: fdtype
  f_ref :: int
  f_readable :: bool
  f_writable :: bool
  f_pipe :: u32
  f_ip :: nat
  f_off :: u32

record files = console +
  ftable :: "nat \<Rightarrow> xfile"
  pipes :: "u32 \<Rightarrow> pipe"
  umem :: "nat \<Rightarrow> u8"

lemma unlocked_files [simp]:
  "unlocked lk (s\<lparr>ftable := x0\<rparr>) = unlocked lk s"
  "unlocked lk (s\<lparr>pipes := x1\<rparr>) = unlocked lk s"
  "unlocked lk (s\<lparr>umem := x2\<rparr>) = unlocked lk s"
  by (simp_all add: unlocked_def)

lemma nolocks_files [simp]:
  "nolocks (s\<lparr>ftable := x0\<rparr>) = nolocks s"
  "nolocks (s\<lparr>pipes := x1\<rparr>) = nolocks s"
  "nolocks (s\<lparr>umem := x2\<rparr>) = nolocks s"
  by (simp_all add: nolocks_def)

section \<open>The ring buffer\<close>

text \<open>The tests and updates of the two copying loops.\<close>

definition pipe_full :: "pipe \<Rightarrow> bool" where
  "pipe_full p = (pp_nwrite p = pp_nread p + of_nat PIPESIZE)"

definition pipe_empty :: "pipe \<Rightarrow> bool" where
  "pipe_empty p = (pp_nread p = pp_nwrite p)"

definition pipe_put :: "u8 \<Rightarrow> pipe \<Rightarrow> pipe" where
  "pipe_put c p = p\<lparr>pp_data := (pp_data p)(unat (pp_nwrite p) mod PIPESIZE := c), pp_nwrite := pp_nwrite p + 1\<rparr>"

definition pipe_front :: "pipe \<Rightarrow> u8" where
  "pipe_front p = pp_data p (unat (pp_nread p) mod PIPESIZE)"

definition pipe_pop :: "pipe \<Rightarrow> pipe" where
  "pipe_pop p = p\<lparr>pp_nread := pp_nread p + 1\<rparr>"

section \<open>Operations\<close>

definition pipe_of :: "u32 \<Rightarrow> ('z files_scheme, pipe) km" where
  "pipe_of p = getk (\<lambda>s. pipes s p)"

definition upd_pipe :: "u32 \<Rightarrow> (pipe \<Rightarrow> pipe) \<Rightarrow> ('z files_scheme, unit) km" where
  "upd_pipe p f = modk (\<lambda>s. s\<lparr>pipes := (pipes s)(p := f (pipes s p))\<rparr>)"

definition pipeclose :: "u32 \<Rightarrow> bool \<Rightarrow> ('z files_scheme, unit) km" where
  "pipeclose p writable =
     bindk (acq (LkPipe (unat p))) (\<lambda>_.
     bindk (if writable then
        bindk (upd_pipe p (\<lambda>q. q\<lparr>pp_writeopen := False\<rparr>)) (\<lambda>_.
        wakeup (ChPipeR (unat p)))
      else
        bindk (upd_pipe p (\<lambda>q. q\<lparr>pp_readopen := False\<rparr>)) (\<lambda>_.
        wakeup (ChPipeW (unat p)))) (\<lambda>_.
     bindk (pipe_of p) (\<lambda>q.
     if \<not> pp_readopen q \<and> \<not> pp_writeopen q then
       bindk (rel (LkPipe (unat p))) (\<lambda>_.
       kfree p)
     else rel (LkPipe (unat p)))))"

text \<open>
  One round of the loop of \<open>pipewrite\<close>; \<open>Some (-1)\<close> when the writer gives up. On a full pipe
  the writer wakes the readers and sleeps.
\<close>

definition pipewrite_round :: "u32 \<Rightarrow> mem \<Rightarrow> nat \<Rightarrow> ('z files_scheme, int option) km" where
  "pipewrite_round p addr i =
     bindk (pipe_of p) (\<lambda>q.
     if pipe_full q then
       bindk myslot (\<lambda>me.
       if \<not> pp_readopen q \<or> p_killed me then
         bindk (rel (LkPipe (unat p))) (\<lambda>_.
         ret (Some (- 1)))
       else
         bindk (wakeup (ChPipeR (unat p))) (\<lambda>_.
         bindk (sleep (ChPipeW (unat p)) (Some (LkPipe (unat p)))) (\<lambda>_.
         ret None)))
     else
       bindk (upd_pipe p (pipe_put (addr i))) (\<lambda>_.
       ret None))"

definition pipewrite :: "u32 \<Rightarrow> mem \<Rightarrow> int \<Rightarrow> ('z files_scheme, int) km" where
  "pipewrite p addr n =
     bindk (acq (LkPipe (unat p))) (\<lambda>_.
     bindk (search (pipewrite_round p addr) [0..<nat n]) (\<lambda>r.
     case r of Some v \<Rightarrow> ret v
     | None \<Rightarrow>
         bindk (wakeup (ChPipeR (unat p))) (\<lambda>_.
         bindk (rel (LkPipe (unat p))) (\<lambda>_.
         ret n))))"

text \<open>The copying loop of \<open>piperead\<close>: the bytes it stores at \<open>addr\<close>.\<close>

primrec piperead_loop :: "u32 \<Rightarrow> nat \<Rightarrow> ('z files_scheme, u8 list) km" where
  "piperead_loop p 0 = ret []"
| "piperead_loop p (Suc n) =
     bindk (pipe_of p) (\<lambda>q.
     if pipe_empty q then ret []
     else
       bindk (upd_pipe p pipe_pop) (\<lambda>_.
       bindk (piperead_loop p n) (\<lambda>bs.
       ret (pipe_front q # bs))))"

definition store_bytes :: "mem \<Rightarrow> u8 list \<Rightarrow> mem" where
  "store_bytes dst bs = (\<lambda>i. if i < length bs then bs ! i else dst i)"

definition piperead :: "u32 \<Rightarrow> mem \<Rightarrow> int \<Rightarrow> ('z files_scheme, int \<times> mem) km" where
  "piperead p addr n =
     bindk (acq (LkPipe (unat p))) (\<lambda>_.
     bindk (pipe_of p) (\<lambda>q.
     if pipe_empty q \<and> pp_writeopen q then
       bindk myslot (\<lambda>me.
       if p_killed me then
         bindk (rel (LkPipe (unat p))) (\<lambda>_.
         ret (- 1, addr))
       else
         bindk (sleep (ChPipeR (unat p)) (Some (LkPipe (unat p)))) (\<lambda>_.
         ret (0, addr)))
     else
       bindk (piperead_loop p (nat n)) (\<lambda>bs.
       bindk (wakeup (ChPipeW (unat p))) (\<lambda>_.
       bindk (rel (LkPipe (unat p))) (\<lambda>_.
       ret (int (length bs), store_bytes addr bs))))))"

section \<open>The pipe as a byte queue\<close>

interpretation pr: ring PIPESIZE pp_data pp_nread pp_nwrite pipe_put pipe_pop
  by unfold_locales (simp_all add: PIPESIZE_def pipe_put_def pipe_pop_def dvd_eq_mod_eq_0)

text \<open>The bytes waiting in a pipe, and whether the counters are consistent.\<close>

definition pipe_bytes :: "pipe \<Rightarrow> u8 list" where
  "pipe_bytes q = map (\<lambda>k. pp_data q (unat (pp_nread q + of_nat k) mod PIPESIZE)) [0..<unat (pp_nwrite q - pp_nread q)]"

definition pipe_ok :: "pipe \<Rightarrow> bool" where
  "pipe_ok q = (unat (pp_nwrite q - pp_nread q) \<le> PIPESIZE)"

lemma pipe_bytes_ring: "pipe_bytes q = pr.contents q" "pipe_ok q = pr.ok q"
  by (simp_all add: pipe_bytes_def pipe_ok_def pr.contents_def pr.ok_def pr.len_def)

lemma pipe_empty_iff: "pipe_empty q \<longleftrightarrow> pipe_bytes q = []"
  by (simp add: pipe_empty_def pipe_bytes_ring pr.empty_iff)

lemma pipe_full_iff: "pipe_full q \<longleftrightarrow> length (pipe_bytes q) = PIPESIZE"
  by (simp add: pipe_full_def pipe_bytes_ring pr.full_iff)

lemma pipe_put_bytes:
  assumes "pipe_ok q" and "\<not> pipe_full q"
  shows "pipe_bytes (pipe_put c q) = pipe_bytes q @ [c]" and "pipe_ok (pipe_put c q)"
  using assms pr.put_contents [of q c] by (simp_all add: pipe_full_iff pipe_bytes_ring)

lemma pipe_pop_bytes:
  assumes "\<not> pipe_empty q"
  shows "pipe_bytes q = pipe_front q # pipe_bytes (pipe_pop q)" and "pipe_ok q \<Longrightarrow> pipe_ok (pipe_pop q)"
proof -
  have "0 < pr.len q"
    using assms unfolding pipe_empty_iff pipe_bytes_ring by (simp flip: pr.length_contents)
  then show "pipe_bytes q = pipe_front q # pipe_bytes (pipe_pop q)" "pipe_ok q \<Longrightarrow> pipe_ok (pipe_pop q)"
    using pr.pop_contents [of q] by (simp_all add: pipe_bytes_ring pipe_front_def)
qed

lemma pipe_bytes_le: "pipe_ok q \<Longrightarrow> length (pipe_bytes q) \<le> PIPESIZE"
  by (simp add: pipe_ok_def pipe_bytes_def)

lemma upd_pipe_eq [exec]: "upd_pipe p f s = Done () (s\<lparr>pipes := (pipes s)(p := f (pipes s p))\<rparr>)"
  by (simp add: upd_pipe_def exec)

lemma pipe_of_eq [exec]: "pipe_of p s = Done (pipes s p) s"
  by (simp add: pipe_of_def exec)

lemma open_flags:
  "pp_readopen (pipe_put c q) = pp_readopen q" "pp_writeopen (pipe_put c q) = pp_writeopen q"
  "pp_readopen (pipe_pop q) = pp_readopen q" "pp_writeopen (pipe_pop q) = pp_writeopen q"
  by (simp_all add: pipe_put_def pipe_pop_def)

lemma pipes_at: "pipes (s\<lparr>pipes := f(p := q)\<rparr>) p = q"
  by simp

lemma pipewrite_loop:
  assumes "pipe_ok (pipes s p)" and "length (pipe_bytes (pipes s p)) + length is \<le> PIPESIZE"
  shows "\<exists>q. search (pipewrite_round p addr) is s = Done None (s\<lparr>pipes := (pipes s)(p := q)\<rparr>) \<and>
    pipe_ok q \<and> pipe_bytes q = pipe_bytes (pipes s p) @ map addr is \<and>
    pp_readopen q = pp_readopen (pipes s p) \<and> pp_writeopen q = pp_writeopen (pipes s p)"
  using assms
proof (induction "is" arbitrary: s)
  case Nil
  then show ?case by (intro exI [of _ "pipes s p"]) (simp add: exec)
next
  case (Cons i "is")
  let ?s1 = "s\<lparr>pipes := (pipes s)(p := pipe_put (addr i) (pipes s p))\<rparr>"
  have nf: "\<not> pipe_full (pipes s p)" using Cons.prems by (simp add: pipe_full_iff)
  note put = pipe_put_bytes [OF Cons.prems(1) nf]
  have r: "pipewrite_round p addr i s = Done None ?s1" using nf by (simp add: pipewrite_round_def exec)
  have pre: "pipe_ok (pipes ?s1 p)" "length (pipe_bytes (pipes ?s1 p)) + length is \<le> PIPESIZE"
    using Cons.prems put by simp_all
  obtain q where "search (pipewrite_round p addr) is ?s1 = Done None (?s1\<lparr>pipes := (pipes ?s1)(p := q)\<rparr>)"
    "pipe_ok q" "pipe_bytes q = pipe_bytes (pipes ?s1 p) @ map addr is"
    "pp_readopen q = pp_readopen (pipes ?s1 p)" "pp_writeopen q = pp_writeopen (pipes ?s1 p)"
    using Cons.IH [OF pre] by blast
  note q = this
  have "search (pipewrite_round p addr) (i # is) s = Done None (s\<lparr>pipes := (pipes s)(p := q)\<rparr>)"
    using q(1) by (simp add: bindk_def r)
  moreover have "pipe_bytes q = pipe_bytes (pipes s p) @ map addr (i # is)" using q(3) put(1) by simp
  ultimately show ?case using q(2,4,5) by (intro exI [of _ q] conjI) (simp_all only: open_flags pipes_at)
qed

lemma piperead_loop_eq:
  "\<exists>q. piperead_loop p n s = Done (take n (pipe_bytes (pipes s p))) (s\<lparr>pipes := (pipes s)(p := q)\<rparr>) \<and>
    (pipe_ok (pipes s p) \<longrightarrow> pipe_ok q) \<and> pipe_bytes q = drop n (pipe_bytes (pipes s p)) \<and>
    pp_readopen q = pp_readopen (pipes s p) \<and> pp_writeopen q = pp_writeopen (pipes s p)"
proof (induction n arbitrary: s)
  case 0
  then show ?case by (intro exI [of _ "pipes s p"]) (simp add: exec)
next
  case (Suc n)
  show ?case
  proof (cases "pipe_empty (pipes s p)")
    case True
    then show ?thesis by (intro exI [of _ "pipes s p"]) (simp add: exec pipe_empty_iff)
  next
    case False
    let ?s1 = "s\<lparr>pipes := (pipes s)(p := pipe_pop (pipes s p))\<rparr>"
    define bs where "bs = pipe_bytes (pipe_pop (pipes s p))"
    have b: "pipe_bytes (pipes s p) = pipe_front (pipes s p) # bs" using pipe_pop_bytes(1) [OF False] by (simp add: bs_def)
    obtain q where q: "piperead_loop p n ?s1 = Done (take n bs) (?s1\<lparr>pipes := (pipes ?s1)(p := q)\<rparr>)"
      "pipe_ok (pipe_pop (pipes s p)) \<longrightarrow> pipe_ok q" "pipe_bytes q = drop n bs"
      "pp_readopen q = pp_readopen (pipe_pop (pipes s p))" "pp_writeopen q = pp_writeopen (pipe_pop (pipes s p))"
      using Suc [of ?s1] unfolding pipes_at bs_def by blast
    have "piperead_loop p (Suc n) s = Done (take (Suc n) (pipe_bytes (pipes s p))) (s\<lparr>pipes := (pipes s)(p := q)\<rparr>)"
      using False q(1) by (simp add: bindk_def pipe_of_eq upd_pipe_eq ret_def b)
    moreover have "pipe_bytes q = drop (Suc n) (pipe_bytes (pipes s p))" using q(3) b by simp
    ultimately show ?thesis using q(2,4,5) pipe_pop_bytes(2) [OF False]
      by (intro exI [of _ q] conjI) (simp_all only: open_flags, blast)
  qed
qed

lemma pipewrite_eq:
  assumes nl: "nolocks s" and ok: "pipe_ok (pipes s p)"
    and room: "length (pipe_bytes (pipes s p)) + nat n \<le> PIPESIZE"
  shows "\<exists>q. pipewrite p addr n s = Done n (s\<lparr>pipes := (pipes s)(p := q), ptable := wake (ChPipeR (unat p)) (ptable s)\<rparr>) \<and>
    pipe_ok q \<and> pipe_bytes q = pipe_bytes (pipes s p) @ map addr [0..<nat n] \<and>
    pp_readopen q = pp_readopen (pipes s p) \<and> pp_writeopen q = pp_writeopen (pipes s p)"
proof -
  let ?lk = "LkPipe (unat p)"
  let ?s1 = "s\<lparr>lockst := lk_take (mycpu s) ?lk (lockst s)\<rparr>"
  have len: "length (pipe_bytes (pipes ?s1 p)) + length [0..<nat n] \<le> PIPESIZE" and ok1: "pipe_ok (pipes ?s1 p)"
    using room ok by simp_all
  obtain q where q: "search (pipewrite_round p addr) [0..<nat n] ?s1 = Done None (?s1\<lparr>pipes := (pipes ?s1)(p := q)\<rparr>)"
    "pipe_ok q" "pipe_bytes q = pipe_bytes (pipes ?s1 p) @ map addr [0..<nat n]"
    "pp_readopen q = pp_readopen (pipes ?s1 p)" "pp_writeopen q = pp_writeopen (pipes ?s1 p)"
    using pipewrite_loop [OF ok1 len] by blast
  have "pipewrite p addr n s = Done n (s\<lparr>pipes := (pipes s)(p := q), ptable := wake (ChPipeR (unat p)) (ptable s)\<rparr>)"
    using nl q(1) by (simp add: pipewrite_def acq_unlocked bindk_def [of "acq ?lk"] bindk_def [of "search _ _"] exec)
  then show ?thesis using q(2-5) by auto
qed

lemma piperead_eq:
  assumes nl: "nolocks s" and some: "pipe_bytes (pipes s p) \<noteq> [] \<or> \<not> pp_writeopen (pipes s p)"
  shows "\<exists>q. piperead p addr n s = Done (int (min (nat n) (length (pipe_bytes (pipes s p)))),
      store_bytes addr (take (nat n) (pipe_bytes (pipes s p))))
      (s\<lparr>pipes := (pipes s)(p := q), ptable := wake (ChPipeW (unat p)) (ptable s)\<rparr>) \<and>
    (pipe_ok (pipes s p) \<longrightarrow> pipe_ok q) \<and> pipe_bytes q = drop (nat n) (pipe_bytes (pipes s p)) \<and>
    pp_readopen q = pp_readopen (pipes s p) \<and> pp_writeopen q = pp_writeopen (pipes s p)"
proof -
  let ?lk = "LkPipe (unat p)"
  let ?s1 = "s\<lparr>lockst := lk_take (mycpu s) ?lk (lockst s)\<rparr>"
  obtain q where q: "piperead_loop p (nat n) ?s1 = Done (take (nat n) (pipe_bytes (pipes s p))) (?s1\<lparr>pipes := (pipes ?s1)(p := q)\<rparr>)"
    "pipe_ok (pipes s p) \<longrightarrow> pipe_ok q" "pipe_bytes q = drop (nat n) (pipe_bytes (pipes s p))"
    "pp_readopen q = pp_readopen (pipes s p)" "pp_writeopen q = pp_writeopen (pipes s p)"
    using piperead_loop_eq [of p "nat n" ?s1] by auto
  have "piperead p addr n s = Done (int (min (nat n) (length (pipe_bytes (pipes s p)))),
      store_bytes addr (take (nat n) (pipe_bytes (pipes s p))))
      (s\<lparr>pipes := (pipes s)(p := q), ptable := wake (ChPipeW (unat p)) (ptable s)\<rparr>)"
    using nl q(1) some
    by (auto simp: piperead_def acq_unlocked bindk_def [of "acq ?lk"] bindk_def [of "piperead_loop _ _"]
        pipe_empty_iff exec min.commute)
  then show ?thesis using q(2-5) by auto
qed

end
