(* ===== verification/File_Table.thy ===== *)
theory File_Table
  imports Pipe
begin

text \<open>
  The open file table (\<open>kernel/file.c\<close>) and \<open>pipealloc\<close> of \<open>kernel/pipe.c\<close>. A file pointer
  is an index of \<open>ftable.file\<close>.
\<close>

definition file_of :: "nat \<Rightarrow> ('z files_scheme, xfile) km" where
  "file_of f = getk (\<lambda>s. ftable s f)"

definition upd_file :: "nat \<Rightarrow> (xfile \<Rightarrow> xfile) \<Rightarrow> ('z files_scheme, unit) km" where
  "upd_file f g = modk (\<lambda>s. s\<lparr>ftable := (ftable s)(f := g (ftable s f))\<rparr>)"

definition fileinit :: "('z files_scheme, unit) km" where
  "fileinit = initlk LkFtable"

definition filealloc :: "('z files_scheme, nat option) km" where
  "filealloc =
     bindk (acq LkFtable) (\<lambda>_.
     bindk (getk ftable) (\<lambda>ft.
     case find (\<lambda>f. f_ref (ft f) = 0) [0..<NFILE] of
       Some f \<Rightarrow>
         bindk (upd_file f (\<lambda>x. x\<lparr>f_ref := 1\<rparr>)) (\<lambda>_.
         bindk (rel LkFtable) (\<lambda>_.
         ret (Some f)))
     | None \<Rightarrow>
         bindk (rel LkFtable) (\<lambda>_.
         ret None)))"

definition filedup :: "nat \<Rightarrow> ('z files_scheme, nat) km" where
  "filedup f =
     bindk (acq LkFtable) (\<lambda>_.
     bindk (file_of f) (\<lambda>x.
     if f_ref x < 1 then panic ''filedup''
     else
       bindk (upd_file f (\<lambda>x. x\<lparr>f_ref := f_ref x + 1\<rparr>)) (\<lambda>_.
       bindk (rel LkFtable) (\<lambda>_.
       ret f))))"

definition fileclose :: "nat \<Rightarrow> ('z files_scheme, unit) km" where
  "fileclose f =
     bindk (acq LkFtable) (\<lambda>_.
     bindk (file_of f) (\<lambda>x.
     if f_ref x < 1 then panic ''fileclose''
     else
       bindk (upd_file f (\<lambda>x. x\<lparr>f_ref := f_ref x - 1\<rparr>)) (\<lambda>_.
       bindk (file_of f) (\<lambda>ff.
       if 0 < f_ref ff then rel LkFtable
       else
         bindk (upd_file f (\<lambda>x. x\<lparr>f_ref := 0, f_type := FD_NONE\<rparr>)) (\<lambda>_.
         bindk (rel LkFtable) (\<lambda>_.
         case f_type ff of
           FD_PIPE \<Rightarrow> pipeclose (f_pipe ff) (f_writable ff)
         | FD_INODE \<Rightarrow> iput (f_ip ff)
         | FD_NONE \<Rightarrow> ret ()))))))"

definition filestat :: "nat \<Rightarrow> ('z files_scheme, stat option) km" where
  "filestat f =
     bindk (file_of f) (\<lambda>x.
     if f_type x = FD_INODE then
       bindk (ilock (Some (f_ip x))) (\<lambda>_.
       bindk (stati (f_ip x)) (\<lambda>st.
       bindk (iunlock (Some (f_ip x))) (\<lambda>_.
       ret (Some st))))
     else ret None)"

definition fileread :: "nat \<Rightarrow> mem \<Rightarrow> u32 \<Rightarrow> ('z files_scheme, int \<times> mem) km" where
  "fileread f addr n =
     bindk (file_of f) (\<lambda>x.
     if \<not> f_readable x then ret (- 1, addr)
     else
       (case f_type x of
          FD_PIPE \<Rightarrow> piperead (f_pipe x) addr (sint n)
        | FD_INODE \<Rightarrow>
            bindk (ilock (Some (f_ip x))) (\<lambda>_.
            bindk (readi (f_ip x) addr (f_off x) n) (\<lambda>(r, m).
            bindk (whenk (0 < r) (upd_file f (\<lambda>x. x\<lparr>f_off := f_off x + word_of_int r\<rparr>))) (\<lambda>_.
            bindk (iunlock (Some (f_ip x))) (\<lambda>_.
            ret (r, m)))))
        | FD_NONE \<Rightarrow> panic ''fileread''))"

definition filewrite :: "nat \<Rightarrow> mem \<Rightarrow> u32 \<Rightarrow> ('z files_scheme, int) km" where
  "filewrite f addr n =
     bindk (file_of f) (\<lambda>x.
     if \<not> f_writable x then ret (- 1)
     else
       (case f_type x of
          FD_PIPE \<Rightarrow> pipewrite (f_pipe x) addr (sint n)
        | FD_INODE \<Rightarrow>
            bindk (ilock (Some (f_ip x))) (\<lambda>_.
            bindk (writei (f_ip x) addr (f_off x) n) (\<lambda>r.
            bindk (whenk (0 < r) (upd_file f (\<lambda>x. x\<lparr>f_off := f_off x + word_of_int r\<rparr>))) (\<lambda>_.
            bindk (iunlock (Some (f_ip x))) (\<lambda>_.
            ret r))))
        | FD_NONE \<Rightarrow> panic ''filewrite''))"

section \<open>pipealloc\<close>

text \<open>The statements after the label \<open>bad\<close>, where no page was allocated yet.\<close>

definition pipealloc_bad :: "nat option \<Rightarrow> nat option \<Rightarrow> ('z files_scheme, (nat \<times> nat) option) km" where
  "pipealloc_bad f0 f1 =
     bindk (case f0 of None \<Rightarrow> ret () | Some f \<Rightarrow> fileclose f) (\<lambda>_.
     bindk (case f1 of None \<Rightarrow> ret () | Some f \<Rightarrow> fileclose f) (\<lambda>_.
     ret None))"

definition pipealloc :: "('z files_scheme, (nat \<times> nat) option) km" where
  "pipealloc =
     bindk filealloc (\<lambda>r0.
     case r0 of None \<Rightarrow> pipealloc_bad None None
     | Some f0 \<Rightarrow>
       bindk filealloc (\<lambda>r1.
       case r1 of None \<Rightarrow> pipealloc_bad (Some f0) None
       | Some f1 \<Rightarrow>
         bindk kalloc (\<lambda>p.
         if p = 0 then pipealloc_bad (Some f0) (Some f1)
         else
           bindk (upd_pipe p (\<lambda>q. q\<lparr>pp_readopen := True, pp_writeopen := True, pp_nwrite := 0, pp_nread := 0\<rparr>)) (\<lambda>_.
           bindk (initlk (LkPipe (unat p))) (\<lambda>_.
           bindk (upd_file f0 (\<lambda>x. x\<lparr>f_type := FD_PIPE, f_readable := True, f_writable := False, f_pipe := p\<rparr>)) (\<lambda>_.
           bindk (upd_file f1 (\<lambda>x. x\<lparr>f_type := FD_PIPE, f_readable := False, f_writable := True, f_pipe := p\<rparr>)) (\<lambda>_.
           ret (Some (f0, f1)))))))))"

section \<open>The table as a pool of slots\<close>

interpretation ft: slot_table "\<lambda>t f. f_ref (t f) = 0" "\<lambda>t f. t(f := (t f)\<lparr>f_ref := 1\<rparr>)" NFILE
  by unfold_locales simp_all

lemma upd_file_eq [exec]: "upd_file f g s = Done () (s\<lparr>ftable := (ftable s)(f := g (ftable s f))\<rparr>)"
  by (simp add: upd_file_def exec)

lemma file_of_eq [exec]: "file_of f s = Done (ftable s f) s"
  by (simp add: file_of_def exec)

lemma filealloc_eq [exec]:
  assumes "nolocks s"
  shows "filealloc s = (case ft.first (ftable s) of None \<Rightarrow> Done None s
    | Some f \<Rightarrow> Done (Some f) (s\<lparr>ftable := (ftable s)(f := (ftable s f)\<lparr>f_ref := 1\<rparr>)\<rparr>))"
  using assms by (simp add: filealloc_def ft.first_def exec split: option.split)

lemma filedup_eq [exec]:
  assumes "nolocks s" and "1 \<le> f_ref (ftable s f)"
  shows "filedup f s = Done f (s\<lparr>ftable := (ftable s)(f := (ftable s f)\<lparr>f_ref := f_ref (ftable s f) + 1\<rparr>)\<rparr>)"
  using assms by (simp add: filedup_def exec)

lemma fileclose_shared [exec]:
  assumes "nolocks s" and "1 < f_ref (ftable s f)"
  shows "fileclose f s = Done () (s\<lparr>ftable := (ftable s)(f := (ftable s f)\<lparr>f_ref := f_ref (ftable s f) - 1\<rparr>)\<rparr>)"
  using assms by (simp add: fileclose_def exec)

lemma fileclose_last:
  assumes "nolocks s" and "f_ref (ftable s f) = 1"
  shows "fileclose f s = (case f_type (ftable s f) of
      FD_PIPE \<Rightarrow> pipeclose (f_pipe (ftable s f)) (f_writable (ftable s f))
    | FD_INODE \<Rightarrow> iput (f_ip (ftable s f)) | FD_NONE \<Rightarrow> ret ())
    (s\<lparr>ftable := (ftable s)(f := (ftable s f)\<lparr>f_ref := 0, f_type := FD_NONE\<rparr>)\<rparr>)"
  using assms by (simp add: fileclose_def exec split: fdtype.split)

end
