(* ===== verification/Sysfile.thy ===== *)
theory Sysfile
  imports File_Table
begin

text \<open>
  System call arguments (\<open>kernel/syscall.c\<close>) and the file system calls (\<open>kernel/sysfile.c\<close>).
  The arguments lie on the user stack, in the user memory of the current process; a routine that
  returns -1 for a bad argument gives \<open>None\<close> here. \<open>sys_exec\<close> is modelled up to its call of
  \<open>exec\<close>.
\<close>

definition O_RDONLY :: u32 where "O_RDONLY = 0"
definition O_WRONLY :: u32 where "O_WRONLY = 1"
definition O_RDWR :: u32 where "O_RDWR = 2"
definition O_CREATE :: u32 where "O_CREATE = 0x200"
definition O_MIRRORED :: u32 where "O_MIRRORED = 0x400"
definition MAXARG :: nat where "MAXARG = 32"

section \<open>Arguments\<close>

definition fetchint :: "proc \<Rightarrow> u32 \<Rightarrow> ('z files_scheme, u32 option) km" where
  "fetchint p addr =
     (if p_sz p \<le> addr \<or> p_sz p < addr + 4 then ret None
      else getk (\<lambda>s. Some (get32 (umem s) (unat addr))))"

text \<open>The scan of \<open>fetchstr\<close> from \<open>a\<close>, with \<open>k\<close> bytes left before \<open>p->sz\<close>.\<close>

primrec scan_nul :: "mem \<Rightarrow> nat \<Rightarrow> nat \<Rightarrow> nat option" where
  "scan_nul m a 0 = None"
| "scan_nul m a (Suc k) = (if m a = 0 then Some 0 else map_option Suc (scan_nul m (Suc a) k))"

definition fetchstr :: "proc \<Rightarrow> u32 \<Rightarrow> ('z files_scheme, u8 list option) km" where
  "fetchstr p addr =
     (if p_sz p \<le> addr then ret None
      else getk (\<lambda>s. map_option (\<lambda>len. map (\<lambda>i. umem s (unat addr + i)) [0..<len])
                       (scan_nul (umem s) (unat addr) (unat (p_sz p) - unat addr))))"

definition argint :: "nat \<Rightarrow> ('z files_scheme, u32 option) km" where
  "argint n = bindk myslot (\<lambda>p. fetchint p (tf_esp (p_tf p) + 4 + 4 * of_nat n))"

definition argptr :: "nat \<Rightarrow> u32 \<Rightarrow> ('z files_scheme, u32 option) km" where
  "argptr n sz =
     bindk myslot (\<lambda>p.
     bindk (argint n) (\<lambda>r.
     case r of None \<Rightarrow> ret None
     | Some i \<Rightarrow> ret (if p_sz p \<le> i \<or> p_sz p < i + sz then None else Some i)))"

definition argstr :: "nat \<Rightarrow> ('z files_scheme, u8 list option) km" where
  "argstr n =
     bindk myslot (\<lambda>p.
     bindk (argint n) (\<lambda>r.
     case r of None \<Rightarrow> ret None | Some addr \<Rightarrow> fetchstr p addr))"

text \<open>\<open>argfd\<close>: the descriptor and the file.\<close>

definition argfd :: "nat \<Rightarrow> ('z files_scheme, (nat \<times> nat) option) km" where
  "argfd n =
     bindk myslot (\<lambda>p.
     bindk (argint n) (\<lambda>r.
     case r of None \<Rightarrow> ret None
     | Some fd \<Rightarrow>
         if sint fd < 0 \<or> int NOFILE \<le> sint fd then ret None
         else (case p_ofile p (unat fd) of None \<Rightarrow> ret None | Some f \<Rightarrow> ret (Some (unat fd, f)))))"

definition set_ofile :: "nat \<Rightarrow> nat option \<Rightarrow> ('z files_scheme, unit) km" where
  "set_ofile fd fo = bindk myproc (\<lambda>p. upd_proc p (\<lambda>q. q\<lparr>p_ofile := (p_ofile q)(fd := fo)\<rparr>))"

definition fdalloc :: "nat \<Rightarrow> ('z files_scheme, nat option) km" where
  "fdalloc f =
     bindk myslot (\<lambda>p.
     case find (\<lambda>fd. p_ofile p fd = None) [0..<NOFILE] of None \<Rightarrow> ret None
     | Some fd \<Rightarrow>
         bindk (set_ofile fd (Some f)) (\<lambda>_.
         ret (Some fd)))"

text \<open>User memory from address \<open>a\<close> on, and its replacement.\<close>

definition uptr :: "u32 \<Rightarrow> ('z files_scheme, mem) km" where
  "uptr a = getk (\<lambda>s. ptr (umem s) (unat a))"

definition set_uptr :: "u32 \<Rightarrow> mem \<Rightarrow> ('z files_scheme, unit) km" where
  "set_uptr a m = modk (\<lambda>s. s\<lparr>umem := (\<lambda>i. if unat a \<le> i then m (i - unat a) else umem s i)\<rparr>)"

section \<open>Descriptor calls\<close>

definition sys_dup :: "('z files_scheme, int) km" where
  "sys_dup =
     bindk (argfd 0) (\<lambda>a.
     case a of None \<Rightarrow> ret (- 1)
     | Some (_, f) \<Rightarrow>
         bindk (fdalloc f) (\<lambda>r.
         case r of None \<Rightarrow> ret (- 1)
         | Some fd \<Rightarrow>
             bindk (filedup f) (\<lambda>_.
             ret (int fd))))"

text \<open>The arguments of \<open>read\<close> and \<open>write\<close>: the file, the pointer and the count.\<close>

definition rw_args :: "('z files_scheme, (nat \<times> u32 \<times> u32) option) km" where
  "rw_args =
     bindk (argfd 0) (\<lambda>a.
     case a of None \<Rightarrow> ret None
     | Some (_, f) \<Rightarrow>
         bindk (argint 2) (\<lambda>b.
         case b of None \<Rightarrow> ret None
         | Some n \<Rightarrow>
             bindk (argptr 1 n) (\<lambda>c.
             case c of None \<Rightarrow> ret None | Some p \<Rightarrow> ret (Some (f, p, n)))))"

definition sys_read :: "('z files_scheme, int) km" where
  "sys_read =
     bindk rw_args (\<lambda>a.
     case a of None \<Rightarrow> ret (- 1)
     | Some (f, p, n) \<Rightarrow>
         bindk (uptr p) (\<lambda>m.
         bindk (fileread f m n) (\<lambda>(r, m').
         bindk (set_uptr p m') (\<lambda>_.
         ret r))))"

definition sys_write :: "('z files_scheme, int) km" where
  "sys_write =
     bindk rw_args (\<lambda>a.
     case a of None \<Rightarrow> ret (- 1)
     | Some (f, p, n) \<Rightarrow>
         bindk (uptr p) (\<lambda>m.
         filewrite f m n))"

definition sys_close :: "('z files_scheme, int) km" where
  "sys_close =
     bindk (argfd 0) (\<lambda>a.
     case a of None \<Rightarrow> ret (- 1)
     | Some (fd, f) \<Rightarrow>
         bindk (set_ofile fd None) (\<lambda>_.
         bindk (fileclose f) (\<lambda>_.
         ret 0)))"

text \<open>The bytes of a \<open>struct stat\<close>, 24 with padding.\<close>

definition put_stat :: "mem \<Rightarrow> stat \<Rightarrow> mem" where
  "put_stat m st =
     put32 (put32 (put16 (put32 (put32 (put16 m 0 (st_type st)) 4 (st_dev st)) 8 (st_ino st))
       12 (st_nlink st)) 16 (st_logical_size st)) 20 (st_physical_size st)"

definition sys_fstat :: "('z files_scheme, int) km" where
  "sys_fstat =
     bindk (argfd 0) (\<lambda>a.
     case a of None \<Rightarrow> ret (- 1)
     | Some (_, f) \<Rightarrow>
         bindk (argptr 1 24) (\<lambda>b.
         case b of None \<Rightarrow> ret (- 1)
         | Some p \<Rightarrow>
             bindk (filestat f) (\<lambda>r.
             case r of None \<Rightarrow> ret (- 1)
             | Some st \<Rightarrow>
                 bindk (uptr p) (\<lambda>m.
                 bindk (set_uptr p (put_stat m st)) (\<lambda>_.
                 ret 0)))))"

section \<open>Links and directories\<close>

definition cstr :: "u8 list \<Rightarrow> mem" where
  "cstr bs = (\<lambda>i. if i < length bs then bs ! i else 0)"

definition link_bad :: "nat \<Rightarrow> ('z files_scheme, int) km" where
  "link_bad ip =
     bindk (ilock (Some ip)) (\<lambda>_.
     bindk (upd_inode ip (\<lambda>i. i\<lparr>i_nlink := i_nlink i - 1\<rparr>)) (\<lambda>_.
     bindk (iupdate ip) (\<lambda>_.
     bindk (iunlockput (Some ip)) (\<lambda>_.
     ret (- 1)))))"

text \<open>Local arrays of the C routines start with the bytes \<open>junk\<close> of the kernel stack.\<close>

definition sys_link :: "mem \<Rightarrow> ('z files_scheme, int) km" where
  "sys_link junk =
     bindk (argstr 0) (\<lambda>a.
     case a of None \<Rightarrow> ret (- 1)
     | Some old \<Rightarrow>
       bindk (argstr 1) (\<lambda>b.
       case b of None \<Rightarrow> ret (- 1)
       | Some new \<Rightarrow>
         bindk (namei old) (\<lambda>r.
         case r of None \<Rightarrow> ret (- 1)
         | Some ip \<Rightarrow>
           bindk (ilock (Some ip)) (\<lambda>_.
           bindk (inode_of ip) (\<lambda>i.
           if i_type i = T_DIR then
             bindk (iunlockput (Some ip)) (\<lambda>_.
             ret (- 1))
           else
             bindk (upd_inode ip (\<lambda>i. i\<lparr>i_nlink := i_nlink i + 1\<rparr>)) (\<lambda>_.
             bindk (iupdate ip) (\<lambda>_.
             bindk (iunlock (Some ip)) (\<lambda>_.
             bindk (nameiparent new junk) (\<lambda>(dpo, name).
             case dpo of None \<Rightarrow> link_bad ip
             | Some dp \<Rightarrow>
               bindk (ilock (Some dp)) (\<lambda>_.
               bindk (inode_of dp) (\<lambda>d.
               bindk (inode_of ip) (\<lambda>i.
               bindk (if i_dev d \<noteq> i_dev i then ret (- 1) else dirlink dp name (i_inum i) junk) (\<lambda>v.
               bindk (iunlockput (Some dp)) (\<lambda>_.
               if v < 0 then link_bad ip
               else
                 bindk (iput ip) (\<lambda>_.
                 ret 0)))))))))))))))"

definition isdirempty_round :: "nat \<Rightarrow> mem \<Rightarrow> nat \<Rightarrow> ('z files_scheme, bool option) km" where
  "isdirempty_round dp junk off =
     bindk (readi dp junk (of_nat off) 16) (\<lambda>(r, de).
     if r \<noteq> 16 then panic ''isdirempty: readi''
     else ret (if get16 de 0 \<noteq> 0 then Some False else None))"

definition isdirempty :: "nat \<Rightarrow> mem \<Rightarrow> ('z files_scheme, bool) km" where
  "isdirempty dp junk =
     bindk (inode_of dp) (\<lambda>i.
     bindk (search (isdirempty_round dp junk) (map (\<lambda>k. 16 * k) [2..<(unat (i_size i) + 15) div 16])) (\<lambda>r.
     ret (r = None)))"

definition sys_unlink :: "mem \<Rightarrow> ('z files_scheme, int) km" where
  "sys_unlink junk =
     bindk (argstr 0) (\<lambda>a.
     case a of None \<Rightarrow> ret (- 1)
     | Some path \<Rightarrow>
       bindk (nameiparent path junk) (\<lambda>(dpo, name).
       case dpo of None \<Rightarrow> ret (- 1)
       | Some dp \<Rightarrow>
         bindk (ilock (Some dp)) (\<lambda>_.
         if namecmp name (cstr [46]) = 0 \<or> namecmp name (cstr [46, 46]) = 0 then
           bindk (iunlockput (Some dp)) (\<lambda>_.
           ret (- 1))
         else
           bindk (dirlookup dp name) (\<lambda>r.
           case r of
             None \<Rightarrow>
               bindk (iunlockput (Some dp)) (\<lambda>_.
               ret (- 1))
           | Some (ip, off) \<Rightarrow>
               bindk (ilock (Some ip)) (\<lambda>_.
               bindk (inode_of ip) (\<lambda>i.
               if sint (i_nlink i) < 1 then panic ''unlink: nlink < 1''
               else
                 bindk (if i_type i = T_DIR then isdirempty ip junk else ret True) (\<lambda>isemp.
                 if \<not> isemp then
                   bindk (iunlockput (Some ip)) (\<lambda>_.
                   bindk (iunlockput (Some dp)) (\<lambda>_.
                   ret (- 1)))
                 else
                   bindk (writei dp (\<lambda>_. 0) (of_nat off) 16) (\<lambda>w.
                   if w \<noteq> 16 then panic ''unlink: writei''
                   else
                     bindk (inode_of ip) (\<lambda>i.
                     bindk (whenk (i_type i = T_DIR)
                       (bindk (upd_inode dp (\<lambda>d. d\<lparr>i_nlink := i_nlink d - 1\<rparr>)) (\<lambda>_.
                         iupdate dp))) (\<lambda>_.
                     bindk (iunlockput (Some dp)) (\<lambda>_.
                     bindk (upd_inode ip (\<lambda>i. i\<lparr>i_nlink := i_nlink i - 1\<rparr>)) (\<lambda>_.
                     bindk (iupdate ip) (\<lambda>_.
                     bindk (iunlockput (Some ip)) (\<lambda>_.
                     ret 0))))))))))))))"

definition create :: "u8 list \<Rightarrow> u16 \<Rightarrow> u16 \<Rightarrow> u16 \<Rightarrow> mem \<Rightarrow> ('z files_scheme, nat option) km" where
  "create path type major minor junk =
     bindk (nameiparent path junk) (\<lambda>(dpo, name).
     case dpo of None \<Rightarrow> ret None
     | Some dp \<Rightarrow>
       bindk (ilock (Some dp)) (\<lambda>_.
       bindk (dirlookup dp name) (\<lambda>r.
       case r of
         Some (ip, _) \<Rightarrow>
           bindk (iunlockput (Some dp)) (\<lambda>_.
           bindk (ilock (Some ip)) (\<lambda>_.
           bindk (inode_of ip) (\<lambda>i.
           if type = T_MIRRORED \<and> i_type i = T_MIRRORED then ret (Some ip)
           else if type = T_FILE \<and> i_type i = T_FILE then ret (Some ip)
           else
             bindk (iunlockput (Some ip)) (\<lambda>_.
             ret None))))
       | None \<Rightarrow>
           bindk (inode_of dp) (\<lambda>d.
           bindk (ialloc (i_dev d) type) (\<lambda>ip.
           bindk (ilock (Some ip)) (\<lambda>_.
           bindk (upd_inode ip (\<lambda>i. i\<lparr>i_major := major, i_minor := minor, i_nlink := 1\<rparr>)) (\<lambda>_.
           bindk (iupdate ip) (\<lambda>_.
           bindk (whenk (type = T_DIR)
             (bindk (upd_inode dp (\<lambda>d. d\<lparr>i_nlink := i_nlink d + 1\<rparr>)) (\<lambda>_.
               bindk (iupdate dp) (\<lambda>_.
               bindk (inode_of ip) (\<lambda>i.
               bindk (inode_of dp) (\<lambda>d.
               bindk (dirlink ip (cstr [46]) (i_inum i) junk) (\<lambda>v.
               bindk (if v < 0 then ret v else dirlink ip (cstr [46, 46]) (i_inum d) junk) (\<lambda>w.
               whenk (w < 0) (panic ''create dots''))))))))) (\<lambda>_.
           bindk (inode_of ip) (\<lambda>i.
           bindk (dirlink dp name (i_inum i) junk) (\<lambda>v.
           bindk (whenk (v < 0) (panic ''create: dirlink'')) (\<lambda>_.
           bindk (iunlockput (Some dp)) (\<lambda>_.
           ret (Some ip))))))))))))))"

section \<open>Opening files\<close>

text \<open>The inode \<open>sys_open\<close> works on, locked: created, or looked up.\<close>

definition open_inode :: "u8 list \<Rightarrow> u32 \<Rightarrow> mem \<Rightarrow> ('z files_scheme, nat option) km" where
  "open_inode path omode junk =
     (if omode AND O_CREATE \<noteq> 0 then
        create path (if omode AND O_MIRRORED \<noteq> 0 then T_MIRRORED else T_FILE) 0 0 junk
      else
        bindk (namei path) (\<lambda>r.
        case r of None \<Rightarrow> ret None
        | Some ip \<Rightarrow>
            bindk (ilock (Some ip)) (\<lambda>_.
            bindk (inode_of ip) (\<lambda>i.
            if i_type i = T_DIR \<and> omode \<noteq> O_RDONLY then
              bindk (iunlockput (Some ip)) (\<lambda>_.
              ret None)
            else ret (Some ip)))))"

definition sys_open :: "mem \<Rightarrow> ('z files_scheme, int) km" where
  "sys_open junk =
     bindk (argstr 0) (\<lambda>a.
     case a of None \<Rightarrow> ret (- 1)
     | Some path \<Rightarrow>
       bindk (argint 1) (\<lambda>b.
       case b of None \<Rightarrow> ret (- 1)
       | Some omode \<Rightarrow>
         bindk (open_inode path omode junk) (\<lambda>r.
         case r of None \<Rightarrow> ret (- 1)
         | Some ip \<Rightarrow>
           bindk filealloc (\<lambda>fo.
           bindk (case fo of None \<Rightarrow> ret None | Some f \<Rightarrow> fdalloc f) (\<lambda>fdo.
           case (fo, fdo) of
             (Some f, Some fd) \<Rightarrow>
               bindk (iunlock (Some ip)) (\<lambda>_.
               bindk (upd_file f (\<lambda>x. x\<lparr>f_type := FD_INODE, f_ip := ip, f_off := 0,
                 f_readable := (omode AND O_WRONLY = 0),
                 f_writable := (omode AND O_WRONLY \<noteq> 0 \<or> omode AND O_RDWR \<noteq> 0)\<rparr>)) (\<lambda>_.
               ret (int fd)))
           | _ \<Rightarrow>
               bindk (case fo of None \<Rightarrow> ret () | Some f \<Rightarrow> fileclose f) (\<lambda>_.
               bindk (iunlockput (Some ip)) (\<lambda>_.
               ret (- 1))))))))"

definition sys_mkdir :: "mem \<Rightarrow> ('z files_scheme, int) km" where
  "sys_mkdir junk =
     bindk (argstr 0) (\<lambda>a.
     case a of None \<Rightarrow> ret (- 1)
     | Some path \<Rightarrow>
       bindk (create path T_DIR 0 0 junk) (\<lambda>r.
       case r of None \<Rightarrow> ret (- 1)
       | Some ip \<Rightarrow>
           bindk (iunlockput (Some ip)) (\<lambda>_.
           ret 0)))"

definition sys_mknod :: "mem \<Rightarrow> ('z files_scheme, int) km" where
  "sys_mknod junk =
     bindk (argstr 0) (\<lambda>a.
     bindk (if a = None then ret None else argint 1) (\<lambda>b.
     bindk (if b = None then ret None else argint 2) (\<lambda>c.
     case (a, b, c) of
       (Some path, Some major, Some minor) \<Rightarrow>
         bindk (create path T_DEV (ucast major) (ucast minor) junk) (\<lambda>r.
         case r of None \<Rightarrow> ret (- 1)
         | Some ip \<Rightarrow>
             bindk (iunlockput (Some ip)) (\<lambda>_.
             ret 0))
     | _ \<Rightarrow> ret (- 1))))"

definition sys_chdir :: "('z files_scheme, int) km" where
  "sys_chdir =
     bindk (argstr 0) (\<lambda>a.
     case a of None \<Rightarrow> ret (- 1)
     | Some path \<Rightarrow>
       bindk (namei path) (\<lambda>r.
       case r of None \<Rightarrow> ret (- 1)
       | Some ip \<Rightarrow>
         bindk (ilock (Some ip)) (\<lambda>_.
         bindk (inode_of ip) (\<lambda>i.
         if i_type i \<noteq> T_DIR then
           bindk (iunlockput (Some ip)) (\<lambda>_.
           ret (- 1))
         else
           bindk (iunlock (Some ip)) (\<lambda>_.
           bindk myslot (\<lambda>p.
           bindk (case p_cwd p of None \<Rightarrow> undef ''null cwd'' | Some c \<Rightarrow> iput c) (\<lambda>_.
           bindk myproc (\<lambda>me.
           bindk (upd_proc me (\<lambda>q. q\<lparr>p_cwd := Some ip\<rparr>)) (\<lambda>_.
           ret 0)))))))))"

text \<open>
  The loop of \<open>sys_exec\<close> that collects the argument strings, with \<open>k\<close> slots of \<open>argv\<close> left.
\<close>

primrec exec_args :: "nat \<Rightarrow> u32 \<Rightarrow> ('z files_scheme, u8 list list option) km" where
  "exec_args 0 uargv = ret None"
| "exec_args (Suc k) uargv =
     bindk myslot (\<lambda>p.
     bindk (fetchint p uargv) (\<lambda>r.
     case r of None \<Rightarrow> ret None
     | Some uarg \<Rightarrow>
         if uarg = 0 then ret (Some [])
         else
           bindk (fetchstr p uarg) (\<lambda>t.
           case t of None \<Rightarrow> ret None
           | Some arg \<Rightarrow>
               bindk (exec_args k (uargv + 4)) (\<lambda>rest.
               ret (map_option (Cons arg) rest)))))"

definition sys_exec_args :: "('z files_scheme, (u8 list \<times> u8 list list) option) km" where
  "sys_exec_args =
     bindk (argstr 0) (\<lambda>a.
     bindk (if a = None then ret None else argint 1) (\<lambda>b.
     case (a, b) of
       (Some path, Some uargv) \<Rightarrow>
         bindk (exec_args MAXARG uargv) (\<lambda>r.
         ret (map_option (Pair path) r))
     | _ \<Rightarrow> ret None))"

definition sys_pipe :: "('z files_scheme, int) km" where
  "sys_pipe =
     bindk (argptr 0 8) (\<lambda>a.
     case a of None \<Rightarrow> ret (- 1)
     | Some p \<Rightarrow>
       bindk pipealloc (\<lambda>r.
       case r of None \<Rightarrow> ret (- 1)
       | Some (f0, f1) \<Rightarrow>
         bindk (fdalloc f0) (\<lambda>fd0.
         bindk (if fd0 = None then ret None else fdalloc f1) (\<lambda>fd1.
         case (fd0, fd1) of
           (Some x, Some y) \<Rightarrow>
             bindk (uptr p) (\<lambda>m.
             bindk (set_uptr p (put32 (put32 m 0 (of_nat x)) 4 (of_nat y))) (\<lambda>_.
             ret 0))
         | _ \<Rightarrow>
             bindk (case fd0 of None \<Rightarrow> ret () | Some x \<Rightarrow> set_ofile x None) (\<lambda>_.
             bindk (fileclose f0) (\<lambda>_.
             bindk (fileclose f1) (\<lambda>_.
             ret (- 1))))))))"

section \<open>Descriptors as a pool of slots\<close>

interpretation fdt: slot_table "\<lambda>q fd. p_ofile q fd = None"
    "\<lambda>q fd. q\<lparr>p_ofile := (p_ofile q)(fd := Some 0)\<rparr>" NOFILE
  by unfold_locales simp_all

lemma fdalloc_eq [exec]:
  assumes "curproc s = Some p"
  shows "fdalloc f s = (case fdt.first (ptable s p) of None \<Rightarrow> Done None s
    | Some fd \<Rightarrow> Done (Some fd) (s\<lparr>ptable := (ptable s)(p := (ptable s p)\<lparr>p_ofile :=
        (p_ofile (ptable s p))(fd := Some f)\<rparr>)\<rparr>))"
  using assms by (simp add: fdalloc_def set_ofile_def fdt.first_def exec split: option.split)

end
