(* ===== verification/Vm.thy ===== *)
theory Vm
  imports Sysfile
begin

text \<open>
  Two-level page tables (\<open>kernel/vm.c\<close>). Page directories and page tables are pages of
  physical memory; a pointer to an entry is its address. The kernel maps physical memory one to
  one, so \<open>PADDR\<close> is the identity. \<open>kdata\<close> is the linker's address of the kernel's data,
  \<open>cr3\<close> the page table register. Segment descriptors and the task state are not modelled.
\<close>

definition USERTOP :: u32 where "USERTOP = 0xA0000"
definition PTE_P :: u32 where "PTE_P = 1"
definition PTE_W :: u32 where "PTE_W = 2"
definition PTE_U :: u32 where "PTE_U = 4"

record vm = files +
  kdata :: u32
  kpgdir :: u32
  cr3 :: u32

lemma unlocked_vm [simp]:
  "unlocked lk (s\<lparr>kdata := x0\<rparr>) = unlocked lk s"
  "unlocked lk (s\<lparr>kpgdir := x1\<rparr>) = unlocked lk s"
  "unlocked lk (s\<lparr>cr3 := x2\<rparr>) = unlocked lk s"
  by (simp_all add: unlocked_def)

lemma nolocks_vm [simp]:
  "nolocks (s\<lparr>kdata := x0\<rparr>) = nolocks s"
  "nolocks (s\<lparr>kpgdir := x1\<rparr>) = nolocks s"
  "nolocks (s\<lparr>cr3 := x2\<rparr>) = nolocks s"
  by (simp_all add: nolocks_def)

definition PDX :: "u32 \<Rightarrow> u32" where
  "PDX va = drop_bit 22 va AND 0x3FF"

definition PTX :: "u32 \<Rightarrow> u32" where
  "PTX va = drop_bit 12 va AND 0x3FF"

definition PTE_ADDR :: "u32 \<Rightarrow> u32" where
  "PTE_ADDR pte = pte AND NOT 0xFFF"

definition load32 :: "u32 \<Rightarrow> ('z vm_scheme, u32) km" where
  "load32 a = getk (\<lambda>s. get32 (phys s) (unat a))"

definition store32 :: "u32 \<Rightarrow> u32 \<Rightarrow> ('z vm_scheme, unit) km" where
  "store32 a w = modk (\<lambda>s. s\<lparr>phys := put32 (phys s) (unat a) w\<rparr>)"

definition memsetk :: "u32 \<Rightarrow> u32 \<Rightarrow> u32 \<Rightarrow> ('z vm_scheme, unit) km" where
  "memsetk a c n = modk (\<lambda>s. s\<lparr>phys := memset (phys s) (unat a) c (unat n)\<rparr>)"

text \<open>\<open>walkpgdir\<close>; a null result is \<open>None\<close>.\<close>

definition walkpgdir :: "u32 \<Rightarrow> u32 \<Rightarrow> bool \<Rightarrow> ('z vm_scheme, u32 option) km" where
  "walkpgdir pgdir va mk =
     bindk (load32 (pgdir + 4 * PDX va)) (\<lambda>pde.
     if pde AND PTE_P \<noteq> 0 then ret (Some (PTE_ADDR pde + 4 * PTX va))
     else if \<not> mk then ret None
     else
       bindk kalloc (\<lambda>pgtab.
       if pgtab = 0 then ret None
       else
         bindk (memsetk pgtab 0 PGSIZE) (\<lambda>_.
         bindk (store32 (pgdir + 4 * PDX va) (pgtab OR PTE_P OR PTE_W OR PTE_U)) (\<lambda>_.
         ret (Some (pgtab + 4 * PTX va))))))"

text \<open>One round of the loop of \<open>mappages\<close>, and the loop with \<open>k\<close> pages after the current one.\<close>

definition map_page :: "u32 \<Rightarrow> u32 \<Rightarrow> u32 \<Rightarrow> u32 \<Rightarrow> ('z vm_scheme, int) km" where
  "map_page pgdir a pa perm =
     bindk (walkpgdir pgdir a True) (\<lambda>r.
     case r of None \<Rightarrow> ret (- 1)
     | Some pte \<Rightarrow>
         bindk (load32 pte) (\<lambda>e.
         if e AND PTE_P \<noteq> 0 then panic ''remap''
         else
           bindk (store32 pte (pa OR perm OR PTE_P)) (\<lambda>_.
           ret 0)))"

primrec mappages_loop :: "nat \<Rightarrow> u32 \<Rightarrow> u32 \<Rightarrow> u32 \<Rightarrow> u32 \<Rightarrow> ('z vm_scheme, int) km" where
  "mappages_loop 0 pgdir a pa perm = map_page pgdir a pa perm"
| "mappages_loop (Suc k) pgdir a pa perm =
     bindk (map_page pgdir a pa perm) (\<lambda>v.
     if v < 0 then ret v
     else mappages_loop k pgdir (a + PGSIZE) (pa + PGSIZE) perm)"

definition mappages :: "u32 \<Rightarrow> u32 \<Rightarrow> u32 \<Rightarrow> u32 \<Rightarrow> u32 \<Rightarrow> ('z vm_scheme, int) km" where
  "mappages pgdir la sz pa perm =
     (let a = PGROUNDDOWN la; b = PGROUNDDOWN (la + sz - 1) in
      mappages_loop (unat (b - a) div unat PGSIZE) pgdir a pa perm)"

definition kmap :: "u32 \<Rightarrow> (u32 \<times> u32 \<times> u32) list" where
  "kmap kd = [(USERTOP, 0x100000, PTE_W), (0x100000, kd, 0), (kd, PHYSTOP, PTE_W), (0xFE000000, 0, PTE_W)]"

definition setupkvm :: "('z vm_scheme, u32) km" where
  "setupkvm =
     bindk kalloc (\<lambda>pgdir.
     if pgdir = 0 then ret 0
     else
       bindk (memsetk pgdir 0 PGSIZE) (\<lambda>_.
       bindk (getk kdata) (\<lambda>kd.
       bindk (search (\<lambda>(p, e, perm).
         bindk (mappages pgdir p (e - p) p perm) (\<lambda>v.
         ret (if v < 0 then Some () else None))) (kmap kd)) (\<lambda>r.
       ret (if r = None then pgdir else 0)))))"

definition kvmalloc :: "('z vm_scheme, unit) km" where
  "kvmalloc = bindk setupkvm (\<lambda>d. modk (\<lambda>s. s\<lparr>kpgdir := d\<rparr>))"

definition switchkvm :: "('z vm_scheme, unit) km" where
  "switchkvm = modk (\<lambda>s. s\<lparr>cr3 := kpgdir s\<rparr>)"

definition switchuvm :: "nat \<Rightarrow> ('z vm_scheme, unit) km" where
  "switchuvm p =
     bindk (getk (\<lambda>s. p_pgdir (ptable s p))) (\<lambda>d.
     if d = 0 then panic ''switchuvm: no pgdir''
     else modk (\<lambda>s. s\<lparr>cr3 := d\<rparr>))"

definition inituvm :: "u32 \<Rightarrow> u8 list \<Rightarrow> ('z vm_scheme, unit) km" where
  "inituvm pgdir init =
     (if unat PGSIZE \<le> length init then panic ''inituvm: more than a page''
      else
        bindk kalloc (\<lambda>m.
        bindk (memsetk m 0 PGSIZE) (\<lambda>_.
        bindk (mappages pgdir 0 PGSIZE m (PTE_W OR PTE_U)) (\<lambda>_.
        modk (\<lambda>s. s\<lparr>phys := (\<lambda>i. if unat m \<le> i \<and> i < unat m + length init
                                then init ! (i - unat m) else phys s i)\<rparr>)))))"

text \<open>The page addresses a loop \<open>for(; a < b; a += PGSIZE)\<close> visits.\<close>

definition pages :: "u32 \<Rightarrow> u32 \<Rightarrow> u32 list" where
  "pages a b = map (\<lambda>k. a + of_nat k * PGSIZE) [0..<(unat b - unat a + 4095) div 4096]"

definition loaduvm :: "u32 \<Rightarrow> u32 \<Rightarrow> nat \<Rightarrow> u32 \<Rightarrow> u32 \<Rightarrow> ('z vm_scheme, int) km" where
  "loaduvm pgdir addr ip offset sz =
     (if addr mod PGSIZE \<noteq> 0 then panic ''loaduvm: addr must be page aligned''
      else
        bindk (search (\<lambda>i.
          bindk (walkpgdir pgdir (addr + i) False) (\<lambda>w.
          case w of None \<Rightarrow> panic ''loaduvm: address should exist''
          | Some pte \<Rightarrow>
              bindk (load32 pte) (\<lambda>e.
              bindk (getk (\<lambda>s. ptr (phys s) (unat (PTE_ADDR e)))) (\<lambda>m.
              bindk (ret (if sz - i < PGSIZE then sz - i else PGSIZE)) (\<lambda>n.
              bindk (readi ip m (offset + i) n) (\<lambda>(v, m').
              bindk (modk (\<lambda>s. s\<lparr>phys := (\<lambda>j. if unat (PTE_ADDR e) \<le> j then m' (j - unat (PTE_ADDR e)) else phys s j)\<rparr>)) (\<lambda>_.
              ret (if word_of_int v \<noteq> n then Some () else None)))))))) (pages 0 sz)) (\<lambda>r.
        ret (if r = None then 0 else - 1)))"

definition deallocuvm :: "u32 \<Rightarrow> u32 \<Rightarrow> u32 \<Rightarrow> ('z vm_scheme, u32) km" where
  "deallocuvm pgdir oldsz newsz =
     (if oldsz \<le> newsz then ret oldsz
      else
        bindk (foreach (\<lambda>a.
          bindk (walkpgdir pgdir a False) (\<lambda>w.
          case w of None \<Rightarrow> ret ()
          | Some pte \<Rightarrow>
              bindk (load32 pte) (\<lambda>e.
              whenk (e AND PTE_P \<noteq> 0)
                (if PTE_ADDR e = 0 then panic ''kfree''
                 else
                   bindk (kfree (PTE_ADDR e)) (\<lambda>_.
                   store32 pte 0))))) (pages (PGROUNDUP newsz) oldsz)) (\<lambda>_.
        ret newsz))"

definition allocuvm_page :: "u32 \<Rightarrow> u32 \<Rightarrow> u32 \<Rightarrow> u32 \<Rightarrow> ('z vm_scheme, unit option) km" where
  "allocuvm_page pgdir oldsz newsz a =
     bindk kalloc (\<lambda>m.
     if m = 0 then
       bindk (deallocuvm pgdir newsz oldsz) (\<lambda>_.
       ret (Some ()))
     else
       bindk (memsetk m 0 PGSIZE) (\<lambda>_.
       bindk (mappages pgdir a PGSIZE m (PTE_W OR PTE_U)) (\<lambda>_.
       ret None)))"

definition allocuvm :: "u32 \<Rightarrow> u32 \<Rightarrow> u32 \<Rightarrow> ('z vm_scheme, u32) km" where
  "allocuvm pgdir oldsz newsz =
     (if USERTOP < newsz then ret 0
      else if newsz < oldsz then ret oldsz
      else
        bindk (search (allocuvm_page pgdir oldsz newsz) (pages (PGROUNDUP oldsz) newsz)) (\<lambda>r.
        ret (if r = None then newsz else 0)))"

definition freevm :: "u32 \<Rightarrow> ('z vm_scheme, unit) km" where
  "freevm pgdir =
     (if pgdir = 0 then panic ''freevm: no pgdir''
      else
        bindk (deallocuvm pgdir USERTOP 0) (\<lambda>_.
        bindk (foreach (\<lambda>i.
          bindk (load32 (pgdir + 4 * of_nat i)) (\<lambda>e.
          whenk (e AND PTE_P \<noteq> 0) (kfree (PTE_ADDR e)))) [0..<1024]) (\<lambda>_.
        kfree pgdir)))"

definition copyuvm_page :: "u32 \<Rightarrow> u32 \<Rightarrow> u32 \<Rightarrow> ('z vm_scheme, unit option) km" where
  "copyuvm_page pgdir d i =
     bindk (walkpgdir pgdir i False) (\<lambda>w.
     case w of None \<Rightarrow> panic ''copyuvm: pte should exist''
     | Some pte \<Rightarrow>
         bindk (load32 pte) (\<lambda>e.
         if e AND PTE_P = 0 then panic ''copyuvm: page not present''
         else
           bindk kalloc (\<lambda>m.
           if m = 0 then ret (Some ())
           else
             bindk (modk (\<lambda>s. s\<lparr>phys := memmove (phys s) (unat m) (unat (PTE_ADDR e)) (unat PGSIZE)\<rparr>)) (\<lambda>_.
             bindk (mappages d i PGSIZE m (PTE_W OR PTE_U)) (\<lambda>v.
             ret (if v < 0 then Some () else None))))))"

definition copyuvm_list :: "u32 \<Rightarrow> u32 list \<Rightarrow> ('z vm_scheme, u32) km" where
  "copyuvm_list pgdir is =
     bindk setupkvm (\<lambda>d.
     if d = 0 then ret 0
     else
       bindk (search (copyuvm_page pgdir d) is) (\<lambda>r.
       case r of None \<Rightarrow> ret d
       | Some _ \<Rightarrow>
           bindk (freevm d) (\<lambda>_.
           ret 0)))"

definition copyuvm :: "u32 \<Rightarrow> u32 \<Rightarrow> ('z vm_scheme, u32) km" where
  "copyuvm pgdir sz = copyuvm_list pgdir (pages 0 sz)"

definition uva2ka :: "u32 \<Rightarrow> u32 \<Rightarrow> ('z vm_scheme, u32) km" where
  "uva2ka pgdir uva =
     bindk (walkpgdir pgdir uva False) (\<lambda>w.
     case w of None \<Rightarrow> undef ''null pte''
     | Some pte \<Rightarrow>
         bindk (load32 pte) (\<lambda>e.
         ret (if e AND PTE_P = 0 then 0 else if e AND PTE_U = 0 then 0 else PTE_ADDR e)))"

text \<open>
  The loop of \<open>copyout\<close>. A round copies at least one byte, so \<open>len\<close> rounds are enough.
\<close>

fun copyout_loop :: "nat \<Rightarrow> u32 \<Rightarrow> u32 \<Rightarrow> u8 list \<Rightarrow> ('z vm_scheme, int) km" where
  "copyout_loop k pgdir va [] = ret 0"
| "copyout_loop 0 pgdir va (b # bs) = ret 0"
| "copyout_loop (Suc k) pgdir va (b # bs) =
     (let va0 = PGROUNDDOWN va; n = min (unat (PGSIZE - (va - va0))) (length (b # bs)) in
      bindk (uva2ka pgdir va0) (\<lambda>pa0.
      if pa0 = 0 then ret (- 1)
      else
        bindk (modk (\<lambda>s. s\<lparr>phys := (\<lambda>i. if unat (pa0 + (va - va0)) \<le> i \<and> i < unat (pa0 + (va - va0)) + n
              then (b # bs) ! (i - unat (pa0 + (va - va0))) else phys s i)\<rparr>)) (\<lambda>_.
        copyout_loop k pgdir (va0 + PGSIZE) (drop n (b # bs)))))"

definition copyout :: "u32 \<Rightarrow> u32 \<Rightarrow> u8 list \<Rightarrow> ('z vm_scheme, int) km" where
  "copyout pgdir va bs = copyout_loop (length bs) pgdir va bs"

end
