(* ===== verification/Proc.thy ===== *)
theory Proc
  imports Vm
begin

text \<open>
  The life of a process and the scheduler (\<open>kernel/proc.c\<close> with reservations and the spot
  market) and the process system calls (\<open>kernel/sysproc.c\<close>). A process's trap frame is part of
  its entry, its saved register context is not modelled. The code of \<open>initcode.S\<close> is a
  parameter of \<open>userinit\<close>.
\<close>

record kern = vm +
  next_rand :: u32
  totalpercent :: u32
  numadded :: u32

lemma unlocked_kern [simp]:
  "unlocked lk (s\<lparr>next_rand := x0\<rparr>) = unlocked lk s"
  "unlocked lk (s\<lparr>totalpercent := x1\<rparr>) = unlocked lk s"
  "unlocked lk (s\<lparr>numadded := x2\<rparr>) = unlocked lk s"
  by (simp_all add: unlocked_def)

lemma nolocks_kern [simp]:
  "nolocks (s\<lparr>next_rand := x0\<rparr>) = nolocks s"
  "nolocks (s\<lparr>totalpercent := x1\<rparr>) = nolocks s"
  "nolocks (s\<lparr>numadded := x2\<rparr>) = nolocks s"
  by (simp_all add: nolocks_def)

definition random :: "('z kern_scheme, int) km" where
  "random =
     bindk (modk (\<lambda>s. s\<lparr>next_rand := next_rand s * 11035 + 12345\<rparr>)) (\<lambda>_.
     getk (\<lambda>s. uint ((next_rand s div 65536) mod 3276)))"

definition pinit :: "('z kern_scheme, unit) km" where
  "pinit = initlk LkPtable"

section \<open>Creating processes\<close>

definition allocproc :: "('z kern_scheme, nat option) km" where
  "allocproc =
     bindk (acq LkPtable) (\<lambda>_.
     bindk (getk ptable) (\<lambda>t.
     case find (\<lambda>p. p_state (t p) = UNUSED) [0..<NPROC] of
       None \<Rightarrow>
         bindk (rel LkPtable) (\<lambda>_.
         ret None)
     | Some p \<Rightarrow>
         bindk (getk nextpid) (\<lambda>n.
         bindk (upd_proc p (\<lambda>q. q\<lparr>p_state := EMBRYO, p_pid := n\<rparr>)) (\<lambda>_.
         bindk (modk (\<lambda>s. s\<lparr>nextpid := nextpid s + 1\<rparr>)) (\<lambda>_.
         bindk (rel LkPtable) (\<lambda>_.
         bindk kalloc (\<lambda>k.
         bindk (upd_proc p (\<lambda>q. q\<lparr>p_kstack := k\<rparr>)) (\<lambda>_.
         if k = 0 then
           bindk (upd_proc p (\<lambda>q. q\<lparr>p_state := UNUSED\<rparr>)) (\<lambda>_.
           ret None)
         else ret (Some p)))))))))"

definition safe_name :: "u8 list \<Rightarrow> u8 list" where
  "safe_name nm = take 15 nm"

definition userinit :: "u8 list \<Rightarrow> ('z kern_scheme, unit) km" where
  "userinit initcode =
     bindk allocproc (\<lambda>r.
     bindk (acq LkPtable) (\<lambda>_.
     bindk (modk (\<lambda>s. s\<lparr>initproc := r\<rparr>)) (\<lambda>_.
     case r of None \<Rightarrow> undef ''null process''
     | Some p \<Rightarrow>
         bindk setupkvm (\<lambda>d.
         bindk (upd_proc p (\<lambda>q. q\<lparr>p_pgdir := d\<rparr>)) (\<lambda>_.
         if d = 0 then panic ''userinit: out of memory?''
         else
           bindk (inituvm d initcode) (\<lambda>_.
           bindk (upd_proc p (\<lambda>q. q\<lparr>p_sz := PGSIZE, p_tf := \<lparr>tf_eax = 0, tf_esp = PGSIZE, tf_eip = 0,
              tf_eflags = 0x200, tf_cs = 35, tf_ds = 43, tf_es = 43, tf_ss = 43, tf_trapno = 0, tf_err = 0\<rparr>,
              p_name := safe_name [105, 110, 105, 116, 99, 111, 100, 101]\<rparr>)) (\<lambda>_.
           bindk (namei [47]) (\<lambda>cwd.
           bindk (upd_proc p (\<lambda>q. q\<lparr>p_cwd := cwd, p_state := RUNNABLE\<rparr>)) (\<lambda>_.
           rel LkPtable)))))))))"

definition growproc :: "u32 \<Rightarrow> ('z kern_scheme, int) km" where
  "growproc n =
     bindk myproc (\<lambda>p.
     bindk myslot (\<lambda>q.
     bindk (if 0 < sint n then bindk (allocuvm (p_pgdir q) (p_sz q) (p_sz q + n)) (\<lambda>z. ret (if z = 0 then None else Some z))
          else if sint n < 0 then bindk (deallocuvm (p_pgdir q) (p_sz q) (p_sz q + n)) (\<lambda>z. ret (if z = 0 then None else Some z))
          else ret (Some (p_sz q))) (\<lambda>r.
     case r of None \<Rightarrow> ret (- 1)
     | Some sz \<Rightarrow>
         bindk (upd_proc p (\<lambda>q. q\<lparr>p_sz := sz\<rparr>)) (\<lambda>_.
         bindk (switchuvm p) (\<lambda>_.
         ret 0)))))"

definition dup_ofile :: "nat \<Rightarrow> nat \<Rightarrow> ('z kern_scheme, unit) km" where
  "dup_ofile np i =
     bindk myslot (\<lambda>q.
     case p_ofile q i of None \<Rightarrow> ret ()
     | Some f \<Rightarrow>
         bindk (filedup f) (\<lambda>g.
         upd_proc np (\<lambda>n. n\<lparr>p_ofile := (p_ofile n)(i := Some g)\<rparr>)))"

definition fork :: "('z kern_scheme, int) km" where
  "fork =
     bindk allocproc (\<lambda>r.
     case r of None \<Rightarrow> ret (- 1)
     | Some np \<Rightarrow>
         bindk myproc (\<lambda>me.
         bindk myslot (\<lambda>q.
         bindk (copyuvm (p_pgdir q) (p_sz q)) (\<lambda>d.
         bindk (upd_proc np (\<lambda>n. n\<lparr>p_pgdir := d\<rparr>)) (\<lambda>_.
         if d = 0 then
           bindk (getk (\<lambda>s. p_kstack (ptable s np))) (\<lambda>k.
           bindk (kfree k) (\<lambda>_.
           bindk (upd_proc np (\<lambda>n. n\<lparr>p_kstack := 0, p_state := UNUSED\<rparr>)) (\<lambda>_.
           ret (- 1))))
         else
           bindk myslot (\<lambda>q.
           bindk (upd_proc np (\<lambda>n. n\<lparr>p_sz := p_sz q, p_parent := Some me, p_tf := (p_tf q)\<lparr>tf_eax := 0\<rparr>\<rparr>)) (\<lambda>_.
           bindk (foreach (dup_ofile np) [0..<NOFILE]) (\<lambda>_.
           bindk (case p_cwd q of None \<Rightarrow> undef ''null cwd'' | Some c \<Rightarrow> idup c) (\<lambda>c.
           bindk (upd_proc np (\<lambda>n. n\<lparr>p_cwd := Some c, p_state := RUNNABLE, p_name := safe_name (p_name q)\<rparr>)) (\<lambda>_.
           bindk (getk (\<lambda>s. p_pid (ptable s np))) (\<lambda>pid.
           ret pid)))))))))))"

section \<open>Exit and wait\<close>

definition close_ofile :: "nat \<Rightarrow> ('z kern_scheme, unit) km" where
  "close_ofile fd =
     bindk myproc (\<lambda>me.
     bindk myslot (\<lambda>q.
     case p_ofile q fd of None \<Rightarrow> ret ()
     | Some f \<Rightarrow>
         bindk (fileclose f) (\<lambda>_.
         upd_proc me (\<lambda>q. q\<lparr>p_ofile := (p_ofile q)(fd := None)\<rparr>))))"

text \<open>\<open>wakeup1\<close> on a process pointer; no process sleeps on the null channel.\<close>

definition wakeup1_proc :: "nat option \<Rightarrow> ('z kern_scheme, unit) km" where
  "wakeup1_proc po = (case po of None \<Rightarrow> ret () | Some p \<Rightarrow> wakeup1 (ChProc p))"

definition reparent :: "nat \<Rightarrow> nat \<Rightarrow> ('z kern_scheme, unit) km" where
  "reparent me p =
     bindk (getk (\<lambda>s. ptable s p)) (\<lambda>q.
     whenk (p_parent q = Some me)
       (bindk (getk initproc) (\<lambda>i.
         bindk (upd_proc p (\<lambda>q. q\<lparr>p_parent := i\<rparr>)) (\<lambda>_.
         whenk (p_state q = ZOMBIE) (wakeup1_proc i)))))"

definition exit :: "('z kern_scheme, unit) km" where
  "exit =
     bindk myproc (\<lambda>me.
     bindk (getk initproc) (\<lambda>i.
     if i = Some me then panic ''init exiting''
     else
       bindk (foreach close_ofile [0..<NOFILE]) (\<lambda>_.
       bindk myslot (\<lambda>q.
       bindk (case p_cwd q of None \<Rightarrow> undef ''null cwd'' | Some c \<Rightarrow> iput c) (\<lambda>_.
       bindk (upd_proc me (\<lambda>q. q\<lparr>p_cwd := None\<rparr>)) (\<lambda>_.
       bindk (acq LkPtable) (\<lambda>_.
       bindk myslot (\<lambda>q.
       bindk (wakeup1_proc (p_parent q)) (\<lambda>_.
       bindk (foreach (reparent me) [0..<NPROC]) (\<lambda>_.
       bindk (upd_proc me (\<lambda>q. q\<lparr>p_state := ZOMBIE\<rparr>)) (\<lambda>_.
       bindk sched (\<lambda>_.
       panic ''zombie exit''))))))))))))"

text \<open>The scan of \<open>wait\<close> for a zombie child, which it frees.\<close>

definition reap :: "nat \<Rightarrow> nat \<Rightarrow> ('z kern_scheme, int option) km" where
  "reap me p =
     bindk (getk (\<lambda>s. ptable s p)) (\<lambda>q.
     if p_parent q \<noteq> Some me \<or> p_state q \<noteq> ZOMBIE then ret None
     else
       bindk (kfree (p_kstack q)) (\<lambda>_.
       bindk (upd_proc p (\<lambda>q. q\<lparr>p_kstack := 0\<rparr>)) (\<lambda>_.
       bindk (freevm (p_pgdir q)) (\<lambda>_.
       bindk (upd_proc p (\<lambda>q. q\<lparr>p_state := UNUSED, p_pid := 0, p_parent := None, p_name := [], p_killed := False\<rparr>)) (\<lambda>_.
       bindk (rel LkPtable) (\<lambda>_.
       ret (Some (p_pid q))))))))"

definition wait :: "('z kern_scheme, int) km" where
  "wait =
     bindk (acq LkPtable) (\<lambda>_.
     bindk myproc (\<lambda>me.
     bindk (search (reap me) [0..<NPROC]) (\<lambda>r.
     case r of Some pid \<Rightarrow> ret pid
     | None \<Rightarrow>
         bindk (getk ptable) (\<lambda>t.
         if \<not> list_ex (\<lambda>p. p_parent (t p) = Some me) [0..<NPROC] \<or> p_killed (t me) then
           bindk (rel LkPtable) (\<lambda>_.
           ret (- 1))
         else
           bindk (sleep (ChProc me) (Some LkPtable)) (\<lambda>_.
           ret (- 1))))))"

section \<open>The scheduler\<close>

text \<open>
  The first loop of \<open>scheduler\<close>: the number of runnable reserved and of runnable spot processes,
  and the highest bid of the latter.
\<close>

fun count_procs :: "(nat \<Rightarrow> proc) \<Rightarrow> nat list \<Rightarrow> int \<times> int \<times> int \<Rightarrow> int \<times> int \<times> int" where
  "count_procs t [] acc = acc"
| "count_procs t (p # ps) (nrp, nsp, bid) =
     (if p_state (t p) \<noteq> RUNNABLE then count_procs t ps (nrp, nsp, bid)
      else count_procs t ps
        (if p_rpercent (t p) > 0 then nrp + 1 else nrp,
         if p_rpercent (t p) = 0 then nsp + 1 else nsp,
         if p_rpercent (t p) = 0 \<and> bid < p_spotbid (t p) then p_spotbid (t p) else bid))"

datatype choice = Reserved nat | Spot nat | Idle

text \<open>The second loop: \<open>nrp\<close> reserved processes not met yet and the tickets added up so far.\<close>

fun lottery :: "(nat \<Rightarrow> proc) \<Rightarrow> int \<Rightarrow> int \<Rightarrow> int \<Rightarrow> int \<Rightarrow> int \<Rightarrow> nat list \<Rightarrow> choice" where
  "lottery t rand nsp bid nrp ticket [] = Idle"
| "lottery t rand nsp bid nrp ticket (p # ps) =
     (if p_state (t p) \<noteq> RUNNABLE then lottery t rand nsp bid nrp ticket ps
      else if p_rpercent (t p) > 0 then
        (if ticket + p_rpercent (t p) > rand then Reserved p
         else lottery t rand nsp bid (nrp - 1) (ticket + p_rpercent (t p)) ps)
      else if nrp = 0 \<and> nsp \<noteq> 0 \<and> ticket < rand \<and> p_spotbid (t p) = bid then Spot p
      else lottery t rand nsp bid nrp ticket ps)"

definition pick :: "(nat \<Rightarrow> proc) \<Rightarrow> int \<Rightarrow> choice" where
  "pick t rand =
     (case count_procs t [0..<NPROC] (0, 0, 0) of
        (nrp, nsp, bid) \<Rightarrow> lottery t rand nsp bid nrp 0 [0..<NPROC])"

definition run_proc :: "nat \<Rightarrow> ('z kern_scheme, unit) km" where
  "run_proc p =
     bindk (modk (\<lambda>s. s\<lparr>curproc := Some p\<rparr>)) (\<lambda>_.
     bindk (switchuvm p) (\<lambda>_.
     upd_proc p (\<lambda>q. q\<lparr>p_state := RUNNING\<rparr>)))"

text \<open>
  One round of \<open>scheduler\<close> up to the \<open>swtch\<close> into the chosen process, or to its end when
  nobody is chosen; the result is the choice.
\<close>

definition scheduler_pick :: "('z kern_scheme, choice) km" where
  "scheduler_pick =
     bindk (modk (\<lambda>s. s\<lparr>lockst := upd_cpu (mycpu s) (\<lambda>k. k\<lparr>fl_if := True\<rparr>) (lockst s)\<rparr>)) (\<lambda>_.
     bindk (acq LkPtable) (\<lambda>_.
     bindk (getk ptable) (\<lambda>t.
     bindk random (\<lambda>r.
     case pick t (r mod 200) of
       Reserved p \<Rightarrow>
         bindk (run_proc p) (\<lambda>_.
         ret (Reserved p))
     | Spot p \<Rightarrow>
         bindk (run_proc p) (\<lambda>_.
         ret (Spot p))
     | Idle \<Rightarrow>
         bindk (modk (\<lambda>s. s\<lparr>curproc := None\<rparr>)) (\<lambda>_.
         bindk (rel LkPtable) (\<lambda>_.
         ret Idle))))))"

text \<open>The bookkeeping when the process has given the CPU back, and the end of the round.\<close>

definition account :: "int \<Rightarrow> proc \<Rightarrow> proc" where
  "account fee q =
     (let c = p_charge q + fee in
      q\<lparr>p_numofused := p_numofused q + 1, p_runningtime := p_runningtime q + 10,
        p_charge := (if c > 1000 then c mod 1000 else c),
        p_tcharge := (if c > 1000 then p_tcharge q + 1 else p_tcharge q)\<rparr>)"

definition scheduler_return :: "choice \<Rightarrow> ('z kern_scheme, unit) km" where
  "scheduler_return ch =
     bindk switchkvm (\<lambda>_.
     bindk (case ch of
        Reserved p \<Rightarrow> upd_proc p (account 10)
      | Spot p \<Rightarrow> upd_proc p (\<lambda>q. account (sgn (p_spotbid q) * (\<bar>p_spotbid q\<bar> div 100)) q)
      | Idle \<Rightarrow> ret ()) (\<lambda>_.
     bindk (modk (\<lambda>s. s\<lparr>curproc := None\<rparr>)) (\<lambda>_.
     rel LkPtable)))"

section \<open>kernel/sysproc.c\<close>

definition sys_fork :: "('z kern_scheme, int) km" where "sys_fork = fork"
definition sys_wait :: "('z kern_scheme, int) km" where "sys_wait = wait"

definition sys_exit :: "('z kern_scheme, int) km" where
  "sys_exit = bindk exit (\<lambda>_. ret 0)"

definition sys_kill :: "('z kern_scheme, int) km" where
  "sys_kill = bindk (argint 0) (\<lambda>a. case a of None \<Rightarrow> ret (- 1) | Some pid \<Rightarrow> kill (sint pid))"

definition sys_getpid :: "('z kern_scheme, int) km" where
  "sys_getpid = bindk myslot (\<lambda>q. ret (p_pid q))"

definition sys_addnum :: "('z kern_scheme, int) km" where
  "sys_addnum =
     bindk (argint 0) (\<lambda>a.
     case a of None \<Rightarrow> ret (- 1)
     | Some n \<Rightarrow>
         bindk (modk (\<lambda>s. s\<lparr>numadded := n + numadded s\<rparr>)) (\<lambda>_.
         getk (\<lambda>s. sint (numadded s))))"

definition sys_reserve :: "('z kern_scheme, int) km" where
  "sys_reserve =
     bindk (argint 0) (\<lambda>a.
     case a of None \<Rightarrow> ret (- 1)
     | Some n \<Rightarrow>
         if sint n < 0 \<or> sint n > 100 then ret (- 1)
         else
           bindk (modk (\<lambda>s. s\<lparr>totalpercent := n + totalpercent s\<rparr>)) (\<lambda>_.
           bindk (getk (\<lambda>s. sint (totalpercent s))) (\<lambda>tot.
           if tot > 200 then ret (- 1)
           else
             bindk myproc (\<lambda>me.
             bindk (upd_proc me (\<lambda>q. q\<lparr>p_spotbid := 0, p_rpercent := sint n\<rparr>)) (\<lambda>_.
             ret (sint n))))))"

definition sys_spot :: "('z kern_scheme, int) km" where
  "sys_spot =
     bindk (argint 0) (\<lambda>a.
     case a of None \<Rightarrow> ret (- 1)
     | Some n \<Rightarrow>
         bindk myproc (\<lambda>me.
         bindk (upd_proc me (\<lambda>q. q\<lparr>p_rpercent := 0, p_spotbid := sint n\<rparr>)) (\<lambda>_.
         ret (sint n))))"

record pstat =
  ps_inuse :: bool
  ps_pid :: int
  ps_chosen :: int
  ps_time :: int
  ps_charge :: int

text \<open>
  \<open>fill_pstat\<close> fills a structure of its own stack frame and leaves the caller with a pointer to
  it; the result here is that structure.
\<close>

definition fill_pstat :: "('z kern_scheme, pstat list option) km" where
  "fill_pstat =
     bindk (argptr 0 4) (\<lambda>a.
     case a of None \<Rightarrow> ret None
     | Some _ \<Rightarrow>
         bindk (acq LkPtable) (\<lambda>_.
         bindk (getk ptable) (\<lambda>t.
         bindk (rel LkPtable) (\<lambda>_.
         ret (Some (map (\<lambda>p. \<lparr>ps_inuse = (p_state (t p) = RUNNING), ps_pid = p_pid (t p),
           ps_chosen = p_numofused (t p), ps_time = p_runningtime (t p), ps_charge = p_charge (t p)\<rparr>)
           [0..<NPROC]))))))"

definition sys_getpinfo :: "('z kern_scheme, int) km" where
  "sys_getpinfo =
     bindk (argptr 1 1280) (\<lambda>a.
     case a of None \<Rightarrow> ret (- 1)
     | Some _ \<Rightarrow>
         bindk fill_pstat (\<lambda>r.
         case r of None \<Rightarrow> ret (- 1)
         | Some _ \<Rightarrow> undef ''memcpy from a dead stack frame''))"

definition sys_sbrk :: "('z kern_scheme, int) km" where
  "sys_sbrk =
     bindk (argint 0) (\<lambda>a.
     case a of None \<Rightarrow> ret (- 1)
     | Some n \<Rightarrow>
         bindk myslot (\<lambda>q.
         bindk (growproc n) (\<lambda>r.
         ret (if r < 0 then - 1 else sint (p_sz q)))))"

text \<open>\<open>ticks - ticks0\<close> is unsigned, and so is the comparison with \<open>n\<close>.\<close>

definition sys_sleep_from :: "u32 \<Rightarrow> u32 \<Rightarrow> ('z kern_scheme, int) km" where
  "sys_sleep_from ticks0 n =
     bindk (getk ticks) (\<lambda>now.
     if now - ticks0 < n then
       bindk myslot (\<lambda>q.
       if p_killed q then
         bindk (rel LkTicks) (\<lambda>_.
         ret (- 1))
       else
         bindk (sleep ChTicks (Some LkTicks)) (\<lambda>_.
         ret 0))
     else
       bindk (rel LkTicks) (\<lambda>_.
       ret 0))"

definition sys_sleep :: "('z kern_scheme, int) km" where
  "sys_sleep =
     bindk (argint 0) (\<lambda>a.
     case a of None \<Rightarrow> ret (- 1)
     | Some n \<Rightarrow>
         bindk (acq LkTicks) (\<lambda>_.
         bindk (getk ticks) (\<lambda>ticks0.
         sys_sleep_from ticks0 n)))"

definition sys_uptime :: "('z kern_scheme, int) km" where
  "sys_uptime =
     bindk (acq LkTicks) (\<lambda>_.
     bindk (getk ticks) (\<lambda>x.
     bindk (rel LkTicks) (\<lambda>_.
     ret (sint x))))"

section \<open>The process table as a pool of slots\<close>

interpretation pt: slot_table "\<lambda>t p. p_state (t p) = UNUSED" "\<lambda>t p. t(p := (t p)\<lparr>p_state := EMBRYO\<rparr>)" NPROC
  by unfold_locales simp_all

text \<open>The table entry \<open>allocproc\<close> prepares.\<close>

definition embryo :: "int \<Rightarrow> u32 \<Rightarrow> proc \<Rightarrow> proc" where
  "embryo pid k q = q\<lparr>p_state := EMBRYO, p_pid := pid, p_kstack := k\<rparr>"

lemma allocproc_full [exec]:
  assumes "nolocks s" and "pt.first (ptable s) = None" shows "allocproc s = Done None s"
  using assms by (simp add: allocproc_def pt.first_def exec)

lemma allocproc_eq:
  assumes nl: "nolocks s" and p: "pt.first (ptable s) = Some p"
  shows "allocproc s =
    (if freelist s = 0 then Done None (s\<lparr>ptable := (ptable s)(p := (embryo (nextpid s) 0 (ptable s p))\<lparr>p_state := UNUSED\<rparr>),
       nextpid := nextpid s + 1\<rparr>)
     else Done (Some p) (s\<lparr>ptable := (ptable s)(p := embryo (nextpid s) (freelist s) (ptable s p)),
       nextpid := nextpid s + 1, freelist := get32 (phys s) (unat (freelist s))\<rparr>))"
  using nl p by (simp add: allocproc_def pt.first_def exec kalloc_eq embryo_def)

end
