(* ===== verification/Exec_Trap.thy ===== *)
theory Exec_Trap
  imports Proc
begin

text \<open>
  Loading a program (\<open>kernel/exec.c\<close>), the dispatch of system calls (\<open>kernel/syscall.c\<close>)
  and of traps (\<open>kernel/trap.c\<close>). The interrupt controller's acknowledgements are left out.
\<close>

section \<open>exec\<close>

definition ELF_MAGIC :: u32 where "ELF_MAGIC = 0x464C457F"

definition word_bytes :: "u32 \<Rightarrow> u8 list" where
  "word_bytes w = [ucast w, ucast (drop_bit 8 w), ucast (drop_bit 16 w), ucast (drop_bit 24 w)]"

text \<open>The statements after the label \<open>bad\<close>.\<close>

definition exec_bad :: "u32 \<Rightarrow> nat option \<Rightarrow> ('z kern_scheme, int) km" where
  "exec_bad pgdir ipo =
     bindk (whenk (pgdir \<noteq> 0) (freevm pgdir)) (\<lambda>_.
     bindk (case ipo of None \<Rightarrow> ret () | Some ip \<Rightarrow> iunlockput (Some ip)) (\<lambda>_.
     ret (- 1)))"

text \<open>The loop over the program headers; \<open>None\<close> when it leaves by \<open>goto bad\<close>.\<close>

primrec exec_load :: "nat \<Rightarrow> u32 \<Rightarrow> u32 list \<Rightarrow> u32 \<Rightarrow> mem \<Rightarrow> ('z kern_scheme, u32 option) km" where
  "exec_load ip pgdir [] sz junk = ret (Some sz)"
| "exec_load ip pgdir (off # offs) sz junk =
     bindk (readi ip junk off 32) (\<lambda>(r, ph).
     if r \<noteq> 32 then ret None
     else if get32 ph 0 \<noteq> 1 then exec_load ip pgdir offs sz ph
     else if get32 ph 20 < get32 ph 16 then ret None
     else
       bindk (allocuvm pgdir sz (get32 ph 8 + get32 ph 20)) (\<lambda>z.
       if z = 0 then ret None
       else
         bindk (loaduvm pgdir (get32 ph 8) ip (get32 ph 4) (get32 ph 16)) (\<lambda>v.
         if v < 0 then ret None else exec_load ip pgdir offs z ph)))"

text \<open>
  The loop that pushes the argument strings, with \<open>k\<close> more allowed: the stack pointer and the
  addresses of the strings.
\<close>

fun push_args :: "nat \<Rightarrow> u32 \<Rightarrow> u32 \<Rightarrow> u8 list list \<Rightarrow> ('z kern_scheme, (u32 \<times> u32 list) option) km" where
  "push_args k pgdir sp [] = ret (Some (sp, []))"
| "push_args 0 pgdir sp (a # as) = ret None"
| "push_args (Suc k) pgdir sp (a # as) =
     (let sp' = (sp - of_nat (length a + 1)) AND NOT 3 in
      bindk (copyout pgdir sp' (a @ [0])) (\<lambda>v.
      if v < 0 then ret None
      else
        bindk (push_args k pgdir sp' as) (\<lambda>r.
        ret (map_option (\<lambda>(sp, ps). (sp, sp' # ps)) r))))"

definition last_elem :: "u8 list \<Rightarrow> u8 list" where
  "last_elem path = rev (takeWhile (\<lambda>c. c \<noteq> 47) (rev path))"

definition exec_stack :: "u32 \<Rightarrow> u32 \<Rightarrow> u8 list list \<Rightarrow> ('z kern_scheme, u32 option) km" where
  "exec_stack pgdir sp argv =
     bindk (push_args MAXARG pgdir sp argv) (\<lambda>r.
     case r of None \<Rightarrow> ret None
     | Some (sp1, ps) \<Rightarrow>
         (let argc = of_nat (length ps); sp2 = sp1 - (3 + argc + 1) * 4;
              ustack = [0xffffffff, argc, sp1 - (argc + 1) * 4] @ ps @ [0] in
          bindk (copyout pgdir sp2 (concat (map word_bytes ustack))) (\<lambda>v.
          ret (if v < 0 then None else Some sp2))))"

definition exec_commit :: "u8 list \<Rightarrow> u32 \<Rightarrow> u32 \<Rightarrow> u32 \<Rightarrow> u32 \<Rightarrow> ('z kern_scheme, int) km" where
  "exec_commit path pgdir sz entry sp =
     bindk myproc (\<lambda>me.
     bindk (getk (\<lambda>s. p_pgdir (ptable s me))) (\<lambda>old.
     bindk (upd_proc me (\<lambda>q. q\<lparr>p_name := safe_name (last_elem path), p_pgdir := pgdir, p_sz := sz,
        p_tf := (p_tf q)\<lparr>tf_eip := entry, tf_esp := sp\<rparr>\<rparr>)) (\<lambda>_.
     bindk (switchuvm me) (\<lambda>_.
     bindk (freevm old) (\<lambda>_.
     ret 0)))))"

definition exec :: "u8 list \<Rightarrow> u8 list list \<Rightarrow> mem \<Rightarrow> ('z kern_scheme, int) km" where
  "exec path argv junk =
     bindk (namei path) (\<lambda>r.
     case r of None \<Rightarrow> ret (- 1)
     | Some ip \<Rightarrow>
       bindk (ilock (Some ip)) (\<lambda>_.
       bindk (readi ip junk 0 52) (\<lambda>(n, elf).
       if (word_of_int n :: u32) < 52 then exec_bad 0 (Some ip)
       else if get32 elf 0 \<noteq> ELF_MAGIC then exec_bad 0 (Some ip)
       else
         bindk setupkvm (\<lambda>pgdir.
         if pgdir = 0 then exec_bad 0 (Some ip)
         else
           bindk (exec_load ip pgdir
                (map (\<lambda>i. get32 elf 28 + 32 * of_nat i) [0..<unat (get16 elf 44)]) 0 junk) (\<lambda>z.
           case z of None \<Rightarrow> exec_bad pgdir (Some ip)
           | Some sz0 \<Rightarrow>
             bindk (iunlockput (Some ip)) (\<lambda>_.
             bindk (allocuvm pgdir (PGROUNDUP sz0) (PGROUNDUP sz0 + PGSIZE)) (\<lambda>sz.
             if sz = 0 then exec_bad pgdir None
             else
               bindk (exec_stack pgdir sz argv) (\<lambda>st.
               case st of None \<Rightarrow> exec_bad pgdir None
               | Some sp \<Rightarrow> exec_commit path pgdir sz (get32 elf 24) sp))))))))"

definition sys_exec :: "mem \<Rightarrow> ('z kern_scheme, int) km" where
  "sys_exec junk =
     bindk sys_exec_args (\<lambda>a.
     case a of None \<Rightarrow> ret (- 1) | Some (path, argv) \<Rightarrow> exec path argv junk)"

section \<open>System calls\<close>

text \<open>The table \<open>syscalls\<close>.\<close>

definition syscalls :: "mem \<Rightarrow> int \<Rightarrow> ('z kern_scheme, int) km option" where
  "syscalls junk num =
     (if num = 1 then Some sys_fork else if num = 2 then Some sys_exit
      else if num = 3 then Some sys_wait else if num = 4 then Some sys_pipe
      else if num = 5 then Some sys_write else if num = 6 then Some sys_read
      else if num = 7 then Some sys_close else if num = 8 then Some sys_kill
      else if num = 9 then Some (sys_exec junk) else if num = 10 then Some (sys_open junk)
      else if num = 11 then Some (sys_mknod junk) else if num = 12 then Some (sys_unlink junk)
      else if num = 13 then Some sys_fstat else if num = 14 then Some (sys_link junk)
      else if num = 15 then Some (sys_mkdir junk) else if num = 16 then Some sys_chdir
      else if num = 17 then Some sys_dup else if num = 18 then Some sys_getpid
      else if num = 19 then Some sys_sbrk else if num = 20 then Some sys_sleep
      else if num = 21 then Some sys_uptime else if num = 22 then Some sys_addnum
      else if num = 23 then Some sys_reserve else if num = 24 then Some sys_spot
      else if num = 25 then Some sys_getpinfo else None)"

definition syscall :: "mem \<Rightarrow> ('z kern_scheme, unit) km" where
  "syscall junk =
     bindk myslot (\<lambda>q.
     bindk (case syscalls junk (sint (tf_eax (p_tf q))) of Some f \<Rightarrow> f | None \<Rightarrow> ret (- 1)) (\<lambda>r.
     bindk myproc (\<lambda>me.
     upd_proc me (\<lambda>q. q\<lparr>p_tf := (p_tf q)\<lparr>tf_eax := word_of_int r\<rparr>\<rparr>))))"

section \<open>Traps\<close>

definition T_SYSCALL :: u32 where "T_SYSCALL = 64"
definition T_IRQ0 :: u32 where "T_IRQ0 = 32"

definition exit_if_killed :: "('z kern_scheme, unit) km" where
  "exit_if_killed = bindk myslot (\<lambda>q. whenk (p_killed q) exit)"

text \<open>\<open>if(proc && proc->killed && (tf->cs&3) == DPL_USER) exit();\<close>\<close>

definition exit_if_killed_user :: "trapframe \<Rightarrow> ('z kern_scheme, unit) km" where
  "exit_if_killed_user tf =
     bindk (getk curproc) (\<lambda>c.
     case c of None \<Rightarrow> ret ()
     | Some p \<Rightarrow>
         bindk (getk (\<lambda>s. ptable s p)) (\<lambda>q.
         whenk (p_killed q \<and> tf_cs tf AND 3 = 3) exit))"

definition timer_tick :: "('z kern_scheme, unit) km" where
  "timer_tick =
     bindk (getk mycpu) (\<lambda>c.
     whenk (c = 0)
       (bindk (acq LkTicks) (\<lambda>_.
         bindk (modk (\<lambda>s. s\<lparr>ticks := ticks s + 1\<rparr>)) (\<lambda>_.
         bindk (wakeup ChTicks) (\<lambda>_.
         rel LkTicks)))))"

definition bad_trap :: "trapframe \<Rightarrow> ('z kern_scheme, unit) km" where
  "bad_trap tf =
     bindk (getk curproc) (\<lambda>c.
     case c of None \<Rightarrow> panic ''trap''
     | Some p \<Rightarrow>
         if tf_cs tf AND 3 = 0 then panic ''trap''
         else upd_proc p (\<lambda>q. q\<lparr>p_killed := True\<rparr>))"

text \<open>
  \<open>trap\<close>; \<open>keys\<close> are the characters the keyboard or serial driver delivers to
  \<open>consoleintr\<close>. The interrupt numbers are those of \<open>include/traps.h\<close>.
\<close>

definition trap_irq :: "trapframe \<Rightarrow> int list \<Rightarrow> ('z kern_scheme, unit) km" where
  "trap_irq tf keys =
     (if tf_trapno tf = T_IRQ0 + 0 then timer_tick
      else if tf_trapno tf = T_IRQ0 + 14 then ideintr
      else if tf_trapno tf = T_IRQ0 + 15 then ret ()
      else if tf_trapno tf = T_IRQ0 + 1 \<or> tf_trapno tf = T_IRQ0 + 4 then consoleintr keys
      else if tf_trapno tf = T_IRQ0 + 7 \<or> tf_trapno tf = T_IRQ0 + 31 then ret ()
      else bad_trap tf)"

definition trap :: "trapframe \<Rightarrow> int list \<Rightarrow> mem \<Rightarrow> ('z kern_scheme, unit) km" where
  "trap tf keys junk =
     (if tf_trapno tf = T_SYSCALL then
        bindk exit_if_killed (\<lambda>_.
        bindk myproc (\<lambda>me.
        bindk (upd_proc me (\<lambda>q. q\<lparr>p_tf := tf\<rparr>)) (\<lambda>_.
        bindk (syscall junk) (\<lambda>_.
        exit_if_killed))))
      else
        bindk (trap_irq tf keys) (\<lambda>_.
        bindk (exit_if_killed_user tf) (\<lambda>_.
        bindk (getk (\<lambda>s. case curproc s of None \<Rightarrow> False | Some p \<Rightarrow> p_state (ptable s p) = RUNNING)) (\<lambda>c.
        bindk (whenk (c \<and> tf_trapno tf = T_IRQ0 + 0) yield) (\<lambda>_.
        exit_if_killed_user tf)))))"

end
