(* ===== verification/Boot.thy ===== *)
theory Boot
  imports Exec_Trap
begin

text \<open>
  The start of the kernel: the zero-filled state the loader leaves, the initialisation sequence of
  \<open>mainc\<close> (\<open>kernel/main.c\<close>) as far as it concerns modelled parts, and the state it reaches.
  The states defined here also serve as concrete inputs of the other theories' properties.
\<close>

definition tf0 :: trapframe where
  "tf0 = \<lparr>tf_eax = 0, tf_esp = 0, tf_eip = 0, tf_eflags = 0, tf_cs = 0, tf_ds = 0, tf_es = 0, tf_ss = 0,
     tf_trapno = 0, tf_err = 0\<rparr>"

definition proc0 :: proc where
  "proc0 = \<lparr>p_sz = 0, p_pgdir = 0, p_kstack = 0, p_state = UNUSED, p_rpercent = 0, p_spotbid = 0,
     p_charge = 0, p_tcharge = 0, p_numofused = 0, p_runningtime = 0, p_pid = 0, p_parent = None,
     p_tf = tf0, p_chan = None, p_killed = False, p_ofile = (\<lambda>_. None), p_cwd = None, p_name = []\<rparr>"

definition spin0 :: spin where
  "spin0 = \<lparr>lks = (\<lambda>_. \<lparr>locked = False, lk_cpu = None\<rparr>), cpus = (\<lambda>_. \<lparr>ncli = 0, intena = False, fl_if = False\<rparr>)\<rparr>"

definition buf0 :: buf where
  "buf0 = \<lparr>b_busy = False, b_valid = False, b_dirty = False, b_dev = 0, b_sector = 0, b_data = (\<lambda>_. 0)\<rparr>"

definition inode0 :: inode where
  "inode0 = \<lparr>i_dev = 0, i_inum = 0, i_ref = 0, i_busy = False, i_valid = False, i_type = 0, i_major = 0,
     i_minor = 0, i_nlink = 0, i_size = 0, i_addrs = (\<lambda>_. 0)\<rparr>"

definition file0 :: xfile where
  "file0 = \<lparr>f_type = FD_NONE, f_ref = 0, f_readable = False, f_writable = False, f_pipe = 0, f_ip = 0, f_off = 0\<rparr>"

definition pipe0 :: pipe where
  "pipe0 = \<lparr>pp_data = (\<lambda>_. 0), pp_nread = 0, pp_nwrite = 0, pp_readopen = False, pp_writeopen = False\<rparr>"

text \<open>The zero-filled kernel data, with the drives' contents \<open>d\<close>.\<close>

definition bss :: "(u32 \<Rightarrow> u32 \<Rightarrow> block) \<Rightarrow> kern" where
  "bss d = \<lparr>lockst = spin0, mycpu = 0, ptable = (\<lambda>_. proc0), curproc = None, initproc = None, nextpid = 1,
     ticks = 0, phys = (\<lambda>_. 0), freelist = 0, kend = 0x110000, bufs = (\<lambda>_. buf0), lru = [], idequeue = [],
     havedisk1 = False, disk = d, drive_error = (\<lambda>_ _. False), icache = (\<lambda>_. inode0), panicked = False,
     cons_locking = False, crt = (\<lambda>_. 0), crtpos = 0, uart_out = [], in_buf = (\<lambda>_. 0), in_r = 0, in_w = 0,
     in_e = 0, devsw = (\<lambda>_. False), ftable = (\<lambda>_. file0), pipes = (\<lambda>_. pipe0), umem = (\<lambda>_. 0),
     kdata = 0x108000, kpgdir = 0, cr3 = 0, next_rand = 3, totalpercent = 0, numadded = 0\<rparr>"

definition tvinit :: "('z kern_scheme, unit) km" where
  "tvinit = initlk LkTicks"

text \<open>\<open>ideinit\<close>; \<open>have1\<close> tells whether drive 1 answers the probe.\<close>

definition ideinit :: "bool \<Rightarrow> ('z kern_scheme, unit) km" where
  "ideinit have1 =
     bindk (initlk LkIde) (\<lambda>_.
     whenk have1 (modk (\<lambda>s. s\<lparr>havedisk1 := True\<rparr>)))"

definition mainc_init :: "bool \<Rightarrow> ('z kern_scheme, unit) km" where
  "mainc_init have1 =
     bindk consoleinit (\<lambda>_.
     bindk kvmalloc (\<lambda>_.
     bindk pinit (\<lambda>_.
     bindk tvinit (\<lambda>_.
     bindk binit (\<lambda>_.
     bindk fileinit (\<lambda>_.
     bindk iinit (\<lambda>_.
     ideinit have1)))))))"

text \<open>The state \<open>mainc\<close> reaches on a machine with two drives and no free page.\<close>

definition booted :: "(u32 \<Rightarrow> u32 \<Rightarrow> block) \<Rightarrow> kern" where
  "booted d = (bss d)\<lparr>lru := rev [0..<NBUF], bufs := (\<lambda>b. if b < NBUF then buf0\<lparr>b_dev := - 1\<rparr> else buf0),
     havedisk1 := True, devsw := (\<lambda>_. False)(CONSOLE := True), cons_locking := True\<rparr>"

lemma initlk_eq:
  "initlk lk s = Done () (s\<lparr>lockst := (lockst s)\<lparr>lks := (lks (lockst s))(lk := \<lparr>locked = False, lk_cpu = None\<rparr>)\<rparr>\<rparr>)"
  by (simp add: initlk_def zoom_def initlock_def exec)

lemma nolocks_bss [simp]: "nolocks (bss d)"
  by (simp add: nolocks_def unlocked_def bss_def spin0_def lk_free_def spin_ok_def)

lemma initlk_clear [exec]: "nolocks s \<Longrightarrow> initlk lk s = Done () s"
proof -
  assume "nolocks s"
  then have "lks (lockst s) lk = \<lparr>locked = False, lk_cpu = None\<rparr>"
    using nolocks_spin(1) [of s lk] by (simp add: lk_free_def)
  then have "(lks (lockst s))(lk := \<lparr>locked = False, lk_cpu = None\<rparr>) = lks (lockst s)" by auto
  then show ?thesis by (simp add: initlk_eq)
qed

lemma mainc_boots: "mainc_init True (bss d) = Done () (booted d)"
  unfolding mainc_init_def consoleinit_def kvmalloc_def setupkvm_def pinit_def tvinit_def binit_def
    fileinit_def iinit_def ideinit_def
  by (simp add: exec kalloc_eq) (simp add: bss_def booted_def cong: if_cong)

lemma nolocks_booted [simp]: "nolocks (booted d)"
  by (simp add: booted_def)

lemma booted_bok: "dev \<noteq> - 1 \<Longrightarrow> bok {} dev (booted d)"
  unfolding bok_def
  by (rule conjI, simp add: cache_ok_def booted_def bss_def buf0_def, auto)
    (simp_all add: present_def booted_def bss_def)

lemma booted_sel [simp]:
  "freelist (booted d) = 0" "kend (booted d) = 0x110000" "phys (booted d) = (\<lambda>_. 0)" "curproc (booted d) = None"
  "nextpid (booted d) = 1" "ftable (booted d) = (\<lambda>_. file0)" "pipes (booted d) = (\<lambda>_. pipe0)"
  "umem (booted d) = (\<lambda>_. 0)" "mycpu (booted d) = 0" "lockst (booted d) = spin0" "initproc (booted d) = None"
  "next_rand (booted d) = 3" "totalpercent (booted d) = 0" "in_r (booted d) = 0" "in_w (booted d) = 0"
  "in_e (booted d) = 0" "panicked (booted d) = False" "kdata (booted d) = 0x108000" "ticks (booted d) = 0"
  "disk (booted d) = d" "icache (booted d) = (\<lambda>_. inode0)" "ptable (booted d) = (\<lambda>_. proc0)"
  "held {} s = {}" "meta_free {} dev t" "blk_free {} dev t n = (n \<noteq> 1 \<and> n \<notin> bitmap_blocks (disk t dev))"
  by (simp_all add: booted_def bss_def held_def meta_free_def blk_free_def)

end
