(* ===== verification/Block_Props.thy ===== *)
theory Block_Props
  imports Boot
begin

text \<open>
  Properties of the buffer cache and the block allocator, with a small disk image as concrete
  input: 100 blocks, 8 inodes, the bitmap in block 4 with blocks 0 to 7 in use.
\<close>

definition small_disk :: "u32 \<Rightarrow> u32 \<Rightarrow> block" where
  "small_disk dev n i =
     (if n = 1 then (if i = 0 then 100 else if i = 8 then 8 else 0)
      else if n = 4 \<and> i = 0 then 255 else 0)"

lemma small_disk_sb: "sb_of (small_disk dev) = \<lparr>sb_size = 100, sb_nblocks = 0, sb_ninodes = 8\<rparr>"
  by (simp add: sb_of_def get_sb_def get32_def small_disk_def)

lemma small_disk_bitmap: "bitmap_blocks (small_disk dev) = {4}"
  by (simp add: bitmap_blocks_def small_disk_sb bitmap_starts_def BPB_def BSIZE_def BBLOCK_def)

lemma byte_ones: "k < 8 \<Longrightarrow> bit (255 :: u8) k"
proof -
  assume "k < 8"
  then consider "k = 0" | "k = 1" | "k = 2" | "k = 3" | "k = 4" | "k = 5" | "k = 6" | "k = 7" by linarith
  then show ?thesis by cases simp_all
qed

lemma small_disk_used: "unat b < 4096 \<Longrightarrow> blk_used (small_disk dev) b = (unat b < 8)"
proof -
  assume b: "unat b < 4096"
  have "BBLOCK b 8 = 4" using b by (simp add: word_unat_eq_iff unat_BBLOCK BPB_def BSIZE_def)
  then show ?thesis using b byte_ones
    by (auto simp: blk_used_def small_disk_sb bm_used_bit small_disk_def BPB_def BSIZE_def div_eq_0_iff)
qed

text \<open>The same image with a super block that ends the file system after the 8 used blocks.\<close>

definition full_disk :: "u32 \<Rightarrow> u32 \<Rightarrow> block" where
  "full_disk dev n i =
     (if n = 1 then (if i = 0 then 8 else if i = 8 then 8 else 0) else small_disk dev n i)"

section \<open>The cache\<close>





section \<open>The allocator\<close>

lemma balloc_spec_exists:
  assumes "unat b div BPB * BPB < unat (sb_size (sb_of D))" and "\<not> blk_used D b"
  obtains a D' where "balloc_spec D = Some (a, D')"
proof -
  let ?ni = "sb_ninodes (sb_of D)" and ?st = "unat b div BPB * BPB"
  have P: "0 < BPB" by (simp add: BPB_def BSIZE_def)
  have st: "?st \<in> set (bitmap_starts (sb_size (sb_of D)))"
    using assms(1) by (auto simp: bitmap_starts_mem)
  have "BBLOCK (of_nat ?st) ?ni = BBLOCK b ?ni"
    using start_addr(4) [OF st P] P by (intro BBLOCK_cong) (simp del: of_nat_mult)
  then have ff: "bm_first_free (D (BBLOCK (of_nat ?st) ?ni)) \<noteq> None"
    using assms(2) P by (auto simp: bm_first_free_None blk_used_def intro!: exI [of _ "unat b mod BPB"])
  have "find_free D ni bs \<noteq> None" if "x \<in> set bs" "bm_first_free (D (BBLOCK (of_nat x) ni)) \<noteq> None" for ni bs x
    using that by (induction bs) (auto split: option.splits)
  from this [OF st ff] show thesis using that by (auto simp: balloc_spec_def Let_def)
qed



text \<open>
  With every bit of the bitmap set, \<open>balloc\<close> panics.
\<close>

theorem balloc_out_of_blocks:
  assumes ok: "bok {} dev s" and full: "\<forall>n\<in>bitmap_blocks (disk s dev). \<forall>bi<BPB. bm_used (disk s dev n) bi"
  shows "balloc dev s = Panic ''balloc: out of blocks''"
proof (rule balloc_full [OF ok])
  let ?ni = "sb_ninodes (sb_of (disk s dev))"
  have "find_free (disk s dev) ?ni bs = None"
    if "set bs \<subseteq> set (bitmap_starts (sb_size (sb_of (disk s dev))))" for bs
    using that full by (induction bs) (auto simp: bitmap_blocks_def bm_first_free_None [THEN iffD2])
  then show "balloc_spec (disk s dev) = None" by (simp add: balloc_spec_def Let_def)
qed (simp_all add: NBUF_def)

theorem balloc_out_of_blocks_witness:
  "balloc 1 (booted (\<lambda>_ n i. if n = 1 then small_disk 1 1 i else 255)) = Panic ''balloc: out of blocks''"
proof (rule balloc_out_of_blocks)
  let ?d = "\<lambda>(_::u32) (n::u32) i. if n = 1 then small_disk 1 1 i else (255::u8)"
  show "bok {} 1 (booted ?d)" by (simp add: booted_bok)
  show "\<forall>n\<in>bitmap_blocks (disk (booted ?d) 1). \<forall>bi<BPB. bm_used (disk (booted ?d) 1 n) bi"
  proof (intro ballI allI impI)
    fix n bi assume "n \<in> bitmap_blocks (disk (booted ?d) 1)"
    then have "n \<noteq> 1" using bitmap_not_sb by blast
    moreover have "bit (255 :: u8) (bi mod 8)"
      using byte_ones [of "bi mod 8"] by simp
    ultimately show "bm_used (disk (booted ?d) 1 n) bi" by (simp add: bm_used_bit)
  qed
qed

text \<open>
  The outer loop of \<open>balloc\<close> steps through whole bitmap blocks and the inner loop does not
  compare with \<open>sb.size\<close>: on a device whose blocks are all in use it hands out a block beyond
  the end of the file system.
\<close>

theorem balloc_beyond_device:
  assumes ok: "bok {} dev s" and full: "\<forall>b. unat b < unat (sb_size (sb_of (disk s dev))) \<longrightarrow> blk_used (disk s dev) b"
    and bit: "unat c div BPB * BPB < unat (sb_size (sb_of (disk s dev)))" "\<not> blk_used (disk s dev) c"
  shows "returns (balloc dev s) (\<lambda>a t. sb_size (sb_of (disk s dev)) \<le> a \<and> blk_used (disk t dev) a)"
proof -
  obtain a D' where sp: "balloc_spec (disk s dev) = Some (a, D')"
    using balloc_spec_exists [OF bit] by metis
  have "sb_size (sb_of (disk s dev)) \<le> a"
    using balloc_spec_used(1) [OF sp] full by (meson not_le word_le_nat_alt)
  moreover have "returns (balloc dev s) (\<lambda>r t. r = a \<and> bpost {} dev s D' t)"
    by (rule balloc_rule [OF ok _ _ sp]) (simp_all add: NBUF_def)
  ultimately show ?thesis
    by (auto elim!: returns_mono simp: bpost_sel(2) balloc_spec_used(2) [OF sp])
qed

lemma full_disk_sb: "sb_of (full_disk dev) = \<lparr>sb_size = 8, sb_nblocks = 0, sb_ninodes = 8\<rparr>"
  by (simp add: sb_of_def get_sb_def get32_def full_disk_def)

lemma full_disk_used: "unat b < 4096 \<Longrightarrow> blk_used (full_disk dev) b = (unat b < 8)"
proof -
  assume b: "unat b < 4096"
  have "full_disk dev (BBLOCK b 8) = small_disk dev (BBLOCK b 8)" by (rule ext) (simp add: full_disk_def)
  then show ?thesis using small_disk_used [OF b, of dev] by (simp add: blk_used_def full_disk_sb small_disk_sb)
qed

theorem balloc_beyond_device_witness:
  "returns (balloc 1 (booted full_disk)) (\<lambda>a t. 8 \<le> a \<and> blk_used (disk t 1) a)"
  using balloc_beyond_device [of 1 "booted full_disk" 8]
  by (simp add: booted_bok full_disk_sb full_disk_used BPB_def BSIZE_def)

text \<open>
  Freeing a block zeroes it and clears exactly its bit in the bitmap.
\<close>

theorem bfree_clears:
  assumes "bok {} dev s" and "blk_used (disk s dev) b" and "b \<noteq> 1" and "b \<notin> bitmap_blocks (disk s dev)"
    and "unat b < unat (sb_size (sb_of (disk s dev)))"
  shows "returns (bfree dev b s) (\<lambda>_ t. bok {} dev t \<and> (\<forall>i<BSIZE. disk t dev b i = 0) \<and>
    (\<forall>c. unat c < unat (sb_size (sb_of (disk s dev))) \<longrightarrow> blk_used (disk t dev) c = (c \<noteq> b \<and> blk_used (disk s dev) c)) \<and>
    (\<forall>n. n \<noteq> b \<longrightarrow> n \<notin> bitmap_blocks (disk s dev) \<longrightarrow> disk t dev n = disk s dev n))"
proof -
  let ?n = "BBLOCK b (sb_ninodes (sb_of (disk s dev)))"
  have n: "?n \<in> bitmap_blocks (disk s dev)" by (rule bitmap_block_of) fact
  then have bn: "b \<noteq> ?n" using assms by auto
  have same: "unat c mod BPB = unat b mod BPB \<longleftrightarrow> c = b" if "BBLOCK c ni = BBLOCK b ni" for c ni
    using that unfolding BBLOCK_eq_iff by (metis div_mult_mod_eq word_unat_eq_iff)
  have "returns (bfree dev b s) (\<lambda>_. bpost {} dev s ((disk s dev)(b := memset (disk s dev b) 0 0 BSIZE,
      ?n := bm_clear (disk s dev ?n) (unat b mod BPB))))"
    by (rule bfree_rule) (use assms bn in \<open>simp_all add: NBUF_def\<close>)
  then show ?thesis
  proof (rule returns_mono)
    fix u t
    let ?D = "(disk s dev)(b := memset (disk s dev b) 0 0 BSIZE, ?n := bm_clear (disk s dev ?n) (unat b mod BPB))"
    assume t: "bpost {} dev s ?D t"
    have sb: "sb_of ?D = sb_of (disk s dev)" using assms(3) by (simp add: sb_of_def)
    have "blk_used ?D c = (c \<noteq> b \<and> blk_used (disk s dev) c)"
      if "unat c < unat (sb_size (sb_of (disk s dev)))" for c
    proof (cases "BBLOCK c (sb_ninodes (sb_of (disk s dev))) = ?n")
      case True
      then show ?thesis using same [OF True] unfolding blk_used_def sb by (auto simp: bm_used_clear)
    next
      case False
      then have "c \<noteq> b" "BBLOCK c (sb_ninodes (sb_of (disk s dev))) \<noteq> b"
        using bitmap_block_of [OF that] assms(4) by auto
      then show ?thesis using False unfolding blk_used_def sb by auto
    qed
    then show "bok {} dev t \<and> (\<forall>i<BSIZE. disk t dev b i = 0) \<and>
      (\<forall>c. unat c < unat (sb_size (sb_of (disk s dev))) \<longrightarrow> blk_used (disk t dev) c = (c \<noteq> b \<and> blk_used (disk s dev) c)) \<and>
      (\<forall>n. n \<noteq> b \<longrightarrow> n \<notin> bitmap_blocks (disk s dev) \<longrightarrow> disk t dev n = disk s dev n)"
      using bpost_sel [OF t] bn n by (auto simp: memset_apply)
  qed
qed

theorem bfree_clears_witness:
  "returns (bfree 1 7 (booted small_disk)) (\<lambda>_ t. bok {} 1 t \<and> (\<forall>i<BSIZE. disk t 1 7 i = 0) \<and>
    (\<forall>c. unat c < unat (sb_size (sb_of (small_disk 1))) \<longrightarrow> blk_used (disk t 1) c = (c \<noteq> 7 \<and> blk_used (small_disk 1) c)) \<and>
    (\<forall>n. n \<noteq> 7 \<longrightarrow> n \<notin> bitmap_blocks (small_disk 1) \<longrightarrow> disk t 1 n = small_disk 1 n))"
  using bfree_clears [of 1 "booted small_disk" 7]
  by (simp add: booted_bok small_disk_sb small_disk_used small_disk_bitmap)

text \<open>
  Freeing a block that is already free panics.
\<close>

theorem double_free_panics:
  assumes "bok {} dev s" and "\<not> blk_used (disk s dev) b" and "b \<noteq> 1" and "b \<notin> bitmap_blocks (disk s dev)"
    and "unat b < unat (sb_size (sb_of (disk s dev)))"
  shows "bfree dev b s = Panic ''freeing free block''"
  by (rule bfree_free) (use assms bitmap_block_of [OF assms(5)] in \<open>auto simp: NBUF_def\<close>)

theorem double_free_panics_witness: "bfree 1 20 (booted small_disk) = Panic ''freeing free block''"
  using double_free_panics [of 1 "booted small_disk" 20]
  by (simp add: booted_bok small_disk_sb small_disk_used small_disk_bitmap)

end
