(* ===== verification/Content_Props.thy ===== *)
theory Content_Props
  imports Mirror Block_Props
begin

text \<open>
  Properties of file contents: plain files as arrays of bytes, mirrored files as three copies of
  each block.
\<close>

section \<open>Plain files\<close>

text \<open>A file with two blocks on the small disk.\<close>

definition file1 :: inode where
  "file1 = inode0\<lparr>i_dev := 1, i_inum := 1, i_ref := 1, i_busy := True, i_valid := True, i_type := T_FILE, i_nlink := 1,
     i_size := 600, i_addrs := (\<lambda>_. 0)(0 := 20, 1 := 21)\<rparr>"

definition with_file :: "inode \<Rightarrow> kern" where
  "with_file i = (booted small_disk)\<lparr>icache := (\<lambda>_. inode0)(0 := i)\<rparr>"

lemma with_file_sel [simp]:
  "icache (with_file i) 0 = i" "disk (with_file i) = small_disk" "dev \<noteq> - 1 \<Longrightarrow> bok {} dev (with_file i)"
  by (simp_all add: with_file_def booted_bok)

lemma file1_sel [simp]:
  "i_dev file1 = 1" "i_inum file1 = 1" "i_type file1 = T_FILE" "i_size file1 = 600" "i_addrs file1 NDIRECT = 0"
  by (simp_all add: file1_def NDIRECT_def)

lemma small_disk_meta [simp]: "meta (small_disk dev) = {1, 4}"
  by (simp add: meta_def small_disk_bitmap)

lemma file1_mapped: "mapped file1 (small_disk 1) j \<longleftrightarrow> j < 2"
  by (auto simp: mapped_def addr_of_def MAXFILE_def NDIRECT_def less_2_cases_iff)
    (auto simp: file1_def split: if_splits)

lemma file1_own: "own_blocks file1 (small_disk 1)"
  by (auto simp: own_blocks_def file1_mapped inj_on_def less_2_cases_iff addr_of_def NDIRECT_def IBLOCK_def)
    (auto simp: file1_def)

lemma file1_range: "off + m \<le> 1024 \<Longrightarrow> range_mapped file1 (small_disk 1) off m"
  by (auto simp: range_mapped_def file1_mapped BSIZE_def less_mult_imp_div_less)

text \<open>
  \<open>readi\<close> on a plain file whose blocks in the range are allocated returns the bytes of the file
  from the offset on, cut off at the file's size, and leaves the disk unchanged, whatever the number of
  blocks the range covers.
\<close>

theorem readi_returns_bytes:
  assumes "bok {} (i_dev i) s" and "icache s ip = i" and "i_type i \<noteq> T_DEV" and "i_type i \<noteq> T_MIRRORED"
    and "unat off \<le> unat (i_size i)" and "unat off + unat n < 2 ^ 31"
    and "range_mapped i (disk s (i_dev i)) (unat off) (min (unat n) (unat (i_size i) - unat off))"
  shows "returns (readi ip dst off n s) (\<lambda>(r, d) t. r = int (min (unat n) (unat (i_size i) - unat off)) \<and>
    (\<forall>k. d k = (if int k < r then file_byte i (disk s (i_dev i)) (unat off + k) else dst k)) \<and> disk t = disk s)"
proof (rule returns_mono)
  let ?m = "min (unat n) (unat (i_size i) - unat off)"
  show "returns (readi ip dst off n s) (\<lambda>(r, d) t. r = int ?m \<and>
    d = (\<lambda>k. if k < ?m then file_byte i (disk s (i_dev i)) (unat off + k) else dst k) \<and>
    bpost {} (i_dev i) s (disk s (i_dev i)) t)"
    by (rule readi_rule) (use assms in auto)
qed (auto simp: bpost_def)

theorem readi_returns_bytes_witness:
  "returns (readi 0 (\<lambda>_. 7) 500 200 (with_file file1)) (\<lambda>(r, d) t. r = int (min (unat (200::u32)) (unat (i_size file1) - unat (500::u32))) \<and>
    (\<forall>k. d k = (if int k < r then file_byte file1 (disk (with_file file1) (i_dev file1)) (unat (500::u32) + k) else 7)) \<and>
    disk t = disk (with_file file1))"
  by (rule readi_returns_bytes) (simp_all add: T_FILE_def T_DEV_def T_MIRRORED_def file1_range)



section \<open>Mirrored files: reading\<close>

text \<open>A mirrored file of one logical block, its copies in blocks 20, 21 and 22, on a disk with the given blocks.\<close>

definition mfile :: inode where
  "mfile = inode0\<lparr>i_dev := 1, i_inum := 1, i_ref := 1, i_busy := True, i_valid := True, i_type := T_MIRRORED, i_nlink := 1,
     i_size := 100, i_addrs := (\<lambda>_. 0)(0 := 20, 1 := 21, 2 := 22)\<rparr>"

definition mdisk :: "block \<Rightarrow> block \<Rightarrow> block \<Rightarrow> u32 \<Rightarrow> u32 \<Rightarrow> block" where
  "mdisk x y z dev = (small_disk dev)(20 := x, 21 := y, 22 := z)"

definition with_mfile :: "block \<Rightarrow> block \<Rightarrow> block \<Rightarrow> kern" where
  "with_mfile x y z = (booted (mdisk x y z))\<lparr>icache := (\<lambda>_. inode0)(0 := mfile)\<rparr>"

lemma with_mfile_sel [simp]:
  "icache (with_mfile x y z) 0 = mfile" "disk (with_mfile x y z) = mdisk x y z" "dev \<noteq> - 1 \<Longrightarrow> bok {} dev (with_mfile x y z)"
  by (simp_all add: with_mfile_def booted_bok)

lemma mfile_sel [simp]:
  "i_dev mfile = 1" "i_inum mfile = 1" "i_type mfile = T_MIRRORED" "i_size mfile = 100" "i_addrs mfile NDIRECT = 0"
  by (simp_all add: mfile_def NDIRECT_def)

lemma mdisk_meta [simp]: "meta (mdisk x y z dev) = {1, 4}"
  by (simp add: mdisk_def meta_upd)

lemma mfile_copy [simp]:
  "copy_addr mfile (mdisk x y z dev) 0 0 = 20" "copy_addr mfile (mdisk x y z dev) 0 1 = 21"
  "copy_addr mfile (mdisk x y z dev) 0 (Suc 0) = 21" "copy_addr mfile (mdisk x y z dev) 0 2 = 22"
  by (simp_all add: copy_addr_def addr_of_def NDIRECT_def) (simp_all add: mfile_def)

lemma mdisk_blocks [simp]: "mdisk x y z dev 20 = x" "mdisk x y z dev 21 = y" "mdisk x y z dev 22 = z"
  by (simp_all add: mdisk_def)

lemma mfile_replicated [simp]: "replicated mfile (mdisk x y z dev) 0"
proof -
  have "mapped mfile (mdisk x y z dev) k" if "k \<le> 2" for k
    using that le_Suc_eq [of k 1] by (auto simp: mapped_def MAXFILE_def addr_of_def NDIRECT_def numeral_2_eq_2 le_Suc_eq)
      (auto simp: mfile_def)
  then show ?thesis by (simp add: replicated_def)
qed

definition letter :: "u8 \<Rightarrow> block" where
  "letter c = (\<lambda>_. 0)(0 := c)"

lemma sdiff_letter [simp]: "0 < n \<Longrightarrow> sdiff (letter c) (letter d) n = (c \<noteq> d)"
  by (auto simp: sdiff_def letter_def split: if_splits)

text \<open>
  When the three copies of a block compare equal, a read within the block returns the data of
  the block and changes nothing on disk.
\<close>

theorem mirrored_read_agree:
  assumes "bok {} (i_dev i) s" and "icache s ip = i" and "i_type i = T_MIRRORED"
    and "0 < unat n" and "unat off mod BSIZE + unat n \<le> BSIZE" and "unat off + unat n \<le> unat (i_size i)"
    and "D = disk s (i_dev i)" and "l = unat off div BSIZE" and "replicated i D l"
    and eq: "\<not> sdiff (D (copy_addr i D l 0)) (D (copy_addr i D l 1)) (unat n)"
      "\<not> sdiff (D (copy_addr i D l 1)) (D (copy_addr i D l 2)) (unat n)"
  shows "returns (readi ip dst off n s) (\<lambda>(r, d) t. r = int (unat n) \<and>
    (\<forall>k<unat n. d k = D (copy_addr i D l 2) (unat off mod BSIZE + k)) \<and> disk t = disk s \<and> bok {} (i_dev i) t)"
proof (rule mirrored_read_rule [OF assms(1,2) refl assms(3-6) assms(7) [symmetric] assms(8) [symmetric] assms(9) refl])
  note eq3 = sdiff_trans [OF eq]
  fix b1 b2 b3 u assume u: "loaded (i_dev i) ip i D l b1 b2 b3 s u" "disk u = disk s"
  show "returns (readi_settle ip (l * 3) (unat off mod BSIZE) (unat n) b1 b2 b3
        (sdiff (D (copy_addr i D l 0)) (D (copy_addr i D l 1)) (unat n), sdiff (D (copy_addr i D l 0)) (D (copy_addr i D l 2)) (unat n),
         sdiff (D (copy_addr i D l 1)) (D (copy_addr i D l 2)) (unat n))
        (blit dst 0 (D (copy_addr i D l 2)) (unat off mod BSIZE) (unat n)) u)
        (\<lambda>(bad, _, d) u. (if bad then - 1 else int (unat n)) = int (unat n) \<and>
          (\<forall>k<unat n. d k = D (copy_addr i D l 2) (unat off mod BSIZE + k)) \<and> disk u = disk s \<and> bok {} (i_dev i) u)"
    by (rule returns_mono, rule settle_keep [OF u(1), of _ False])
      (use eq eq3 u in \<open>auto simp: blit_def locks_all_def\<close>)
qed

theorem mirrored_read_agree_witness:
  "returns (readi 0 (\<lambda>_. 7) 0 10 (with_mfile (letter 65) (letter 65) (letter 65))) (\<lambda>(r, d) t. r = 10 \<and>
    (\<forall>k<10. d k = letter 65 k) \<and> disk t = mdisk (letter 65) (letter 65) (letter 65) \<and> bok {} 1 t)"
  using mirrored_read_agree [of mfile "with_mfile (letter 65) (letter 65) (letter 65)" 0 10 0 "mdisk (letter 65) (letter 65) (letter 65) 1" 0 "\<lambda>_. 7"]
  by (simp add: BSIZE_def)





text \<open>
  When the three copies are pairwise different the read fails with -1 and changes nothing on disk.
\<close>

theorem mirrored_read_all_differ:
  assumes "bok {} (i_dev i) s" and "icache s ip = i" and "i_type i = T_MIRRORED"
    and "0 < unat n" and "unat off mod BSIZE + unat n \<le> BSIZE" and "unat off + unat n \<le> unat (i_size i)"
    and "D = disk s (i_dev i)" and "l = unat off div BSIZE" and "replicated i D l" and "a = copy_addr i D l"
    and ne: "sdiff (D (a 0)) (D (a 1)) (unat n)" "sdiff (D (a 1)) (D (a 2)) (unat n)" "sdiff (D (a 0)) (D (a 2)) (unat n)"
  shows "returns (readi ip dst off n s) (\<lambda>(r, d) t. r = - 1 \<and> disk t = disk s \<and> bok {} (i_dev i) t)"
proof (rule mirrored_read_rule [OF assms(1,2) refl assms(3-6) assms(7) [symmetric] assms(8) [symmetric] assms(9) assms(10) [symmetric]])
  fix b1 b2 b3 u assume u: "loaded (i_dev i) ip i D l b1 b2 b3 s u" "disk u = disk s"
  show "returns (readi_settle ip (l * 3) (unat off mod BSIZE) (unat n) b1 b2 b3
        (sdiff (D (a 0)) (D (a 1)) (unat n), sdiff (D (a 0)) (D (a 2)) (unat n), sdiff (D (a 1)) (D (a 2)) (unat n))
        (blit dst 0 (D (a 2)) (unat off mod BSIZE) (unat n)) u)
        (\<lambda>(bad, _, d) t. (if bad then - 1 else int (unat n)) = - 1 \<and> disk t = disk s \<and> bok {} (i_dev i) t)"
    by (rule returns_mono, rule settle_keep [OF u(1), of _ True]) (use ne u in \<open>auto simp: locks_all_def\<close>)
qed

theorem mirrored_read_all_differ_witness:
  "returns (readi 0 (\<lambda>_. 7) 0 10 (with_mfile (letter 65) (letter 66) (letter 88))) (\<lambda>(r, d) t. r = - 1 \<and>
    disk t = mdisk (letter 65) (letter 66) (letter 88) \<and> bok {} 1 t)"
  using mirrored_read_all_differ [of mfile "with_mfile (letter 65) (letter 66) (letter 88)" 0 10 0
      "mdisk (letter 65) (letter 66) (letter 88) 1" 0 _ "\<lambda>_. 7"]
  by (simp add: BSIZE_def)

section \<open>Mirrored files: writing\<close>

lemma mfile_range: "off + m \<le> 512 \<Longrightarrow> range_replicated mfile (mdisk x y z dev) off m"
  by (simp add: range_replicated_def BSIZE_def)

lemma mfile_own: "own_blocks mfile (mdisk x y z 1)"
proof -
  have m: "mapped mfile (mdisk x y z 1) j \<longleftrightarrow> j < 3" for j
    by (auto simp: mapped_def addr_of_def MAXFILE_def NDIRECT_def) (auto simp: mfile_def split: if_splits)
  have S: "{j :: nat. j < 3} = {0, 1, 2}" by auto
  have ad: "addr_of mfile (mdisk x y z 1) 0 = 20" "addr_of mfile (mdisk x y z 1) (Suc 0) = 21" "addr_of mfile (mdisk x y z 1) 2 = 22"
    by (simp_all add: addr_of_def NDIRECT_def) (simp_all add: mfile_def)
  have "inj_on (addr_of mfile (mdisk x y z 1)) {0, 1, 2}" by (simp add: ad)
  moreover have "2 \<noteq> addr_of mfile (mdisk x y z 1) j" if "j < 3" for j
  proof -
    from that have "j = 0 \<or> j = Suc 0 \<or> j = 2" by linarith
    then show ?thesis by (auto simp: ad)
  qed
  ultimately show ?thesis by (simp add: own_blocks_def m S IBLOCK_def)
qed





text \<open>
  A mirrored file holds at most 46 logical blocks and a third of the slots, but the size check of
  \<open>writei\<close> is that of a plain file: a write that starts at logical block 47 or later, within
  \<open>MAXFILE * BSIZE\<close>, does not return an error, it panics.
\<close>

theorem mirrored_write_too_far:
  assumes "icache s ip = i" and "i_type i = T_MIRRORED" and "unat off \<le> unat (i_size i)"
    and "47 \<le> unat off div BSIZE" and "0 < unat n" and "unat off + unat n \<le> MAXFILE * BSIZE"
  shows "writei ip src off n s = Panic ''bmap: out of range''"
proof -
  have "MAXFILE \<le> unat off div BSIZE * 3" using assms(4) by (simp add: MAXFILE_def NDIRECT_def NINDIRECT_def)
  then have "writei_mirrored ip (unat n) 0 (unat off) src s = Panic ''bmap: out of range''"
    using assms(5) by (subst writei_mirrored.simps) (simp add: Let_def bindk_def mbmap_out_of_range)
  moreover have "i_type i \<noteq> T_DEV" using assms(2) by (simp add: T_MIRRORED_def T_DEV_def)
  ultimately show ?thesis
    using writei_eq [OF assms(1) _ assms(3,6)] assms(2) by (simp add: bindk_def)
qed

theorem mirrored_write_too_far_witness:
  "writei 0 (\<lambda>_. 0) 24064 1 ((booted small_disk)\<lparr>icache := (\<lambda>_. mfile\<lparr>i_size := 24064\<rparr>)\<rparr>) = Panic ''bmap: out of range''"
  by (rule mirrored_write_too_far [of _ _ "mfile\<lparr>i_size := 24064\<rparr>"])
    (simp_all add: BSIZE_def MAXFILE_def NDIRECT_def NINDIRECT_def)

section \<open>Mirrored files: allocation\<close>

definition free_blocks :: "(u32 \<Rightarrow> block) \<Rightarrow> u32 set" where
  "free_blocks D = {b. unat b < unat (sb_size (sb_of D)) \<and> \<not> blk_used D b}"

lemma balloc_step:
  assumes "k < card (free_blocks D)"
  obtains a D' where "balloc_spec D = Some (a, D')" and "\<not> blk_used D a" and "k \<le> card (free_blocks D')"
    and "\<And>b. blk_used D' b = (b = a \<or> blk_used D b)" and "\<And>n. n \<notin> bitmap_blocks D \<Longrightarrow> D' n = D n"
    and "bitmap_blocks D' = bitmap_blocks D"
proof -
  have "free_blocks D \<noteq> {}" using assms by auto
  then obtain b where "unat b < unat (sb_size (sb_of D))" "\<not> blk_used D b" by (auto simp: free_blocks_def)
  then obtain a D' where sp: "balloc_spec D = Some (a, D')"
    using balloc_spec_exists [OF le_less_trans [OF div_times_less_eq_dividend]] by metis
  note u = balloc_spec_used [OF sp]
  have "free_blocks D' = free_blocks D - {a}" by (auto simp: free_blocks_def u(2,3))
  then have "k \<le> card (free_blocks D')" using assms by (cases "a \<in> free_blocks D") auto
  then show thesis using that [OF sp u(1)] u by auto
qed

lemma mbmap_alloc:
  assumes ok: "bok {} dev s" and i: "icache s ip = i" "i_dev i = dev" and l: "l < 4" "k \<le> 2"
    and emp: "i_addrs i (l * 3 + k) = 0" and first: "k \<noteq> 0 \<longrightarrow> i_addrs i (l * 3) \<noteq> 0"
    and sp: "balloc_spec (disk s dev) = Some (a, D)"
  shows "returns (mbmap ip (l * 3) k s) (\<lambda>r t. r = a \<and> ipost {} dev ip s (i\<lparr>i_addrs := (i_addrs i)(l * 3 + k := a)\<rparr>) D t)"
proof -
  have "mbmap_spec i (disk s dev) (l * 3) k = Some (a, i\<lparr>i_addrs := (i_addrs i)(l * 3 + k := a)\<rparr>, D)"
  proof (cases "k = 0")
    case True
    then show ?thesis using l emp sp by (simp add: mbmap_spec_def addr_slot_spec_def NDIRECT_def)
  next
    case False
    then show ?thesis using l emp first sp by (simp add: mbmap_spec_def addr_slot_spec_def NDIRECT_def)
  qed
  then show ?thesis
    using mbmap_rule [OF i(1), of "{}" "l * 3" k a _ D] ok i l by (simp add: NBUF_def NDIRECT_def)
qed

text \<open>
  For an unallocated logical block in the direct part, \<open>mbmap\<close> gives the three copies three
  different blocks that were free, records them in the three slots of the block and in the bitmap, and
  touches no other block's state.
\<close>

theorem mirrored_alloc_distinct:
  assumes ok: "bok {} (i_dev i) s" and i: "icache s ip = i" and l: "l < 4"
    and emp: "\<forall>k\<le>2. i_addrs i (l * 3 + k) = 0" and D: "D = disk s (i_dev i)"
    and free: "3 \<le> card (free_blocks D)" and boot: "blk_used D 0"
  shows "returns (bindk (mbmap ip (l * 3) 0) (\<lambda>a0. bindk (mbmap ip (l * 3) 1) (\<lambda>a1. bindk (mbmap ip (l * 3) 2) (\<lambda>a2.
      ret (a0, a1, a2)))) s)
    (\<lambda>(a0, a1, a2) t. distinct [0, a0, a1, a2] \<and> (\<forall>a\<in>{a0, a1, a2}. \<not> blk_used D a) \<and>
      (\<forall>b. blk_used (disk t (i_dev i)) b = (b \<in> {a0, a1, a2} \<or> blk_used D b)) \<and>
      i_addrs (icache t ip) = (i_addrs i)(l * 3 := a0, l * 3 + 1 := a1, l * 3 + 2 := a2) \<and>
      (\<forall>n. n \<notin> bitmap_blocks D \<longrightarrow> disk t (i_dev i) n = D n))"
proof -
  obtain a0 D0 where 0: "balloc_spec D = Some (a0, D0)" "\<not> blk_used D a0" "2 \<le> card (free_blocks D0)"
    "\<And>b. blk_used D0 b = (b = a0 \<or> blk_used D b)" "\<And>n. n \<notin> bitmap_blocks D \<Longrightarrow> D0 n = D n" "bitmap_blocks D0 = bitmap_blocks D"
    using balloc_step [of 2 D thesis] free by fastforce
  obtain a1 D1 where 1: "balloc_spec D0 = Some (a1, D1)" "\<not> blk_used D0 a1" "1 \<le> card (free_blocks D1)"
    "\<And>b. blk_used D1 b = (b = a1 \<or> blk_used D0 b)" "\<And>n. n \<notin> bitmap_blocks D0 \<Longrightarrow> D1 n = D0 n" "bitmap_blocks D1 = bitmap_blocks D0"
    using balloc_step [of 1 D0 thesis] 0(3) by fastforce
  obtain a2 D2 where 2: "balloc_spec D1 = Some (a2, D2)" "\<not> blk_used D1 a2"
    "\<And>b. blk_used D2 b = (b = a2 \<or> blk_used D1 b)" "\<And>n. n \<notin> bitmap_blocks D1 \<Longrightarrow> D2 n = D1 n"
    using balloc_step [of 0 D1 thesis] 1(3) by fastforce
  have nz: "a0 \<noteq> 0" "a1 \<noteq> 0" "a2 \<noteq> 0" using 0 1 2 boot by auto
  let ?i0 = "i\<lparr>i_addrs := (i_addrs i)(l * 3 + 0 := a0)\<rparr>"
  let ?i1 = "?i0\<lparr>i_addrs := (i_addrs ?i0)(l * 3 + 1 := a1)\<rparr>"
  let ?i2 = "?i1\<lparr>i_addrs := (i_addrs ?i1)(l * 3 + 2 := a2)\<rparr>"
  have e: "i_addrs i (l * 3) = 0" "i_addrs i (l * 3 + 1) = 0" "i_addrs i (l * 3 + 2) = 0"
    using emp [rule_format, of 0] emp [rule_format, of 1] emp [rule_format, of 2] by simp_all
  show ?thesis
  proof (rule returns_bindk, rule mbmap_alloc [OF ok i refl l _ _ _ 0(1) [unfolded D]])
    fix r t assume t: "r = a0 \<and> ipost {} (i_dev i) ip s ?i0 D0 t"
    note st = ipost_sel [OF conjunct2 [OF t]]
    have "returns (mbmap ip (l * 3) 1 t) (\<lambda>r u. r = a1 \<and> ipost {} (i_dev i) ip t ?i1 D1 u)"
      by (rule mbmap_alloc [OF st(1,5) _ l]) (use e nz 1(1) st in \<open>simp_all del: One_nat_def\<close>)
    then show "returns (bindk (mbmap ip (l * 3) 1) (\<lambda>a1. bindk (mbmap ip (l * 3) 2) (\<lambda>a2. ret (r, a1, a2))) t)
      (\<lambda>(a0, a1, a2) t. distinct [0, a0, a1, a2] \<and> (\<forall>a\<in>{a0, a1, a2}. \<not> blk_used D a) \<and>
      (\<forall>b. blk_used (disk t (i_dev i)) b = (b \<in> {a0, a1, a2} \<or> blk_used D b)) \<and>
      i_addrs (icache t ip) = (i_addrs i)(l * 3 := a0, l * 3 + 1 := a1, l * 3 + 2 := a2) \<and>
      (\<forall>n. n \<notin> bitmap_blocks D \<longrightarrow> disk t (i_dev i) n = D n))"
    proof (rule returns_bindk)
      fix r' u assume u: "r' = a1 \<and> ipost {} (i_dev i) ip t ?i1 D1 u"
      note su = ipost_sel [OF conjunct2 [OF u]]
      have "returns (mbmap ip (l * 3) 2 u) (\<lambda>r v. r = a2 \<and> ipost {} (i_dev i) ip u ?i2 D2 v)"
        by (rule mbmap_alloc [OF su(1,5) _ l]) (use e nz 2(1) su in simp_all)
      then show "returns (bindk (mbmap ip (l * 3) 2) (\<lambda>a2. ret (r, r', a2)) u)
        (\<lambda>(a0, a1, a2) t. distinct [0, a0, a1, a2] \<and> (\<forall>a\<in>{a0, a1, a2}. \<not> blk_used D a) \<and>
        (\<forall>b. blk_used (disk t (i_dev i)) b = (b \<in> {a0, a1, a2} \<or> blk_used D b)) \<and>
        i_addrs (icache t ip) = (i_addrs i)(l * 3 := a0, l * 3 + 1 := a1, l * 3 + 2 := a2) \<and>
        (\<forall>n. n \<notin> bitmap_blocks D \<longrightarrow> disk t (i_dev i) n = D n))"
        by (rule returns_bindk, intro returns_ret)
          (use t u nz 0 1 2 in \<open>auto simp: ipost_sel(2,5) simp del: One_nat_def\<close>)
    qed
  qed (use e in simp_all)
qed

lemma small_disk_free: "3 \<le> card (free_blocks (small_disk 1))"
proof -
  have "{8, 9, 10} \<subseteq> free_blocks (small_disk 1)" by (simp add: free_blocks_def small_disk_sb small_disk_used)
  then have "card {8, 9, 10 :: u32} \<le> card (free_blocks (small_disk 1))" by (intro card_mono) simp_all
  then show ?thesis by simp
qed

theorem mirrored_alloc_distinct_witness:
  "returns (bindk (mbmap 0 (1 * 3) 0) (\<lambda>a0. bindk (mbmap 0 (1 * 3) 1) (\<lambda>a1. bindk (mbmap 0 (1 * 3) 2) (\<lambda>a2.
      ret (a0, a1, a2)))) (with_file mfile))
    (\<lambda>(a0, a1, a2) t. distinct [0, a0, a1, a2] \<and> (\<forall>a\<in>{a0, a1, a2}. \<not> blk_used (small_disk 1) a) \<and>
      (\<forall>b. blk_used (disk t (i_dev mfile)) b = (b \<in> {a0, a1, a2} \<or> blk_used (small_disk 1) b)) \<and>
      i_addrs (icache t 0) = (i_addrs mfile)(1 * 3 := a0, 1 * 3 + 1 := a1, 1 * 3 + 2 := a2) \<and>
      (\<forall>n. n \<notin> bitmap_blocks (small_disk 1) \<longrightarrow> disk t (i_dev mfile) n = small_disk 1 n))"
  by (rule mirrored_alloc_distinct) (simp_all add: small_disk_free small_disk_used, simp add: mfile_def)

end
