(* ===== verification/Inode_Props.thy ===== *)
theory Inode_Props
  imports Block_Props
begin

text \<open>
  Properties of the inode layer: the cache of inodes and its reference counts, the transfer
  between cached and on-disk inodes, and the block maps.
\<close>

section \<open>Locking an inode\<close>

lemma ilock_prefix:
  assumes "nolocks s" and "icache s ip = i" and "1 \<le> i_ref i" and "\<not> i_busy i"
  shows "ilock (Some ip) s =
    whenk (\<not> i_valid i)
      (bindk (bread (i_dev i) (IBLOCK (i_inum i))) (\<lambda>bp.
       bindk (data_of bp) (\<lambda>d.
       bindk (upd_inode ip (inode_load (get_dinode d (dip_off (i_inum i))))) (\<lambda>_.
       bindk (brelse bp) (\<lambda>_.
       bindk (upd_inode ip (\<lambda>i. i\<lparr>i_valid := True\<rparr>)) (\<lambda>_.
       bindk (inode_of ip) (\<lambda>i.
       whenk (i_type i = 0) (panic ''ilock: no type''))))))))
      (s\<lparr>icache := (icache s)(ip := i\<lparr>i_busy := True\<rparr>)\<rparr>)"
  using assms by (simp add: ilock_def exec)

lemma ilock_load:
  assumes ok: "bok {} (i_dev i) s" and i: "icache s ip = i" "1 \<le> i_ref i" "\<not> i_busy i" "\<not> i_valid i"
    and di: "di = get_dinode (disk s (i_dev i) (IBLOCK (i_inum i))) (dip_off (i_inum i))" and ty: "d_type di \<noteq> 0"
  shows "returns (ilock (Some ip) s) (\<lambda>_. ipost {} (i_dev i) ip s
    ((inode_load di (i\<lparr>i_busy := True\<rparr>))\<lparr>i_valid := True\<rparr>) (disk s (i_dev i)))"
proof -
  let ?i1 = "i\<lparr>i_busy := True\<rparr>" and ?n = "IBLOCK (i_inum i)" and ?dev = "i_dev i"
  let ?i2 = "inode_load di ?i1"
  let ?s1 = "s\<lparr>icache := (icache s)(ip := ?i1)\<rparr>"
  have nl: "nolocks s" using ok by (simp add: bok_def)
  show ?thesis
    unfolding ilock_prefix [OF nl i(1-3)] whenk_def if_P [OF i(4)]
  proof (rule bread_then)
    show "bok {} ?dev ?s1" "(?dev, ?n) \<notin> held {} ?s1" "card {} < NBUF" using ok by (simp_all add: NBUF_def)
    fix b t assume h: "hold {} ?dev ?n (disk ?s1 ?dev ?n) ?s1 b t" and d: "disk t = disk ?s1"
    let ?t2 = "t\<lparr>icache := (icache s)(ip := ?i2)\<rparr>"
    have ic: "icache t = (icache s)(ip := ?i1)" using hold_icache [OF h] by simp
    have h2: "hold {} ?dev ?n (disk s ?dev ?n) (?s1\<lparr>icache := (icache s)(ip := ?i2)\<rparr>) b ?t2"
      using hold_icache_upd [OF h, of "(icache s)(ip := ?i2)"] by simp
    have up': "bindk (upd_inode ip (inode_load (get_dinode (disk ?s1 ?dev ?n) (dip_off (i_inum i))))) k t = k () ?t2"
      for k :: "unit \<Rightarrow> ('a fs_scheme, unit) km"
      by (simp add: bindk_def upd_inode_eq ic di)
    have fin: "returns (bindk (upd_inode ip (\<lambda>i. i\<lparr>i_valid := True\<rparr>)) (\<lambda>_. bindk (inode_of ip)
        (\<lambda>i. if i_type i = 0 then panic ''ilock: no type'' else ret ())) u)
        (\<lambda>_. ipost {} ?dev ip s ((inode_load di (i\<lparr>i_busy := True\<rparr>))\<lparr>i_valid := True\<rparr>) (disk s ?dev))"
      if u: "bok {} ?dev u" "bframe {} (?s1\<lparr>icache := (icache s)(ip := ?i2)\<rparr>) u" "disk u = disk ?t2" for u
    proof -
      let ?i3 = "(inode_load di (i\<lparr>i_busy := True\<rparr>))\<lparr>i_valid := True\<rparr>"
      have icu: "icache u = (icache s)(ip := ?i2)" using bframe_icache [OF u(2)] by simp
      have "bpost {} ?dev (?s1\<lparr>icache := (icache s)(ip := ?i2)\<rparr>) (disk s ?dev) u"
        using u d by (simp add: bpost_def)
      from bpost_icache_upd [OF this, of "(icache s)(ip := ?i3)"]
      have "ipost {} ?dev ip s ?i3 (disk s ?dev) (u\<lparr>icache := (icache s)(ip := ?i3)\<rparr>)" by (simp add: ipost_def)
      moreover have "(icache u)(ip := (icache u ip)\<lparr>i_valid := True\<rparr>) = (icache s)(ip := ?i3)"
        by (simp add: icu inode_load_def)
      moreover have "i_type ?i3 \<noteq> 0" using ty by (simp add: inode_load_def)
      ultimately show ?thesis
        by (simp add: bindk_def upd_inode_eq inode_of_eq ret_def returns_def del: fun_upd_apply) simp
    qed
    show "returns (bindk (data_of b) (\<lambda>d. bindk (upd_inode ip (inode_load (get_dinode d (dip_off (i_inum i)))))
       (\<lambda>_. bindk (brelse b) (\<lambda>_. bindk (upd_inode ip (\<lambda>i. i\<lparr>i_valid := True\<rparr>)) (\<lambda>_. bindk (inode_of ip)
       (\<lambda>i. if i_type i = 0 then panic ''ilock: no type'' else ret ()))))) t)
       (\<lambda>_. ipost {} ?dev ip s ((inode_load di (i\<lparr>i_busy := True\<rparr>))\<lparr>i_valid := True\<rparr>) (disk s ?dev))"
      by (rule data_then, rule h, subst up', rule release_then [OF h2]) (use d fin in auto)
  qed
qed

section \<open>References to cached inodes\<close>

text \<open>
  The invariant of the inode cache: reference counts are not negative, and an inode of a device is
  in at most one entry that is referenced.
\<close>

definition icache_ok :: "'z fs_scheme \<Rightarrow> bool" where
  "icache_ok s \<longleftrightarrow> (\<forall>ip<NINODE. 0 \<le> i_ref (icache s ip)) \<and>
     (\<forall>ip<NINODE. \<forall>jp<NINODE. 0 < i_ref (icache s ip) \<and> 0 < i_ref (icache s jp) \<and>
        i_dev (icache s ip) = i_dev (icache s jp) \<and> i_inum (icache s ip) = i_inum (icache s jp) \<longrightarrow> ip = jp)"

definition caches :: "'z fs_scheme \<Rightarrow> u32 \<Rightarrow> u32 \<Rightarrow> nat \<Rightarrow> bool" where
  "caches s dev inum ip \<longleftrightarrow> ip < NINODE \<and> 0 < i_ref (icache s ip) \<and> i_dev (icache s ip) = dev \<and> i_inum (icache s ip) = inum"

lemma icache_ok_upd:
  assumes ok: "icache_ok s" and "0 \<le> i_ref j"
    and ex: "\<And>jp. 0 < i_ref j \<Longrightarrow> jp < NINODE \<Longrightarrow> jp \<noteq> ip \<Longrightarrow> \<not> caches s (i_dev j) (i_inum j) jp"
  shows "icache_ok (s\<lparr>icache := (icache s)(ip := j)\<rparr>)"
  unfolding icache_ok_def
proof (intro conjI allI impI)
  fix x assume "x < NINODE"
  then show "0 \<le> i_ref (icache (s\<lparr>icache := (icache s)(ip := j)\<rparr>) x)" using ok assms(2) by (simp add: icache_ok_def)
next
  fix x y assume xy: "x < NINODE" "y < NINODE"
    and c: "0 < i_ref (icache (s\<lparr>icache := (icache s)(ip := j)\<rparr>) x) \<and> 0 < i_ref (icache (s\<lparr>icache := (icache s)(ip := j)\<rparr>) y) \<and>
      i_dev (icache (s\<lparr>icache := (icache s)(ip := j)\<rparr>) x) = i_dev (icache (s\<lparr>icache := (icache s)(ip := j)\<rparr>) y) \<and>
      i_inum (icache (s\<lparr>icache := (icache s)(ip := j)\<rparr>) x) = i_inum (icache (s\<lparr>icache := (icache s)(ip := j)\<rparr>) y)"
  show "x = y"
  proof (cases "x = ip \<or> y = ip")
    case True
    then show ?thesis using c xy ex [of x] ex [of y] by (cases "x = ip"; cases "y = ip") (simp_all add: caches_def)
  next
    case False
    then show ?thesis using c xy ok unfolding icache_ok_def by simp
  qed
qed

lemma caches_inj: "icache_ok s \<Longrightarrow> caches s dev inum ip \<Longrightarrow> caches s dev inum jp \<Longrightarrow> jp = ip"
  unfolding icache_ok_def caches_def by (elim conjE) blast

lemma iget_hit:
  assumes "nolocks s" and ok: "icache_ok s" and c: "caches s dev inum ip"
  shows "iget dev inum s = Done ip (s\<lparr>icache := (icache s)(ip := (icache s ip)\<lparr>i_ref := i_ref (icache s ip) + 1\<rparr>)\<rparr>)"
proof -
  let ?P = "\<lambda>jp. 0 < i_ref (icache s jp) \<and> i_dev (icache s jp) = dev \<and> i_inum (icache s jp) = inum"
  have "find ?P [0..<NINODE] \<noteq> None" using c by (auto simp: find_None_iff caches_def)
  then obtain jp where jp: "find ?P [0..<NINODE] = Some jp" by blast
  from find_SomeD [OF this] have "jp < NINODE" "?P jp" by auto
  then have "jp = ip" using caches_inj [OF ok c] by (simp add: caches_def)
  then show ?thesis using assms jp by (simp add: iget_def exec)
qed

lemma iget_miss:
  assumes "nolocks s" and no: "\<forall>ip. \<not> caches s dev inum ip" and free: "jp < NINODE" "i_ref (icache s jp) = 0"
  obtains ip where "ip < NINODE" and "i_ref (icache s ip) = 0" and "\<forall>j<ip. i_ref (icache s j) \<noteq> 0"
    and "iget dev inum s = Done ip (s\<lparr>icache := (icache s)(ip := (icache s ip)\<lparr>i_dev := dev, i_inum := inum, i_ref := 1,
           i_busy := False, i_valid := False\<rparr>)\<rparr>)"
proof -
  let ?P = "\<lambda>jp. 0 < i_ref (icache s jp) \<and> i_dev (icache s jp) = dev \<and> i_inum (icache s jp) = inum"
  let ?F = "\<lambda>jp. i_ref (icache s jp) = 0"
  have n: "find ?P [0..<NINODE] = None" using no by (auto simp: find_None_iff caches_def)
  have "find ?F [0..<NINODE] \<noteq> None" using free by (auto simp: find_None_iff)
  then obtain ip where ip: "find ?F [0..<NINODE] = Some ip" by blast
  then obtain k where "k < NINODE" "[0..<NINODE] ! k = ip" "?F ip" "\<forall>j<k. \<not> ?F ([0..<NINODE] ! j)"
    by (auto simp: find_Some_iff)
  then have "ip < NINODE" "?F ip" "\<forall>j<ip. \<not> ?F j" by auto
  moreover have "iget dev inum s = Done ip (s\<lparr>icache := (icache s)(ip := (icache s ip)\<lparr>i_dev := dev, i_inum := inum, i_ref := 1,
           i_busy := False, i_valid := False\<rparr>)\<rparr>)"
    using assms(1) n ip by (simp add: iget_def exec)
  ultimately show thesis by (rule that)
qed

lemma iget_rule:
  assumes nl: "nolocks s" and ok: "icache_ok s"
    and room: "(\<exists>ip. caches s dev inum ip) \<or> (\<exists>jp<NINODE. i_ref (icache s jp) = 0)"
  shows "returns (iget dev inum s) (\<lambda>ip t. (\<exists>c. t = s\<lparr>icache := c\<rparr>) \<and> icache_ok t \<and> caches t dev inum ip \<and>
    (caches s dev inum ip \<longrightarrow> i_ref (icache t ip) = i_ref (icache s ip) + 1) \<and>
    (\<not> caches s dev inum ip \<longrightarrow> i_ref (icache t ip) = 1 \<and> (\<forall>jp. \<not> caches s dev inum jp)) \<and>
    (\<forall>jp. jp \<noteq> ip \<longrightarrow> icache t jp = icache s jp))"
proof (cases "\<exists>ip. caches s dev inum ip")
  case True
  then obtain ip where c: "caches s dev inum ip" by blast
  show ?thesis
  proof (rule returnsI [OF iget_hit [OF nl ok c]], intro conjI)
    show "icache_ok (s\<lparr>icache := (icache s)(ip := (icache s ip)\<lparr>i_ref := i_ref (icache s ip) + 1\<rparr>)\<rparr>)"
    proof (rule icache_ok_upd [OF ok])
      have d: "i_dev (icache s ip) = dev" "i_inum (icache s ip) = inum" and r: "0 < i_ref (icache s ip)"
        using c by (simp_all add: caches_def)
      show "0 \<le> i_ref ((icache s ip)\<lparr>i_ref := i_ref (icache s ip) + 1\<rparr>)" using r by simp
      fix jp assume "jp \<noteq> ip"
      then have "\<not> caches s dev inum jp" using caches_inj [OF ok c] by blast
      then show "\<not> caches s (i_dev ((icache s ip)\<lparr>i_ref := i_ref (icache s ip) + 1\<rparr>))
          (i_inum ((icache s ip)\<lparr>i_ref := i_ref (icache s ip) + 1\<rparr>)) jp" by (simp add: d)
    qed
  qed (rule exI, rule refl, use c in \<open>simp_all add: caches_def\<close>)
next
  case False
  then obtain jp where jp: "jp < NINODE" "i_ref (icache s jp) = 0" using room by blast
  have no: "\<forall>ip. \<not> caches s dev inum ip" using False by blast
  obtain ip where ip: "ip < NINODE" "i_ref (icache s ip) = 0"
    and e: "iget dev inum s = Done ip (s\<lparr>icache := (icache s)(ip := (icache s ip)\<lparr>i_dev := dev, i_inum := inum, i_ref := 1,
         i_busy := False, i_valid := False\<rparr>)\<rparr>)" by (rule iget_miss [OF nl no jp])
  show ?thesis
  proof (rule returnsI [OF e], intro conjI)
    show "icache_ok (s\<lparr>icache := (icache s)(ip := (icache s ip)\<lparr>i_dev := dev, i_inum := inum, i_ref := 1,
         i_busy := False, i_valid := False\<rparr>)\<rparr>)"
      using no by (intro icache_ok_upd [OF ok]) simp_all
  qed (rule exI, rule refl, use ip no in \<open>auto simp: caches_def\<close>)
qed

text \<open>
  C11. \<open>iget\<close> returns the entry that caches the inode with one more reference, or makes the first
  unreferenced entry one for it; it never creates a second entry for a cached inode, changes no other
  entry, and panics exactly when the inode is not cached and every entry is referenced.
\<close>

theorem iget_unique:
  assumes nl: "nolocks s" and ok: "icache_ok s"
  shows "if (\<exists>ip. caches s dev inum ip) \<or> (\<exists>jp<NINODE. i_ref (icache s jp) = 0)
    then returns (iget dev inum s) (\<lambda>ip t. icache_ok t \<and> caches t dev inum ip \<and>
      (caches s dev inum ip \<longrightarrow> i_ref (icache t ip) = i_ref (icache s ip) + 1) \<and>
      (\<not> caches s dev inum ip \<longrightarrow> i_ref (icache t ip) = 1 \<and> (\<forall>jp. \<not> caches s dev inum jp)) \<and>
      (\<forall>jp. jp \<noteq> ip \<longrightarrow> icache t jp = icache s jp))
    else iget dev inum s = Panic ''iget: no inodes''"
proof (cases "(\<exists>ip. caches s dev inum ip) \<or> (\<exists>jp<NINODE. i_ref (icache s jp) = 0)")
  case True
  show ?thesis unfolding if_P [OF True] by (rule returns_mono [OF iget_rule [OF nl ok True]]) blast
next
  case False
  have "find (\<lambda>ip. 0 < i_ref (icache s ip) \<and> i_dev (icache s ip) = dev \<and> i_inum (icache s ip) = inum) [0..<NINODE] = None"
    using False by (auto simp: find_None_iff caches_def)
  moreover have "find (\<lambda>ip. i_ref (icache s ip) = 0) [0..<NINODE] = None" using False by (auto simp: find_None_iff)
  ultimately show ?thesis unfolding if_not_P [OF False] using nl by (simp add: iget_def exec)
qed

lemma booted_icache_ok: "icache_ok (booted d)"
  by (simp add: icache_ok_def inode0_def)

theorem iget_unique_witness:
  "returns (iget 1 5 (booted small_disk)) (\<lambda>ip t. icache_ok t \<and> caches t 1 5 ip \<and>
      (caches (booted small_disk) 1 5 ip \<longrightarrow> i_ref (icache t ip) = i_ref (icache (booted small_disk) ip) + 1) \<and>
      (\<not> caches (booted small_disk) 1 5 ip \<longrightarrow> i_ref (icache t ip) = 1 \<and> (\<forall>jp. \<not> caches (booted small_disk) 1 5 jp)) \<and>
      (\<forall>jp. jp \<noteq> ip \<longrightarrow> icache t jp = icache (booted small_disk) jp))"
proof -
  have "\<exists>jp<NINODE. i_ref (icache (booted small_disk) jp) = 0"
    by (rule exI [of _ 0]) (simp add: NINODE_def inode0_def)
  then show ?thesis
    using iget_unique [OF nolocks_booted booted_icache_ok, of small_disk 1 5] by simp
qed

section \<open>Writing an inode back and loading it again\<close>

lemma iunlock_eq:
  assumes "nolocks s" and "i_busy (icache s ip)" and "1 \<le> i_ref (icache s ip)"
  shows "iunlock (Some ip) s = Done () (s\<lparr>icache := (icache s)(ip := (icache s ip)\<lparr>i_busy := False\<rparr>),
    ptable := wake (ChInode ip) (ptable s)\<rparr>)"
  using assms by (simp add: iunlock_def exec)

lemma iput_linked:
  assumes "nolocks s" and "i_nlink (icache s ip) \<noteq> 0"
  shows "iput ip s = Done () (s\<lparr>icache := (icache s)(ip := (icache s ip)\<lparr>i_ref := i_ref (icache s ip) - 1\<rparr>)\<rparr>)"
  using assms by (simp add: iput_def exec)

lemma bok_ptable [simp]: "bok H dev (s\<lparr>ptable := p\<rparr>) = bok H dev s"
  unfolding bok_def cache_ok_def present_def by simp

text \<open>
  An inode that is written back with \<open>iupdate\<close>, dropped with \<open>iunlockput\<close> by its only user and
  looked up and locked again is read from disk with every field as it was written.
\<close>

theorem inode_roundtrip:
  assumes ok: "bok {} (i_dev i) s" and ic: "icache_ok s" and ip: "ip < NINODE" and i: "icache s ip = i"
    and lk: "i_busy i" "i_ref i = 1" and ty: "i_type i \<noteq> 0" "i_nlink i \<noteq> 0" and ad: "\<forall>k. NDIRECT < k \<longrightarrow> i_addrs i k = 0"
  shows "returns (bindk (iupdate ip) (\<lambda>_. bindk (iunlockput (Some ip)) (\<lambda>_. bindk (iget (i_dev i) (i_inum i)) (\<lambda>jp.
      bindk (ilock (Some jp)) (\<lambda>_. ret jp)))) s)
    (\<lambda>jp t. dinode_of (icache t jp) = dinode_of i \<and> caches t (i_dev i) (i_inum i) jp \<and> i_ref (icache t jp) = 1 \<and>
      i_busy (icache t jp) \<and> i_valid (icache t jp) \<and> bok {} (i_dev i) t)"
proof -
  let ?dev = "i_dev i" and ?inum = "i_inum i"
  let ?x = "put_dinode (disk s ?dev (IBLOCK ?inum)) (dip_off ?inum) (dinode_of i)"
  let ?D = "(disk s ?dev)(IBLOCK ?inum := ?x)"
  let ?Q = "\<lambda>jp t. dinode_of (icache t jp) = dinode_of i \<and> caches t ?dev ?inum jp \<and> i_ref (icache t jp) = 1 \<and>
      i_busy (icache t jp) \<and> i_valid (icache t jp) \<and> bok {} ?dev t"
  have load: "get_dinode ?x (dip_off ?inum) = dinode_of i"
    using ad by (auto simp: get_put_dinode dinode_of_def fun_eq_iff not_le)
  show ?thesis
  proof (rule returns_bindk, rule iupdate_rule [OF i ok])
    show "card {} < NBUF" "(?dev, IBLOCK ?inum) \<notin> held {} s" by (simp_all add: NBUF_def)
    fix r t assume t: "bpost {} ?dev s ?D t"
    note st = bpost_sel [OF t]
    have it: "icache t = icache s" by (rule bpost_icache [OF t])
    have nl: "nolocks t" using st by (simp add: bok_def)
    define u where "u = t\<lparr>icache := (icache s)(ip := i\<lparr>i_busy := False, i_ref := 0\<rparr>), ptable := wake (ChInode ip) (ptable t)\<rparr>"
    have un: "iunlockput (Some ip) t = Done () u"
      using nl lk ty by (simp add: iunlockput_def bindk_def iunlock_eq it i iput_linked u_def)
    have iu: "icache u = (icache s)(ip := i\<lparr>i_busy := False, i_ref := 0\<rparr>)" "nolocks u" "bok {} ?dev u" "disk u ?dev = ?D"
      using nl st by (simp_all add: u_def)
    have no: "\<forall>jp. \<not> caches u ?dev ?inum jp"
    proof (intro allI notI)
      fix jp assume c: "caches u ?dev ?inum jp"
      then have "jp \<noteq> ip" by (auto simp: caches_def iu)
      with c have "caches s ?dev ?inum jp" by (simp add: caches_def iu)
      moreover have "caches s ?dev ?inum ip" using ip lk by (simp add: caches_def i)
      ultimately show False using caches_inj [OF ic] \<open>jp \<noteq> ip\<close> by blast
    qed
    have r0: "i_ref (icache u ip) = 0" by (simp add: iu)
    obtain jp where jp: "jp < NINODE" and g: "iget ?dev ?inum u = Done jp (u\<lparr>icache := (icache u)(jp :=
        (icache u jp)\<lparr>i_dev := ?dev, i_inum := ?inum, i_ref := 1, i_busy := False, i_valid := False\<rparr>)\<rparr>)"
      by (rule iget_miss [OF iu(2) no ip r0])
    define j where "j = (icache u jp)\<lparr>i_dev := ?dev, i_inum := ?inum, i_ref := 1, i_busy := False, i_valid := False\<rparr>"
    define v where "v = u\<lparr>icache := (icache u)(jp := j)\<rparr>"
    have j: "i_dev j = ?dev" "i_inum j = ?inum" "i_ref j = 1" "\<not> i_busy j" "\<not> i_valid j" by (simp_all add: j_def)
    have v: "icache v jp = j" "bok {} ?dev v" "disk v ?dev = ?D" using iu by (simp_all add: v_def)
    let ?k = "(inode_load (dinode_of i) (j\<lparr>i_busy := True\<rparr>))\<lparr>i_valid := True\<rparr>"
    have lock: "returns (ilock (Some jp) v) (\<lambda>_. ipost {} (i_dev j) jp v ?k (disk v (i_dev j)))"
      by (rule ilock_load) (use v j load ty in \<open>simp_all add: dinode_of_def\<close>)
    have "returns (bindk (ilock (Some jp)) (\<lambda>_. ret jp) v) ?Q"
    proof (rule returns_bindk, rule lock)
      fix a w assume w: "ipost {} (i_dev j) jp v ?k (disk v (i_dev j)) w"
      show "returns (ret jp w) ?Q"
        by (rule returns_ret) (use ipost_sel [OF w] jp j in \<open>simp add: caches_def inode_load_def dinode_of_def\<close>)
    qed
    moreover have g': "iget ?dev ?inum u = Done jp v" unfolding v_def j_def by (rule g)
    have "bindk (iunlockput (Some ip)) (\<lambda>_. bindk (iget ?dev ?inum) k) t = k jp v" for k :: "nat \<Rightarrow> ('a fs_scheme, nat) km"
      unfolding bindk_def un outcome.case g' by (rule refl)
    ultimately show "returns (bindk (iunlockput (Some ip)) (\<lambda>_. bindk (iget ?dev ?inum) (\<lambda>jp. bindk (ilock (Some jp)) (\<lambda>_. ret jp))) t) ?Q"
      by (simp only:)
  qed
qed

theorem inode_roundtrip_witness:
  "returns (bindk (iupdate 3) (\<lambda>_. bindk (iunlockput (Some 3)) (\<lambda>_. bindk (iget 1 7) (\<lambda>jp. bindk (ilock (Some jp)) (\<lambda>_. ret jp))))
      ((booted small_disk)\<lparr>icache := (\<lambda>_. inode0)(3 := inode0\<lparr>i_dev := 1, i_inum := 7, i_ref := 1, i_busy := True, i_type := T_DIR, i_nlink := 2, i_size := 64\<rparr>)\<rparr>))
    (\<lambda>jp t. dinode_of (icache t jp) = dinode_of (inode0\<lparr>i_type := T_DIR, i_nlink := 2, i_size := 64\<rparr>) \<and> caches t 1 7 jp \<and>
      i_ref (icache t jp) = 1 \<and> i_busy (icache t jp) \<and> i_valid (icache t jp) \<and> bok {} 1 t)"
proof -
  let ?i = "inode0\<lparr>i_dev := 1, i_inum := 7, i_ref := 1, i_busy := True, i_type := T_DIR, i_nlink := 2, i_size := 64\<rparr>"
  let ?s = "(booted small_disk)\<lparr>icache := (\<lambda>_. inode0)(3 := ?i)\<rparr>"
  have "icache_ok ?s" by (simp add: icache_ok_def inode0_def)
  then show ?thesis
    using inode_roundtrip [of ?i ?s 3]
    by (simp add: booted_bok NINODE_def T_DIR_def dinode_of_def) (simp add: inode0_def)
qed

end
