(* ===== verification/Path_Props.thy ===== *)
theory Path_Props
  imports Contents Inode_Props
begin

text \<open>
  Properties of path names and directories: the elements \<open>skipelem\<close> yields, and which entry
  \<open>dirlookup\<close> finds.
\<close>

section \<open>Path elements\<close>

text \<open>The elements that the loop of \<open>namex\<close> takes off a path, one per call of \<open>skipelem\<close>.\<close>

function elems :: "u8 list \<Rightarrow> u8 list list" where
  "elems path = (case skipelem path of None \<Rightarrow> [] | Some (rest, el) \<Rightarrow> el # elems rest)"
  by pat_completeness auto
termination
  by (relation "measure length") (auto dest: skipelem_shorter)

declare elems.simps [simp del]

text \<open>Splitting a list at every occurrence of \<open>x\<close>.\<close>

fun split_at :: "'a \<Rightarrow> 'a list \<Rightarrow> 'a list list" where
  "split_at x [] = [[]]"
| "split_at x (y # ys) = (if y = x then [] # split_at x ys
     else (case split_at x ys of [] \<Rightarrow> [[y]] | w # ws \<Rightarrow> (y # w) # ws))"

lemma split_at_ne [simp]: "split_at x ys \<noteq> []"
  by (induction ys) (auto split: list.splits)

lemma split_at_take:
  "split_at x ys = takeWhile (\<lambda>y. y \<noteq> x) ys #
     (case dropWhile (\<lambda>y. y \<noteq> x) ys of [] \<Rightarrow> [] | _ # zs \<Rightarrow> split_at x zs)"
  by (induction ys) (auto split: list.splits)

definition words :: "u8 list \<Rightarrow> u8 list list" where
  "words path = filter (\<lambda>w. w \<noteq> []) (split_at 47 path)"

lemma words_slash [simp]: "words (47 # path) = words path"
  by (simp add: words_def)

lemma words_Nil [simp]: "words [] = []"
  by (simp add: words_def)

lemma words_drop: "words (dropWhile (\<lambda>c. c = 47) path) = words path"
  by (induction path) auto

lemma words_step:
  assumes "path \<noteq> []" and "hd path \<noteq> 47"
  shows "words path = takeWhile (\<lambda>c. c \<noteq> 47) path # words (dropWhile (\<lambda>c. c \<noteq> 47) path)"
proof -
  have t: "takeWhile (\<lambda>c. c \<noteq> 47) path \<noteq> []" using assms by (cases path) auto
  show ?thesis
  proof (cases "dropWhile (\<lambda>c. c \<noteq> 47) path")
    case Nil
    show ?thesis unfolding Nil words_Nil using t by (simp only: words_def split_at_take [of 47 path] Nil) simp
  next
    case (Cons c zs)
    then have "c = 47" by (metis (mono_tags, lifting) dropWhile_eq_Cons_conv)
    then have "words (dropWhile (\<lambda>c. c \<noteq> 47) path) = words zs" by (simp only: Cons words_slash)
    moreover have "words path = takeWhile (\<lambda>c. c \<noteq> 47) path # words zs"
      using t by (simp only: words_def split_at_take [of 47 path] Cons) simp
    ultimately show ?thesis by (simp only:)
  qed
qed


lemma store_name_nth:
  "i < DIRSIZ \<Longrightarrow> store_name old el i = (if i < length el then el ! i else if i = length el then 0 else old i)"
  by (auto simp: store_name_def)

lemma stored_agree:
  assumes z: "0 \<notin> set e" "0 \<notin> set f"
    and eq: "\<forall>i. i \<le> length e \<and> i < DIRSIZ \<longrightarrow> store_name old e i = store_name old' f i"
  shows "take DIRSIZ e = take DIRSIZ f"
proof -
  have nz: "g ! i \<noteq> 0" if "i < length g" "0 \<notin> set g" for g :: "u8 list" and i using that by (metis nth_mem)
  have ge: "length f \<le> length e" if "length e < DIRSIZ"
  proof (rule ccontr)
    assume "\<not> length f \<le> length e"
    then show False using eq [rule_format, of "length e"] that nz [of "length e" f] z by (simp add: store_name_nth)
  qed
  have le: "length e \<le> length f" if "length f < DIRSIZ"
  proof (rule ccontr)
    assume n: "\<not> length e \<le> length f"
    then show False using eq [rule_format, of "length f"] that nz [of "length f" e] z by (simp add: store_name_nth)
  qed
  have len: "min (length e) DIRSIZ = min (length f) DIRSIZ" using ge le by linarith
  show ?thesis
  proof (rule nth_equalityI)
    show "length (take DIRSIZ e) = length (take DIRSIZ f)" using len by (simp add: min.commute)
    fix i assume "i < length (take DIRSIZ e)"
    then have "i < length e" "i < DIRSIZ" "i < length f" using len by (auto simp: min_def split: if_splits)
    then show "take DIRSIZ e ! i = take DIRSIZ f ! i" using eq [rule_format, of i] by (simp add: store_name_nth)
  qed
qed

text \<open>
  The name that \<open>skipelem\<close> stores, compared with \<open>namecmp\<close>, is the element cut to
  \<open>DIRSIZ\<close> bytes, whatever the buffer held before: two elements without NUL bytes are taken for the
  same name exactly when their first 14 bytes agree.
\<close>

theorem names_14_bytes:
  assumes "0 \<notin> set e" and "0 \<notin> set f"
  shows "namecmp (store_name old e) (store_name old' f) = 0 \<longleftrightarrow> take DIRSIZ e = take DIRSIZ f"
proof
  let ?p = "store_name old e" and ?q = "store_name old' f"
  assume "namecmp ?p ?q = 0"
  then consider "\<forall>i<DIRSIZ. ?p i = ?q i" | k where "k < DIRSIZ" "?p k = 0" "\<forall>i\<le>k. ?p i = ?q i"
    by (auto simp: namecmp_def strncmp_zero_cases)
  then show "take DIRSIZ e = take DIRSIZ f"
  proof cases
    case 1
    then show ?thesis by (intro stored_agree [OF assms]) auto
  next
    case 2
    have "length e \<le> k"
    proof (rule ccontr)
      assume "\<not> length e \<le> k"
      then have "e ! k = 0" using 2 by (simp add: store_name_nth)
      then show False using assms(1) \<open>\<not> length e \<le> k\<close> by (metis not_le nth_mem)
    qed
    then show ?thesis using 2 by (intro stored_agree [OF assms, of old old']) auto
  qed
next
  assume t: "take DIRSIZ e = take DIRSIZ f"
  show "namecmp (store_name old e) (store_name old' f) = 0"
  proof (cases "length e < DIRSIZ")
    case True
    then have "e = f" using t by (metis length_take min.absorb2 min_less_iff_conj not_le take_all_iff less_imp_le)
    then show ?thesis using True
      by (auto simp: namecmp_def strncmp_zero_cases store_name_nth intro!: exI [of _ "length e"])
  next
    case False
    then have "DIRSIZ \<le> length f" using t by (metis length_take min.absorb2 min.cobounded1 not_less)
    then have "\<forall>i<DIRSIZ. store_name old e i = store_name old' f i"
      using False t by (auto simp: store_name_nth) (metis nth_take)
    then show ?thesis by (simp add: namecmp_def strncmp_zero_cases)
  qed
qed

theorem names_14_bytes_witness:
  "namecmp (store_name (\<lambda>_. 1) (replicate 14 97 @ [98])) (store_name (\<lambda>_. 2) (replicate 14 97 @ [99, 100])) = 0"
  using names_14_bytes [of "replicate 14 97 @ [98]" "replicate 14 97 @ [99, 100]" "\<lambda>_. 1" "\<lambda>_. 2"]
  by (simp add: DIRSIZ_def)

section \<open>Directory lookup\<close>

text \<open>The first entry of block \<open>b\<close> of a directory that has the name, as the scan of the block finds it.\<close>

definition block_match :: "inode \<Rightarrow> (u32 \<Rightarrow> block) \<Rightarrow> mem \<Rightarrow> nat \<Rightarrow> nat option" where
  "block_match i D name b = find (de_match name (D (addr_of i D b))) [0..<32]"

definition dir_blocks :: "inode \<Rightarrow> nat" where
  "dir_blocks i = (unat (i_size i) + BSIZE - 1) div BSIZE"

lemma off_div: "b * BSIZE div BSIZE = b"
  by (simp add: BSIZE_def)

lemma lookup_block_none:
  assumes h: "locks_all dev Map.empty s t" and i: "icache s dp = i" "i_dev i = dev" and m: "mapped i (disk t dev) b"
    and no: "block_match i (disk t dev) name b = None"
  shows "returns (dirlookup_block dp name (b * BSIZE) t) (\<lambda>r u. r = None \<and> locks_all dev Map.empty s u \<and> disk u = disk t)"
  unfolding dirlookup_block_def off_div
proof (rule map_and_read [OF h i m])
  let ?a = "addr_of i (disk t dev) b"
  fix c u assume u: "locks_all dev [c \<mapsto> (?a, disk t dev ?a)] s u" "disk u = disk t"
  show "returns (bindk (data_of c) (\<lambda>d. case find (de_match name d) [0..<32] of
        None \<Rightarrow> bindk (brelse c) (\<lambda>_. ret None)
      | Some k \<Rightarrow> bindk (brelse c) (\<lambda>_. bindk (iget (i_dev i) (ucast (de_inum d k))) (\<lambda>ip. ret (Some (ip, b * BSIZE + 16 * k))))) u)
      (\<lambda>r u. r = None \<and> locks_all dev Map.empty s u \<and> disk u = disk t)"
    by (rule then_data [OF u(1), where n = ?a and x = "disk t dev ?a"], simp,
        unfold no [unfolded block_match_def] option.case, rule then_release [OF u(1), of _ ?a], simp add: u)
      (use u in \<open>auto intro!: returns_ret\<close>)
qed

lemma lookup_block_some:
  assumes h: "locks_all dev Map.empty s t" and i: "icache s dp = i" "i_dev i = dev" and m: "mapped i (disk t dev) b"
    and k: "block_match i (disk t dev) name b = Some k" and ok: "icache_ok s"
    and room: "\<exists>jp<NINODE. i_ref (icache s jp) = 0"
  shows "returns (dirlookup_block dp name (b * BSIZE) t) (\<lambda>r u. disk u = disk t \<and> (\<exists>ip. r = Some (ip, b * BSIZE + 16 * k) \<and>
    caches u dev (ucast (de_inum (disk t dev (addr_of i (disk t dev) b)) k)) ip \<and> icache_ok u))"
  unfolding dirlookup_block_def off_div
proof (rule map_and_read [OF h i m])
  let ?a = "addr_of i (disk t dev) b" let ?n = "ucast (de_inum (disk t dev ?a) k) :: u32"
  fix c u assume u: "locks_all dev [c \<mapsto> (?a, disk t dev ?a)] s u" "disk u = disk t"
  show "returns (bindk (data_of c) (\<lambda>d. case find (de_match name d) [0..<32] of
        None \<Rightarrow> bindk (brelse c) (\<lambda>_. ret None)
      | Some k \<Rightarrow> bindk (brelse c) (\<lambda>_. bindk (iget (i_dev i) (ucast (de_inum d k))) (\<lambda>ip. ret (Some (ip, b * BSIZE + 16 * k))))) u)
      (\<lambda>r u. disk u = disk t \<and> (\<exists>ip. r = Some (ip, b * BSIZE + 16 * k) \<and> caches u dev ?n ip \<and> icache_ok u))"
  proof (rule then_data [OF u(1), where n = ?a and x = "disk t dev ?a"], simp,
      unfold k [unfolded block_match_def] option.case i(2), rule then_release [OF u(1), of _ ?a], simp add: u)
    fix v assume v: "locks_all dev ([c \<mapsto> (?a, disk t dev ?a)](c := None)) s v" "disk v = disk u"
    have ic: "icache v = icache s" by (rule locks_icache [OF v(1)])
    have nl: "nolocks v" using v(1) by (simp add: locks_all_def bok_def)
    have okv: "icache_ok v" using ok by (simp add: icache_ok_def ic)
    have g: "returns (iget dev ?n v) (\<lambda>ip w. icache_ok w \<and> caches w dev ?n ip \<and> disk w = disk v)"
      by (rule returns_mono, rule iget_rule [OF nl okv]) (use room in \<open>auto simp: ic\<close>)
    show "returns (bindk (iget dev ?n) (\<lambda>ip. ret (Some (ip, b * BSIZE + 16 * k))) v)
      (\<lambda>r u. disk u = disk t \<and> (\<exists>ip. r = Some (ip, b * BSIZE + 16 * k) \<and> caches u dev ?n ip \<and> icache_ok u))"
      by (rule returns_bindk, rule g) (use v u in \<open>auto intro!: returns_ret\<close>)
  qed
qed

text \<open>The search over the blocks of a directory.\<close>

lemma lookup_search:
  assumes "locks_all dev Map.empty s t" and i: "icache s dp = i" "i_dev i = dev"
    and m: "\<forall>b\<in>set bs. mapped i (disk t dev) b"
    and ok: "icache_ok s" and room: "\<exists>jp<NINODE. i_ref (icache s jp) = 0"
  shows "returns (search (dirlookup_block dp name) (map (\<lambda>k. k * BSIZE) bs) t) (\<lambda>r u. disk u = disk t \<and>
    (case find (\<lambda>b. block_match i (disk t dev) name b \<noteq> None) bs of
       None \<Rightarrow> r = None \<and> icache u = icache s
     | Some b \<Rightarrow> \<exists>ip. r = Some (ip, b * BSIZE + 16 * the (block_match i (disk t dev) name b)) \<and> icache_ok u \<and>
         caches u dev (ucast (de_inum (disk t dev (addr_of i (disk t dev) b)) (the (block_match i (disk t dev) name b)))) ip))"
  using assms(1) m
proof (induction bs arbitrary: t)
  case Nil
  then show ?case using locks_icache [OF Nil(1)] by (simp add: returns_ret)
next
  case (Cons b bs)
  have mb: "mapped i (disk t dev) b" using Cons by simp
  show ?case
  proof (cases "block_match i (disk t dev) name b")
    case None
    show ?thesis
      unfolding list.map search.simps
    proof (rule returns_bindk, rule lookup_block_none [OF Cons(2) i mb None], elim conjE)
      fix r :: "(nat \<times> nat) option" and u assume u: "r = None" "locks_all dev Map.empty s u" "disk u = disk t"
      show "returns ((case r of None \<Rightarrow> search (dirlookup_block dp name) (map (\<lambda>k. k * BSIZE) bs) | Some v \<Rightarrow> ret (Some v)) u)
        (\<lambda>r u. disk u = disk t \<and> (case find (\<lambda>b. block_match i (disk t dev) name b \<noteq> None) (b # bs) of
           None \<Rightarrow> r = None \<and> icache u = icache s
         | Some b \<Rightarrow> \<exists>ip. r = Some (ip, b * BSIZE + 16 * the (block_match i (disk t dev) name b)) \<and> icache_ok u \<and>
             caches u dev (ucast (de_inum (disk t dev (addr_of i (disk t dev) b)) (the (block_match i (disk t dev) name b)))) ip))"
        using Cons.IH [OF u(2), unfolded u(3)] Cons.prems(2) u(1) None by simp
    qed
  next
    case (Some k)
    show ?thesis
      unfolding list.map search.simps
      by (rule returns_bindk, rule lookup_block_some [OF Cons(2) i mb Some ok room])
        (use Some in \<open>auto intro!: returns_ret\<close>)
  qed
qed

text \<open>
  \<open>dirlookup\<close> on a directory whose blocks are allocated finds the first entry in use with the
  given name, in the order of the blocks and of the entries in each block, and returns its inode,
  cached with a reference, and its byte offset; without such an entry it returns none and takes no
  reference. It changes nothing on disk.
\<close>

theorem dirlookup_first:
  assumes ok: "bok {} (i_dev i) s" and i: "icache s dp = i" "i_type i = T_DIR"
    and m: "\<forall>b<dir_blocks i. mapped i (disk s (i_dev i)) b"
    and ic: "icache_ok s" and room: "\<exists>jp<NINODE. i_ref (icache s jp) = 0"
  shows "returns (dirlookup dp name s) (\<lambda>r t. disk t = disk s \<and>
    (case find (\<lambda>b. block_match i (disk s (i_dev i)) name b \<noteq> None) [0..<dir_blocks i] of
       None \<Rightarrow> r = None \<and> icache t = icache s
     | Some b \<Rightarrow> \<exists>ip. r = Some (ip, b * BSIZE + 16 * the (block_match i (disk s (i_dev i)) name b)) \<and> icache_ok t \<and>
         caches t (i_dev i) (ucast (de_inum (disk s (i_dev i) (addr_of i (disk s (i_dev i)) b))
           (the (block_match i (disk s (i_dev i)) name b)))) ip))"
proof -
  have t: "\<not> i_type i \<noteq> T_DIR" using i(2) by simp
  show ?thesis
    unfolding dirlookup_def bindk_Done [OF inode_of_eq] i(1) dir_blocks_def [symmetric] if_not_P [OF t]
    by (rule lookup_search [OF locks_empty [OF ok] i(1) refl _ ic room]) (use m in simp)
qed

text \<open>A directory in block 30 of the small disk: entry 1 is \<open>a\<close>, inode 5.\<close>

definition dir_disk :: "u32 \<Rightarrow> u32 \<Rightarrow> block" where
  "dir_disk dev = (small_disk dev)(30 := (\<lambda>_. 0)(16 := 5, 18 := 97))"

definition dir1 :: inode where
  "dir1 = inode0\<lparr>i_dev := 1, i_inum := 1, i_ref := 1, i_busy := True, i_valid := True, i_type := T_DIR, i_nlink := 1,
     i_size := 32, i_addrs := (\<lambda>_. 0)(0 := 30)\<rparr>"

lemma dir1_match: "block_match dir1 (dir_disk 1) (store_name (\<lambda>_. 0) [97]) 0 = Some 1"
proof -
  let ?d = "dir_disk 1 30" and ?n = "store_name (\<lambda>_. 0) [97]"
  have a: "addr_of dir1 (dir_disk 1) 0 = 30" by (simp add: addr_of_def NDIRECT_def dir1_def)
  have e: "ptr ?d (16 * 1 + 2) = ?n" by (auto simp: dir_disk_def ptr_def store_name_def DIRSIZ_def fun_eq_iff)
  have m: "\<not> de_match ?n ?d 0" "de_match ?n ?d 1"
    using e by (auto simp: de_match_def de_inum_def get16_def dir_disk_def namecmp_def)
  have "[0..<32::nat] = 0 # 1 # [2..<32]" by (simp add: upt_rec)
  then show ?thesis using m by (simp add: block_match_def a)
qed

theorem dirlookup_first_witness:
  "returns (dirlookup 0 (store_name (\<lambda>_. 0) [97]) ((booted dir_disk)\<lparr>icache := (\<lambda>_. inode0)(0 := dir1)\<rparr>))
    (\<lambda>r t. disk t = dir_disk \<and> (\<exists>ip. r = Some (ip, 16) \<and> icache_ok t \<and> caches t 1 5 ip))"
proof -
  let ?s = "(booted dir_disk)\<lparr>icache := (\<lambda>_. inode0)(0 := dir1)\<rparr>" and ?n = "store_name (\<lambda>_. 0) [97]"
  have d: "i_dev dir1 = 1" "i_type dir1 = T_DIR" "dir_blocks dir1 = 1" by (simp_all add: dir1_def dir_blocks_def BSIZE_def)
  have sm: "meta (small_disk 1) = {1, 4}" by (simp add: meta_def small_disk_bitmap)
  have "meta (dir_disk 1) = {1, 4}" by (simp add: dir_disk_def meta_upd sm)
  then have m: "\<forall>b<dir_blocks dir1. mapped dir1 (disk ?s (i_dev dir1)) b"
    by (simp add: d mapped_def addr_of_def NDIRECT_def MAXFILE_def) (simp add: dir1_def)
  have ic: "icache_ok ?s" by (simp add: icache_ok_def inode0_def dir1_def)
  have room: "\<exists>jp<NINODE. i_ref (icache ?s jp) = 0" by (rule exI [of _ 1]) (simp add: NINODE_def inode0_def)
  have n: "ucast (de_inum (dir_disk 1 (addr_of dir1 (dir_disk 1) 0)) 1) = (5 :: u32)"
    by (simp add: de_inum_def get16_def dir_disk_def addr_of_def NDIRECT_def dir1_def)
  show ?thesis
    using dirlookup_first [of dir1 ?s 0 ?n, OF _ _ d(2) m ic room]
    by (simp add: d booted_bok dir1_match n [simplified])
qed

end
