(* ===== verification/Memory_Props.thy ===== *)
theory Memory_Props
  imports Boot
begin

text \<open>
  Properties of the page allocator: the list of free pages that \<open>kinit\<close> builds and how
  \<open>kalloc\<close> and \<open>kfree\<close> change it.
\<close>

lemma PGROUNDUP_page:
  assumes "unat k + 4095 < 2 ^ 32"
  shows "4096 dvd unat (PGROUNDUP k)" and "unat k \<le> unat (PGROUNDUP k)" and "unat (PGROUNDUP k) < unat k + 4096"
proof -
  have m: "NOT (PGSIZE - 1) = NOT (mask 12 :: u32)" by (simp add: PGSIZE_def mask_eq_exp_minus_1)
  have "unat (PGROUNDUP k) = unat (k + 4095) div 4096 * 4096"
  proof -
    have a: "x AND NOT (mask 12) = push_bit 12 (drop_bit 12 x)" for x :: u32
      by (rule bit_word_eqI) (auto simp: bit_simps)
    have "PGROUNDUP k = push_bit 12 (drop_bit 12 (k + 4095))"
      unfolding PGROUNDUP_def m a by (simp add: PGSIZE_def add.commute)
    then show ?thesis
      using unat_lt2p [of "k + 4095"]
      by (simp add: unsigned_push_bit_eq unsigned_drop_bit_eq push_bit_eq_mult drop_bit_eq_div take_bit_eq_mod
          unat_word_ariths unat_div)
  qed
  moreover have "unat (k + 4095) = unat k + 4095" using assms by (simp add: unat_word_ariths)
  ultimately have e: "unat (PGROUNDUP k) = (unat k + 4095) div 4096 * 4096" by simp
  then show "4096 dvd unat (PGROUNDUP k)" by simp
  show "unat k \<le> unat (PGROUNDUP k)" "unat (PGROUNDUP k) < unat k + 4096" unfolding e by linarith+
qed

text \<open>
  C4. Starting with no free page, \<open>kinit\<close> makes exactly the pages from the end of the kernel
  image up to \<open>PHYSTOP\<close> available, linked through the pages themselves.
\<close>

theorem kinit_frees_all:
  assumes nl: "nolocks s" and empty: "freelist s = 0" and k: "0 < kend s" "kend s \<le> PHYSTOP"
  shows "returns (kinit s) (\<lambda>_ t. free_pages t (rev (page_list (unat (PGROUNDUP (kend s))))))"
proof -
  let ?s = "s\<lparr>lockst := (lockst s)\<lparr>lks := (lks (lockst s))(LkKmem := \<lparr>locked = False, lk_cpu = None\<rparr>)\<rparr>\<rparr>"
  have "unat (kend s) \<le> 16777216" using k(2) by (simp add: PHYSTOP_def word_le_nat_alt)
  then have r: "unat (kend s) + 4095 < 2 ^ 32" by simp
  note g = PGROUNDUP_page [OF r]
  have "0 < unat (kend s)" using k(1) by (simp add: word_less_nat_alt)
  moreover have "unlocked LkKmem ?s"
    using nolocks_spin(2) [OF nl] by (simp add: lk_free_def spin_ok_def)
  moreover have "free_pages ?s []" using empty by (simp add: free_pages_def)
  ultimately have "returns (kinit_loop (unat (PGROUNDUP (kend s))) ?s)
      (\<lambda>_ t. free_pages t (rev (page_list (unat (PGROUNDUP (kend s)))) @ []) \<and> kend t = kend ?s)"
    using g by (intro kinit_loop_pages) auto
  then show ?thesis by (simp add: kinit_def exec returns_def) blast
qed

theorem kinit_frees_all_witness:
  "returns (kinit (booted (\<lambda>_ _ _. 0))) (\<lambda>_ t. free_pages t (rev (page_list (unat (PGROUNDUP 0x110000)))))"
  using kinit_frees_all [of "booted (\<lambda>_ _ _. 0)"] by (simp add: PHYSTOP_def)

text \<open>
  The allocator is a stack of pages: \<open>kfree\<close> of an allocated page pushes it, filled with
  ones, and the next \<open>kalloc\<close> returns it again and leaves the free list as it was.
\<close>

theorem kfree_then_kalloc:
  assumes nl: "unlocked LkKmem s" and fp: "free_pages s vs" and v: "page s v" "v \<notin> set vs" "v \<noteq> 0"
  shows "returns (kfree v s) (\<lambda>_ t. free_pages t (v # vs) \<and> (\<forall>i. 4 \<le> i \<and> i < 4096 \<longrightarrow> phys t (unat v + i) = 1)) \<and>
    returns (bindk (kfree v) (\<lambda>_. kalloc) s) (\<lambda>r t. r = v \<and> free_pages t vs)"
proof
  note f = freed_pages [OF fp v]
  have "\<forall>i. 4 \<le> i \<and> i < 4096 \<longrightarrow> phys (freed v s) (unat v + i) = 1" by (simp add: freed_def memset_apply)
  then show "returns (kfree v s) (\<lambda>_ t. free_pages t (v # vs) \<and> (\<forall>i. 4 \<le> i \<and> i < 4096 \<longrightarrow> phys t (unat v + i) = 1))"
    using f by (simp add: kfree_freed [OF nl v(1)] returns_def)
  obtain t where "kalloc (freed v s) = Done v t" "free_pages t vs"
    using kalloc_pages [OF _ f] nl by auto
  then show "returns (bindk (kfree v) (\<lambda>_. kalloc) s) (\<lambda>r t. r = v \<and> free_pages t vs)"
    by (simp add: bindk_def kfree_freed [OF nl v(1)] returns_def)
qed

theorem kfree_then_kalloc_witness:
  "returns (kfree 0x200000 (booted (\<lambda>_ _ _. 0))) (\<lambda>_ t. free_pages t [0x200000] \<and> (\<forall>i. 4 \<le> i \<and> i < 4096 \<longrightarrow> phys t (0x200000 + i) = 1)) \<and>
    returns (bindk (kfree 0x200000) (\<lambda>_. kalloc) (booted (\<lambda>_ _ _. 0))) (\<lambda>r t. r = 0x200000 \<and> free_pages t [])"
  using kfree_then_kalloc [where s = "booted (\<lambda>_ _ _. 0)" and vs = "[]" and v = "0x200000"]
  by (simp add: free_pages_def page_def PGSIZE_def PHYSTOP_def)

end
