(* ===== verification/File_Props.thy ===== *)
theory File_Props
  imports Boot
begin

text \<open>
  Properties of pipes, the open file table and descriptors. The concrete inputs are states in
  which process 0 runs, built on \<open>booted\<close>.
\<close>

definition running :: "kern \<Rightarrow> kern" where
  "running s = s\<lparr>ptable := (ptable s)(0 := (ptable s 0)\<lparr>p_state := RUNNING, p_pid := 1, p_sz := 4096\<rparr>), curproc := Some 0\<rparr>"

abbreviation zero_disk :: "u32 \<Rightarrow> u32 \<Rightarrow> block" where
  "zero_disk \<equiv> (\<lambda>_ _ _. 0)"

lemma running_sel [simp]:
  "nolocks (running s) = nolocks s" "pipes (running s) = pipes s" "ftable (running s) = ftable s"
  "curproc (running s) = Some 0" "freelist (running s) = freelist s" "totalpercent (running s) = totalpercent s"
  "mycpu (running s) = mycpu s" "lockst (running s) = lockst s" "umem (running s) = umem s"
  by (simp_all add: running_def)

section \<open>Pipes\<close>

text \<open>
  C5. Bytes written to a pipe with room for them come out of a later read in the same order after
  the bytes that were there, none lost or changed, whatever the values of the wrapping counters.
\<close>

theorem pipe_fifo:
  assumes nl: "nolocks s" and ok: "pipe_ok (pipes s p)" and n: "0 < n"
    and room: "length (pipe_bytes (pipes s p)) + nat n \<le> PIPESIZE"
  shows "returns (bindk (pipewrite p src n) (\<lambda>_. piperead p dst (int PIPESIZE)) s) (\<lambda>(r, m) t.
    r = int (length (pipe_bytes (pipes s p))) + n \<and>
    (\<forall>k < length (pipe_bytes (pipes s p)). m k = pipe_bytes (pipes s p) ! k) \<and>
    (\<forall>k < nat n. m (length (pipe_bytes (pipes s p)) + k) = src k) \<and> pipe_bytes (pipes t p) = [])"
proof -
  obtain q where w: "pipewrite p src n s = Done n (s\<lparr>pipes := (pipes s)(p := q), ptable := wake (ChPipeR (unat p)) (ptable s)\<rparr>)"
    and q: "pipe_ok q" "pipe_bytes q = pipe_bytes (pipes s p) @ map src [0..<nat n]"
    using pipewrite_eq [OF nl ok room] by blast
  let ?t = "s\<lparr>pipes := (pipes s)(p := q), ptable := wake (ChPipeR (unat p)) (ptable s)\<rparr>"
  have ne: "pipe_bytes (pipes ?t p) \<noteq> []" using q(2) n by simp
  have len: "length (pipe_bytes q) = length (pipe_bytes (pipes s p)) + nat n" using q(2) by simp
  obtain q' where r: "piperead p dst (int PIPESIZE) ?t = Done (int (min (nat (int PIPESIZE)) (length (pipe_bytes (pipes ?t p)))),
      store_bytes dst (take (nat (int PIPESIZE)) (pipe_bytes (pipes ?t p))))
      (?t\<lparr>pipes := (pipes ?t)(p := q'), ptable := wake (ChPipeW (unat p)) (ptable ?t)\<rparr>)"
    "pipe_bytes q' = drop (nat (int PIPESIZE)) (pipe_bytes (pipes ?t p))"
    using piperead_eq [of ?t p dst "int PIPESIZE"] nl ne by auto
  show ?thesis
    using w r len room n q(2) pipe_bytes_le [OF q(1)]
    by (simp add: bindk_def returns_def store_bytes_def nth_append)
qed

theorem pipe_fifo_witness:
  "returns (bindk (pipewrite 0x200000 (\<lambda>i. of_nat i) 3) (\<lambda>_. piperead 0x200000 (\<lambda>_. 0) (int PIPESIZE)) (booted zero_disk))
    (\<lambda>(r, m) t. r = 3 \<and> (\<forall>k < (0::nat). m k = ([] :: u8 list) ! k) \<and> (\<forall>k < nat 3. m (0 + k) = of_nat k) \<and>
      pipe_bytes (pipes t 0x200000) = [])"
  using pipe_fifo [of "booted zero_disk" "0x200000" 3 "\<lambda>i. of_nat i" "\<lambda>_. 0"]
  by (simp add: pipe_ok_def pipe0_def pipe_bytes_def PIPESIZE_def)

lemma pipewrite_fill:
  assumes ok: "pipe_ok (pipes s p)" and split: "length (pipe_bytes (pipes s p)) + length xs = PIPESIZE"
    and full: "\<And>q. pipe_ok q \<Longrightarrow> pipe_bytes q = pipe_bytes (pipes s p) @ map addr xs \<Longrightarrow>
      pp_readopen q = pp_readopen (pipes s p) \<Longrightarrow> pp_writeopen q = pp_writeopen (pipes s p) \<Longrightarrow>
      pipewrite_round p addr y (s\<lparr>pipes := (pipes s)(p := q)\<rparr>) = Swtch (f q)"
  shows "\<exists>q. pipe_ok q \<and> pipe_bytes q = pipe_bytes (pipes s p) @ map addr xs \<and>
    search (pipewrite_round p addr) (xs @ y # ys) s = Swtch (f q)"
proof -
  obtain q where q: "search (pipewrite_round p addr) xs s = Done None (s\<lparr>pipes := (pipes s)(p := q)\<rparr>)"
    "pipe_ok q" "pipe_bytes q = pipe_bytes (pipes s p) @ map addr xs"
    "pp_readopen q = pp_readopen (pipes s p)" "pp_writeopen q = pp_writeopen (pipes s p)"
    using pipewrite_loop [OF ok, of xs addr] split by auto
  have app: "search g (xs @ zs) s = bindk (search g xs) (\<lambda>r. case r of None \<Rightarrow> search g zs | Some v \<Rightarrow> ret (Some v)) s"
    for g :: "nat \<Rightarrow> ('a files_scheme, int option) km" and xs zs s
    by (induction xs arbitrary: s) (auto simp: bindk_def ret_def split: outcome.splits option.splits)
  have "search (pipewrite_round p addr) (xs @ y # ys) s = Swtch (f q)"
    using q(1) full [OF q(2-5)] by (simp add: app bindk_def)
  then show ?thesis using q by blast
qed

lemma pipewrite_full_sleeps:
  assumes nl: "nolocks s" and n0: "ncli (cpus (lockst s) (mycpu s)) = 0" and me: "curproc s = Some me"
    and live: "\<not> p_killed (ptable s me)" "p_state (ptable s me) = RUNNING"
    and q: "pipe_full q" "pp_readopen q"
  shows "pipewrite_round p addr y (s\<lparr>lockst := lk_take (mycpu s) (LkPipe (unat p)) (lockst s), pipes := (pipes s)(p := q)\<rparr>) =
    Swtch (s\<lparr>lockst := lk_drop (mycpu s) (LkPipe (unat p)) (lk_take (mycpu s) LkPtable
        (lk_take (mycpu s) (LkPipe (unat p)) (lockst s))),
      pipes := (pipes s)(p := q),
      ptable := (wake (ChPipeR (unat p)) (ptable s))(me := (ptable s me)\<lparr>p_chan := Some (ChPipeW (unat p)),
        p_state := SLEEPING\<rparr>)\<rparr>)"
proof -
  have w: "wake (ChPipeR (unat p)) (ptable s) me = ptable s me" using live by (simp add: wake_def)
  show ?thesis
    using nl n0 me live q w
    by (simp add: pipewrite_round_def exec sleep_def sched_def Let_def)
qed

text \<open>
  A write that does not fit while the read end is open: the pipe is filled to its 512 bytes,
  readers are woken, and the writer sleeps, holding no lock but the process table's.
\<close>

theorem pipewrite_blocks:
  assumes nl: "nolocks s" and n0: "ncli (cpus (lockst s) (mycpu s)) = 0" and me: "curproc s = Some me"
    and live: "\<not> p_killed (ptable s me)" "p_state (ptable s me) = RUNNING"
    and ok: "pipe_ok (pipes s p)" "pp_readopen (pipes s p)"
    and big: "PIPESIZE < length (pipe_bytes (pipes s p)) + nat n"
  shows "\<exists>t. pipewrite p src n s = Swtch t \<and>
    pipe_bytes (pipes t p) = pipe_bytes (pipes s p) @ map src [0..<PIPESIZE - length (pipe_bytes (pipes s p))] \<and>
    length (pipe_bytes (pipes t p)) = PIPESIZE \<and>
    p_state (ptable t me) = SLEEPING \<and> p_chan (ptable t me) = Some (ChPipeW (unat p)) \<and>
    (\<forall>i<NPROC. p_state (ptable s i) = SLEEPING \<longrightarrow> p_chan (ptable s i) = Some (ChPipeR (unat p)) \<longrightarrow>
       p_state (ptable t i) = RUNNABLE)"
proof -
  let ?k = "PIPESIZE - length (pipe_bytes (pipes s p))" and ?s1 = "s\<lparr>lockst := lk_take (mycpu s) (LkPipe (unat p)) (lockst s)\<rparr>"
  let ?f = "\<lambda>q. s\<lparr>lockst := lk_drop (mycpu s) (LkPipe (unat p)) (lk_take (mycpu s) LkPtable
        (lk_take (mycpu s) (LkPipe (unat p)) (lockst s))),
      pipes := (pipes s)(p := q),
      ptable := (wake (ChPipeR (unat p)) (ptable s))(me := (ptable s me)\<lparr>p_chan := Some (ChPipeW (unat p)),
        p_state := SLEEPING\<rparr>)\<rparr>"
  have le: "length (pipe_bytes (pipes s p)) \<le> PIPESIZE" using pipe_bytes_le [OF ok(1)] .
  have kn: "?k < nat n" using big le by simp
  then have sp: "[0..<nat n] = [0..<?k] @ ?k # [Suc ?k..<nat n]"
    by (metis upt_conv_Cons upt_add_eq_append zero_le le_add_diff_inverse less_imp_le)
  have "\<exists>q. pipe_ok q \<and> pipe_bytes q = pipe_bytes (pipes ?s1 p) @ map src [0..<?k] \<and>
      search (pipewrite_round p src) ([0..<?k] @ ?k # [Suc ?k..<nat n]) ?s1 = Swtch (?f q)"
  proof (rule pipewrite_fill)
    fix q assume "pipe_bytes q = pipe_bytes (pipes ?s1 p) @ map src [0..<?k]" "pp_readopen q = pp_readopen (pipes ?s1 p)"
    then have "pipe_full q" "pp_readopen q" using le ok by (simp_all add: pipe_full_iff)
    from pipewrite_full_sleeps [OF nl n0 me live this, of p src ?k]
    show "pipewrite_round p src ?k (?s1\<lparr>pipes := (pipes ?s1)(p := q)\<rparr>) = Swtch (?f q)" by simp
  qed (use le ok in simp_all)
  then obtain q where q: "pipe_bytes q = pipe_bytes (pipes s p) @ map src [0..<?k]"
    "search (pipewrite_round p src) [0..<nat n] ?s1 = Swtch (?f q)"
    unfolding sp by auto
  have "pipewrite p src n s = Swtch (?f q)"
    using nl q(2) by (simp add: pipewrite_def acq_unlocked bindk_def)
  then show ?thesis using q(1) le live by (auto simp: wake_def)
qed

definition reader_open :: kern where
  "reader_open = (running (booted zero_disk))\<lparr>pipes := (\<lambda>_. pipe0\<lparr>pp_readopen := True, pp_writeopen := True\<rparr>)\<rparr>"

theorem pipewrite_blocks_witness:
  "\<exists>t. pipewrite 0x200000 (\<lambda>_. 7) 600 reader_open = Swtch t \<and>
    pipe_bytes (pipes t 0x200000) = [] @ map (\<lambda>_. 7) [0..<PIPESIZE - 0] \<and>
    length (pipe_bytes (pipes t 0x200000)) = PIPESIZE \<and>
    p_state (ptable t 0) = SLEEPING \<and> p_chan (ptable t 0) = Some (ChPipeW (unat (0x200000 :: u32))) \<and>
    (\<forall>i<NPROC. p_state (ptable reader_open i) = SLEEPING \<longrightarrow>
       p_chan (ptable reader_open i) = Some (ChPipeR (unat (0x200000 :: u32))) \<longrightarrow> p_state (ptable t i) = RUNNABLE)"
proof -
  have e: "pipe_bytes (pipes reader_open 0x200000) = []" "nolocks reader_open"
    by (simp_all add: reader_open_def pipe_bytes_def pipe0_def)
  show ?thesis
    using pipewrite_blocks [of reader_open 0 "0x200000" 600 "\<lambda>_. 7"] e
    by (simp add: reader_open_def pipe_ok_def pipe0_def PIPESIZE_def running_def proc0_def spin0_def)
qed

section \<open>The file table\<close>

text \<open>
  \<open>filealloc\<close> takes the lowest file structure without references, and fails exactly when
  all \<open>NFILE\<close> structures are in use; every success uses one of them up.
\<close>

theorem filealloc_lowest:
  assumes "nolocks s"
  shows "returns (filealloc s) (\<lambda>r t. case r of
      None \<Rightarrow> t = s \<and> (\<forall>f<NFILE. f_ref (ftable s f) \<noteq> 0)
    | Some f \<Rightarrow> f < NFILE \<and> f_ref (ftable s f) = 0 \<and> (\<forall>g<f. f_ref (ftable s g) \<noteq> 0) \<and>
        t = s\<lparr>ftable := (ftable s)(f := (ftable s f)\<lparr>f_ref := 1\<rparr>)\<rparr> \<and>
        Suc (card {g. g < NFILE \<and> f_ref (ftable t g) = 0}) = card {g. g < NFILE \<and> f_ref (ftable s g) = 0})"
proof (cases "ft.first (ftable s)")
  case None
  then have "\<forall>f<NFILE. f_ref (ftable s f) \<noteq> 0" by (auto simp: ft.first_def find_None_iff)
  then show ?thesis using None assms by (simp add: filealloc_eq returns_def)
next
  case (Some f)
  then show ?thesis using assms ft.first_Some [of "ftable s" f] ft.n_unused_take [OF Some]
    by (simp add: filealloc_eq returns_def ft.n_unused_def del: fun_upd_apply)
qed

theorem filealloc_lowest_witness:
  "returns (filealloc (booted zero_disk)) (\<lambda>r t. case r of
      None \<Rightarrow> t = booted zero_disk \<and> (\<forall>f<NFILE. f_ref (ftable (booted zero_disk) f) \<noteq> 0)
    | Some f \<Rightarrow> f < NFILE \<and> f_ref (ftable (booted zero_disk) f) = 0 \<and> (\<forall>g<f. f_ref (ftable (booted zero_disk) g) \<noteq> 0) \<and>
        t = (booted zero_disk)\<lparr>ftable := (ftable (booted zero_disk))(f := (ftable (booted zero_disk) f)\<lparr>f_ref := 1\<rparr>)\<rparr> \<and>
        Suc (card {g. g < NFILE \<and> f_ref (ftable t g) = 0}) = card {g. g < NFILE \<and> f_ref (ftable (booted zero_disk) g) = 0})"
  by (rule filealloc_lowest) simp

section \<open>Opening and closing a pipe\<close>

lemma pipealloc_eq:
  assumes nl: "nolocks s" and f0: "ft.first (ftable s) = Some f0"
    and f1: "ft.first ((ftable s)(f0 := (ftable s f0)\<lparr>f_ref := 1\<rparr>)) = Some f1"
    and fp: "free_pages s (v # vs)"
  shows "pipealloc s = Done (Some (f0, f1)) (s\<lparr>freelist := get32 (phys s) (unat v),
      pipes := (pipes s)(v := (pipes s v)\<lparr>pp_readopen := True, pp_writeopen := True, pp_nwrite := 0, pp_nread := 0\<rparr>),
      ftable := (ftable s)(f0 := (ftable s f0)\<lparr>f_ref := 1, f_type := FD_PIPE, f_readable := True, f_writable := False, f_pipe := v\<rparr>,
        f1 := (ftable s f1)\<lparr>f_ref := 1, f_type := FD_PIPE, f_readable := False, f_writable := True, f_pipe := v\<rparr>)\<rparr>)"
proof -
  have v: "freelist s = v" "v \<noteq> 0" using fp by (auto simp: free_pages_def)
  have ne: "f0 < f1" by (rule ft.next_first [OF f0 f1])
  show ?thesis
    using nl f0 f1 v ne
    by (simp add: pipealloc_def exec initlk_clear fun_upd_twist)
qed

lemma pipeclose_first:
  assumes "nolocks s" and "pp_writeopen (pipes s p)"
  shows "pipeclose p False s = Done () (s\<lparr>pipes := (pipes s)(p := (pipes s p)\<lparr>pp_readopen := False\<rparr>),
    ptable := wake (ChPipeW (unat p)) (ptable s)\<rparr>)"
  using assms by (simp add: pipeclose_def exec)

lemma pipeclose_second:
  assumes "nolocks s" and "\<not> pp_readopen (pipes s p)" and "page s p"
  shows "pipeclose p True s = Done () (freed p (s\<lparr>pipes := (pipes s)(p := (pipes s p)\<lparr>pp_writeopen := False\<rparr>),
    ptable := wake (ChPipeR (unat p)) (ptable s)\<rparr>))"
proof -
  have "page (s\<lparr>pipes := (pipes s)(p := (pipes s p)\<lparr>pp_writeopen := False\<rparr>),
      ptable := wake (ChPipeR (unat p)) (ptable s)\<rparr>) p"
    using assms(3) by (simp add: page_def)
  then show ?thesis using assms by (simp add: pipeclose_def exec freed_def)
qed

text \<open>
  Opening a pipe takes one page and the two lowest free file structures; closing both of its
  ends gives the page back and frees both structures, so nothing leaks.
\<close>

theorem pipe_open_close:
  assumes nl: "nolocks s" and fp: "free_pages s (v # vs)"
    and two: "f0 < f1" "f1 < NFILE" "f_ref (ftable s f0) = 0" "f_ref (ftable s f1) = 0"
      "\<forall>g<f1. g \<noteq> f0 \<longrightarrow> f_ref (ftable s g) \<noteq> 0"
  shows "returns (bindk pipealloc (\<lambda>r. case r of None \<Rightarrow> ret () | Some (a, b) \<Rightarrow>
      bindk (fileclose a) (\<lambda>_. fileclose b)) s)
    (\<lambda>_ t. free_pages t (v # vs) \<and> (\<forall>g. f_ref (ftable t g) = f_ref (ftable s g)))"
proof -
  let ?ft = "(ftable s)(f0 := (ftable s f0)\<lparr>f_ref := 1\<rparr>)"
  have f0: "ft.first (ftable s) = Some f0" using two by (auto simp: ft.first_Some)
  have f1: "ft.first ?ft = Some f1" using two by (auto simp: ft.first_Some)
  have v: "v \<noteq> 0" "page s v" "v \<notin> set vs" using fp by (auto simp: free_pages_def)
  let ?s1 = "s\<lparr>freelist := get32 (phys s) (unat v),
      pipes := (pipes s)(v := (pipes s v)\<lparr>pp_readopen := True, pp_writeopen := True, pp_nwrite := 0, pp_nread := 0\<rparr>),
      ftable := (ftable s)(f0 := (ftable s f0)\<lparr>f_ref := 1, f_type := FD_PIPE, f_readable := True, f_writable := False, f_pipe := v\<rparr>,
        f1 := (ftable s f1)\<lparr>f_ref := 1, f_type := FD_PIPE, f_readable := False, f_writable := True, f_pipe := v\<rparr>)\<rparr>"
  have a: "pipealloc s = Done (Some (f0, f1)) ?s1" by (rule pipealloc_eq [OF nl f0 f1 fp])
  let ?c1 = "?s1\<lparr>ftable := (ftable ?s1)(f0 := (ftable ?s1 f0)\<lparr>f_ref := 0, f_type := FD_NONE\<rparr>)\<rparr>"
  let ?s2 = "?c1\<lparr>pipes := (pipes ?c1)(v := (pipes ?c1 v)\<lparr>pp_readopen := False\<rparr>),
    ptable := wake (ChPipeW (unat v)) (ptable ?c1)\<rparr>"
  have c1: "fileclose f0 ?s1 = Done () ?s2"
    using nl two(1) by (subst fileclose_last) (simp_all add: pipeclose_first)
  let ?c2 = "?s2\<lparr>ftable := (ftable ?s2)(f1 := (ftable ?s2 f1)\<lparr>f_ref := 0, f_type := FD_NONE\<rparr>)\<rparr>"
  let ?c3 = "?c2\<lparr>pipes := (pipes ?c2)(v := (pipes ?c2 v)\<lparr>pp_writeopen := False\<rparr>),
    ptable := wake (ChPipeR (unat v)) (ptable ?c2)\<rparr>"
  have pg: "page ?c2 v" using v(2) by (simp add: page_def)
  have c2: "fileclose f1 ?s2 = Done () (freed v ?c3)"
    using nl two(1) by (subst fileclose_last, simp_all) (subst pipeclose_second, use nl pg in simp_all)
  have "free_pages ?c3 vs" using fp v by (auto simp: free_pages_def page_def)
  then have "free_pages (freed v ?c3) (v # vs)"
    by (rule freed_pages) (use v in \<open>simp_all add: page_def\<close>)
  moreover have "f_ref (ftable (freed v ?c3) g) = f_ref (ftable s g)" for g
    using two by (simp add: freed_def)
  ultimately show ?thesis using a c1 c2 by (simp add: bindk_def returns_def)
qed

definition one_page :: kern where
  "one_page = (booted zero_disk)\<lparr>freelist := 0x200000\<rparr>"

lemma one_page_ok: "nolocks one_page" "free_pages one_page [0x200000]" "ftable one_page = (\<lambda>_. file0)"
  by (simp_all add: one_page_def free_pages_def page_def PGSIZE_def PHYSTOP_def get32_def)

theorem pipe_open_close_witness:
  "returns (bindk pipealloc (\<lambda>r. case r of None \<Rightarrow> ret () | Some (a, b) \<Rightarrow>
      bindk (fileclose a) (\<lambda>_. fileclose b)) one_page)
    (\<lambda>_ t. free_pages t [0x200000] \<and> (\<forall>g. f_ref (ftable t g) = 0))"
  using pipe_open_close [of one_page "0x200000" "[]" 0 1] one_page_ok
  by (simp add: file0_def NFILE_def less_Suc_eq)

text \<open>
  Duplicating an open file and closing the duplicate leaves the kernel state unchanged.
\<close>

theorem dup_then_close:
  assumes "nolocks s" and "1 \<le> f_ref (ftable s f)"
  shows "bindk (filedup f) fileclose s = Done () s"
proof -
  have "(ftable s)(f := (ftable s f)\<lparr>f_ref := f_ref (ftable s f)\<rparr>) = ftable s" by auto
  then show ?thesis using assms by (simp add: bindk_def filedup_eq fileclose_shared)
qed

theorem dup_then_close_witness:
  "bindk (filedup 2) fileclose ((booted zero_disk)\<lparr>ftable := (\<lambda>_. file0\<lparr>f_ref := 1\<rparr>)\<rparr>) =
     Done () ((booted zero_disk)\<lparr>ftable := (\<lambda>_. file0\<lparr>f_ref := 1\<rparr>)\<rparr>)"
  by (rule dup_then_close) (simp_all add: file0_def)

section \<open>System call arguments\<close>

lemma scan_nul_Some:
  "scan_nul m a k = Some n \<longleftrightarrow> n < k \<and> m (a + n) = 0 \<and> (\<forall>i<n. m (a + i) \<noteq> 0)"
proof (induction k arbitrary: a n)
  case (Suc k)
  show ?case
  proof (cases n)
    case 0
    then show ?thesis using Suc by (auto split: option.splits)
  next
    case (Suc j)
    have "(\<forall>i<Suc j. m (a + i) \<noteq> 0) \<longleftrightarrow> m a \<noteq> 0 \<and> (\<forall>i<j. m (Suc (a + i)) \<noteq> 0)"
      by (auto simp: less_Suc_eq_0_disj)
    then show ?thesis using Suc Suc.IH [of "Suc a" j] by auto
  qed
qed simp

text \<open>
  A string argument accepted by \<open>argstr\<close> lies, with its terminating NUL, inside the
  process's memory, and is the sequence of bytes up to the first NUL.
\<close>

theorem argstr_in_bounds:
  assumes me: "curproc s = Some p" and ok: "argstr n s = Done (Some bs) t"
  shows "t = s \<and> (\<exists>a. get32 (umem s) (unat (tf_esp (p_tf (ptable s p)) + 4 + 4 * of_nat n)) = a \<and>
    unat a + length bs < unat (p_sz (ptable s p)) \<and> umem s (unat a + length bs) = 0 \<and>
    (\<forall>i < length bs. bs ! i = umem s (unat a + i) \<and> bs ! i \<noteq> 0))"
proof -
  let ?q = "ptable s p" let ?e = "tf_esp (p_tf ?q) + 4 + 4 * of_nat n"
  let ?a = "get32 (umem s) (unat ?e)"
  have "\<not> p_sz ?q \<le> ?a" and t: "t = s"
    and l: "map_option (\<lambda>len. map (\<lambda>i. umem s (unat ?a + i)) [0..<len])
      (scan_nul (umem s) (unat ?a) (unat (p_sz ?q) - unat ?a)) = Some bs"
    using ok me by (auto simp: argstr_def argint_def fetchint_def fetchstr_def exec split: if_splits)
  then obtain len where "scan_nul (umem s) (unat ?a) (unat (p_sz ?q) - unat ?a) = Some len"
    and bs: "bs = map (\<lambda>i. umem s (unat ?a + i)) [0..<len]" by auto
  then have "len < unat (p_sz ?q) - unat ?a" "umem s (unat ?a + len) = 0" "\<forall>i<len. umem s (unat ?a + i) \<noteq> 0"
    by (auto simp: scan_nul_Some)
  then show ?thesis using t bs by (intro conjI exI [of _ ?a]) auto
qed

definition with_arg :: kern where
  "with_arg = (running (booted zero_disk))\<lparr>umem := (\<lambda>_. 0)(4 := 100, 100 := 47, 101 := 97)\<rparr>"

lemma with_arg_argstr: "argstr 0 with_arg = Done (Some [47, 97]) with_arg"
proof -
  have "scan_nul (umem with_arg) 100 (4096 - 100) = Some 2"
    by (subst scan_nul_Some) (auto simp: with_arg_def less_2_cases_iff)
  then show ?thesis
    by (simp add: argstr_def argint_def fetchint_def fetchstr_def exec with_arg_def running_def get32_def
        proc0_def tf0_def upt_rec)
qed

theorem argstr_in_bounds_witness:
  "with_arg = with_arg \<and> (\<exists>a. get32 (umem with_arg) (unat (tf_esp (p_tf (ptable with_arg 0)) + 4 + 4 * of_nat 0)) = a \<and>
    unat a + length [47, 97 :: u8] < unat (p_sz (ptable with_arg 0)) \<and> umem with_arg (unat a + length [47, 97 :: u8]) = 0 \<and>
    (\<forall>i < length [47, 97 :: u8]. [47, 97] ! i = umem with_arg (unat a + i) \<and> [47, 97 :: u8] ! i \<noteq> 0))"
  by (rule argstr_in_bounds) (simp_all add: with_arg_argstr, simp add: with_arg_def)

text \<open>
  \<open>argptr\<close> adds the size as an unsigned number: an accepted pointer with a size below
  \<open>2 ^ 31\<close> denotes memory of the process as long as the process is smaller than that, but a
  negative count passes the check for every pointer at or above its absolute value.
\<close>

theorem argptr_check:
  assumes me: "curproc s = Some p" and arg: "argint n s = Done (Some i) s"
    and small: "unat (p_sz (ptable s p)) < 2 ^ 31"
  shows "(unat sz < 2 ^ 31 \<longrightarrow>
      argptr n sz s = Done (if unat i < unat (p_sz (ptable s p)) \<and> unat i + unat sz \<le> unat (p_sz (ptable s p))
        then Some i else None) s) \<and>
    (unat i < unat (p_sz (ptable s p)) \<and> sint sz < 0 \<and> - sint sz \<le> int (unat i) \<longrightarrow>
      argptr n sz s = Done (Some i) s)"
proof -
  have eq: "argptr n sz s = Done (if p_sz (ptable s p) \<le> i \<or> p_sz (ptable s p) < i + sz then None else Some i) s"
    using me arg by (simp add: argptr_def bindk_def myslot_eq ret_def)
  have 1: "unat (i + sz) = unat i + unat sz" if "unat i < unat (p_sz (ptable s p))" "unat sz < 2 ^ 31"
    using that small by (simp add: unat_word_ariths)
  have 2: "unat (i + sz) \<le> unat i" if "unat i < unat (p_sz (ptable s p))" "sint sz < 0" "- sint sz \<le> int (unat i)"
  proof -
    have "i + sz = word_of_int (uint i + sint sz)" by simp
    then have "uint (i + sz) = (uint i + sint sz) mod 2 ^ 32" by (simp only: uint_word_of_int) simp
    moreover have "uint i < 2 ^ 31"
    proof -
      have "unat i < 2 ^ 31" using that(1) small by (rule less_trans)
      then have "int (unat i) < int (2 ^ 31)" by (simp only: of_nat_less_iff)
      then show ?thesis by (simp only: uint_nat of_nat_power of_nat_numeral)
    qed
    moreover have "- sint sz \<le> uint i" using that(3) by (simp only: uint_nat)
    ultimately have "uint (i + sz) \<le> uint i" using that(2) by simp
    then have "int (unat (i + sz)) \<le> int (unat i)" by (simp only: uint_nat)
    then show ?thesis by linarith
  qed
  have A: "argptr n sz s = Done (if unat i < unat (p_sz (ptable s p)) \<and> unat i + unat sz \<le> unat (p_sz (ptable s p))
        then Some i else None) s" if "unat sz < 2 ^ 31"
  proof (cases "unat i < unat (p_sz (ptable s p))")
    case True
    then show ?thesis unfolding eq using 1 [OF True that] by (simp add: word_le_nat_alt word_less_nat_alt not_le not_less)
  next
    case False
    then show ?thesis unfolding eq by (simp add: word_le_nat_alt)
  qed
  have B: "argptr n sz s = Done (Some i) s"
    if "unat i < unat (p_sz (ptable s p)) \<and> sint sz < 0 \<and> - sint sz \<le> int (unat i)"
  proof -
    from that have i: "unat i < unat (p_sz (ptable s p))" and z: "sint sz < 0" "- sint sz \<le> int (unat i)" by blast+
    have "unat (i + sz) < unat (p_sz (ptable s p))" using 2 [OF i z] i by (rule le_less_trans)
    then show ?thesis unfolding eq using i by (simp add: word_le_nat_alt word_less_nat_alt)
  qed
  show ?thesis using A B by (intro conjI impI)
qed

lemma with_arg_argint: "argint 0 with_arg = Done (Some 100) with_arg"
  by (simp add: argint_def fetchint_def exec with_arg_def running_def get32_def proc0_def tf0_def)

theorem argptr_check_witness:
  "argptr 0 16 with_arg = Done (Some 100) with_arg \<and> argptr 0 4000 with_arg = Done None with_arg \<and>
   argptr 0 (- 100) with_arg = Done (Some 100) with_arg"
proof -
  have c: "curproc with_arg = Some 0" and z: "p_sz (ptable with_arg 0) = 4096"
    by (simp_all add: with_arg_def running_def proc0_def)
  have small: "unat (p_sz (ptable with_arg 0)) < 2 ^ 31" by (simp add: z)
  show ?thesis
    using argptr_check [OF c with_arg_argint small, of 16] argptr_check [OF c with_arg_argint small, of 4000]
      argptr_check [OF c with_arg_argint small, of "- 100"]
    by (simp add: z)
qed

end
