(* ===== verification/Proc_Props.thy ===== *)
theory Proc_Props
  imports Boot
begin

text \<open>
  Properties of the process table and of the lottery scheduler: process numbers are never reused,
  which process a drawing selects, what reservations and \<open>kill\<close> do to the table, and that a
  sleeping process is found by the next \<open>wakeup\<close>.
\<close>

section \<open>The drawing\<close>

text \<open>Runnable processes with a reservation, and the tickets of those among \<open>ps\<close>.\<close>

definition reserved :: "(nat \<Rightarrow> proc) \<Rightarrow> nat \<Rightarrow> bool" where
  "reserved t p = (p_state (t p) = RUNNABLE \<and> 0 < p_rpercent (t p))"

definition bidding :: "(nat \<Rightarrow> proc) \<Rightarrow> nat \<Rightarrow> bool" where
  "bidding t p = (p_state (t p) = RUNNABLE \<and> p_rpercent (t p) = 0)"

definition tickets :: "(nat \<Rightarrow> proc) \<Rightarrow> nat list \<Rightarrow> int" where
  "tickets t ps = (\<Sum>p \<leftarrow> filter (reserved t) ps. p_rpercent (t p))"

text \<open>The highest bid, at least 0.\<close>

definition top_bid :: "(nat \<Rightarrow> proc) \<Rightarrow> nat list \<Rightarrow> int" where
  "top_bid t ps = fold max (map (\<lambda>p. p_spotbid (t p)) (filter (bidding t) ps)) 0"

lemma tickets_simps [simp]:
  "tickets t [] = 0"
  "tickets t (p # ps) = (if reserved t p then p_rpercent (t p) + tickets t ps else tickets t ps)"
  "tickets t (ps @ qs) = tickets t ps + tickets t qs"
  by (simp_all add: tickets_def)

lemma tickets_nonneg [simp]: "0 \<le> tickets t ps"
  by (induction ps) (auto simp: reserved_def)

lemma count_procs_eq:
  "count_procs t ps (a, b, m) =
     (a + int (length (filter (reserved t) ps)), b + int (length (filter (bidding t) ps)),
      fold max (map (\<lambda>p. p_spotbid (t p)) (filter (bidding t) ps)) m)"
  by (induction t ps "(a, b, m)" arbitrary: a b m rule: count_procs.induct)
    (auto simp: reserved_def bidding_def max_def)

lemma pick_eq:
  "pick t r = lottery t r (int (length (filter (bidding t) [0..<NPROC]))) (top_bid t [0..<NPROC])
     (int (length (filter (reserved t) [0..<NPROC]))) 0 [0..<NPROC]"
  by (simp add: pick_def count_procs_eq top_bid_def)

lemma split_Cons: "(\<exists>xs ys. q # ps = xs @ p # ys \<and> P xs ys) \<longleftrightarrow>
    (p = q \<and> P [] ps) \<or> (\<exists>xs ys. ps = xs @ p # ys \<and> P (q # xs) ys)"
  by (simp add: Cons_eq_append_conv) blast

text \<open>
  \<open>drawn t r k ps p\<close>: the number \<open>r\<close> falls on the tickets of \<open>p\<close>, when they are numbered in the order
  of the table from \<open>k\<close>.
\<close>

definition drawn :: "(nat \<Rightarrow> proc) \<Rightarrow> int \<Rightarrow> int \<Rightarrow> nat list \<Rightarrow> nat \<Rightarrow> bool" where
  "drawn t r k ps p = (\<exists>xs ys. ps = xs @ p # ys \<and> reserved t p \<and> k + tickets t xs \<le> r \<and>
     r < k + tickets t xs + p_rpercent (t p))"

lemma drawn_Nil [simp]: "\<not> drawn t r k [] p"
  by (simp add: drawn_def)

lemma drawn_Cons: "drawn t r k (q # ps) p \<longleftrightarrow>
    (p = q \<and> reserved t q \<and> k \<le> r \<and> r < k + p_rpercent (t q)) \<or> drawn t r (k + tickets t [q]) ps p"
  unfolding drawn_def split_Cons by (cases "reserved t q") (auto simp: add.assoc)

lemma lottery_Cons: "lottery t r nsp bid nrp k (p # ps) =
    (if reserved t p then
       if k + p_rpercent (t p) > r then Reserved p else lottery t r nsp bid (nrp - 1) (k + p_rpercent (t p)) ps
     else if p_state (t p) = RUNNABLE \<and> nrp = 0 \<and> nsp \<noteq> 0 \<and> k < r \<and> p_spotbid (t p) = bid then Spot p
     else lottery t r nsp bid nrp k ps)"
  by (simp add: reserved_def)

lemma drawn_le: "drawn t r k ps p \<Longrightarrow> k \<le> r"
proof -
  assume "drawn t r k ps p"
  then obtain xs where "k + tickets t xs \<le> r" by (auto simp: drawn_def)
  moreover have "0 \<le> tickets t xs" by simp
  ultimately show "k \<le> r" by linarith
qed

lemma drawn_reserved: "drawn t r k ps p \<Longrightarrow> p \<in> set ps \<and> reserved t p"
  by (auto simp: drawn_def)

lemma lottery_Reserved:
  "k \<le> r \<Longrightarrow> lottery t r nsp bid (int (length (filter (reserved t) ps))) k ps = Reserved p \<longleftrightarrow> drawn t r k ps p"
proof (induction ps arbitrary: k)
  case Nil
  then show ?case by simp
next
  case (Cons q ps)
  note [simp] = lottery_Cons drawn_Cons
  note [simp del] = lottery.simps
  show ?case
  proof (cases "reserved t q")
    case True
    note q = this
    show ?thesis
    proof (cases "k + p_rpercent (t q) > r")
      case True
      then have "\<not> drawn t r (k + tickets t [q]) ps p" using q drawn_le by fastforce
      then show ?thesis using q True Cons.prems by auto
    next
      case False
      then show ?thesis using q Cons by auto
    qed
  next
    case False
    show ?thesis
    proof (cases "filter (reserved t) ps = []")
      case True
      then have "\<not> drawn t r k ps p" using drawn_reserved by (fastforce simp: filter_empty_conv)
      then show ?thesis using False True Cons by auto
    next
      case f: False
      then show ?thesis using False Cons by auto
    qed
  qed
qed

text \<open>The part of the table behind the last process with a reservation.\<close>

fun behind :: "(nat \<Rightarrow> proc) \<Rightarrow> nat list \<Rightarrow> nat list" where
  "behind t [] = []"
| "behind t (p # ps) = (if list_ex (reserved t) (p # ps) then behind t ps else p # ps)"

lemma behind_none: "\<not> list_ex (reserved t) ps \<Longrightarrow> behind t ps = ps"
  by (induction ps) auto

lemma no_tickets: "\<not> list_ex (reserved t) ps \<Longrightarrow> tickets t ps = 0 \<and> filter (reserved t) ps = []"
  by (induction ps) auto

lemma some_left: "list_ex (reserved t) ps \<Longrightarrow> filter (reserved t) ps \<noteq> []"
  by (induction ps) auto

lemma lottery_Spot:
  assumes "\<And>q. 0 \<le> p_rpercent (t q)" and "nsp \<noteq> 0"
  shows "k \<le> r \<Longrightarrow> lottery t r nsp bid (int (length (filter (reserved t) ps))) k ps = Spot p \<longleftrightarrow>
    k + tickets t ps < r \<and> find (\<lambda>q. bidding t q \<and> p_spotbid (t q) = bid) (behind t ps) = Some p"
proof (induction ps arbitrary: k)
  case Nil
  then show ?case by simp
next
  case (Cons q ps)
  have b: "bidding t q \<longleftrightarrow> p_state (t q) = RUNNABLE \<and> \<not> reserved t q"
    using assms(1) [of q] by (auto simp: bidding_def reserved_def)
  have pos: "\<not> k + (p_rpercent (t q) + tickets t ps) < r" if "r < k + p_rpercent (t q)"
    using that tickets_nonneg [of t ps] by linarith
  note [simp] = lottery_Cons
  note [simp del] = lottery.simps
  show ?case
  proof (cases "list_ex (reserved t) ps")
    case True
    then show ?thesis using Cons some_left [OF True] pos by (auto simp: add.assoc)
  next
    case False
    then show ?thesis using Cons no_tickets [OF False] behind_none [OF False] assms(2) b pos
      by (auto simp: add.assoc)
  qed
qed

lemma drawn_upt:
  "drawn t r 0 [0..<n] p \<longleftrightarrow> p < n \<and> reserved t p \<and> tickets t [0..<p] \<le> r \<and> r < tickets t [0..<Suc p]"
proof
  assume "drawn t r 0 [0..<n] p"
  then obtain xs ys where s: "[0..<n] = xs @ p # ys" and d: "reserved t p" "tickets t xs \<le> r" "r < tickets t xs + p_rpercent (t p)"
    by (auto simp: drawn_def)
  have "length xs < n" using s by (metis length_upt add_diff_cancel_right' diff_zero length_append less_add_Suc1 list.size(4) add.commute add_Suc_right)
  moreover have "p = length xs" using s calculation by (metis nth_append_length nth_upt plus_nat.add_0)
  moreover have "xs = [0..<length xs]" using s calculation(1)
    by (metis append_eq_conv_conj less_imp_le take_upt plus_nat.add_0)
  ultimately show "p < n \<and> reserved t p \<and> tickets t [0..<p] \<le> r \<and> r < tickets t [0..<Suc p]"
    using d by simp
next
  assume a: "p < n \<and> reserved t p \<and> tickets t [0..<p] \<le> r \<and> r < tickets t [0..<Suc p]"
  then have "[0..<n] = [0..<p] @ p # [Suc p..<n]"
    by (metis less_imp_le upt_add_eq_append upt_conv_Cons le_add_diff_inverse zero_le)
  then show "drawn t r 0 [0..<n] p" using a unfolding drawn_def by (intro exI [of _ "[0..<p]"] exI) auto
qed

text \<open>
  C13. The drawing gives every runnable process with a reservation the numbers of its tickets: process
  \<open>p\<close> is selected exactly when the number drawn is at least the reservations of the runnable processes
  before it in the table and below the same sum with its own reservation added.
\<close>

theorem lottery_reserved:
  assumes "0 \<le> r"
  shows "pick t r = Reserved p \<longleftrightarrow>
    p < NPROC \<and> reserved t p \<and> tickets t [0..<p] \<le> r \<and> r < tickets t [0..<Suc p]"
  unfolding pick_eq using assms by (simp add: lottery_Reserved drawn_upt del: upt_Suc)

text \<open>Process 2 has a reservation of 30, process 3 bids 500, process 5 bids 900.\<close>

definition market :: "nat \<Rightarrow> proc" where
  "market = (\<lambda>p. if p = 2 then proc0\<lparr>p_state := RUNNABLE, p_rpercent := 30\<rparr>
     else if p = 3 then proc0\<lparr>p_state := RUNNABLE, p_spotbid := 500\<rparr>
     else if p = 5 then proc0\<lparr>p_state := RUNNABLE, p_spotbid := 900\<rparr> else proc0)"

lemma upt_NPROC: "\<exists>ps. [0..<NPROC] = 0 # Suc 0 # 2 # 3 # 4 # 5 # ps \<and> (\<forall>p \<in> set ps. 6 \<le> p)"
  by (simp add: NPROC_def upt_rec)

lemma market_rest: "\<forall>p \<in> set ps. 6 \<le> p \<Longrightarrow> filter (reserved market) ps = [] \<and> filter (bidding market) ps = []"
  by (induction ps) (auto simp: market_def reserved_def bidding_def proc0_def)

theorem lottery_reserved_witness: "pick market 29 = Reserved 2 \<and> pick market 30 \<noteq> Reserved 2"
  using lottery_reserved [of 29 market 2] lottery_reserved [of 30 market 2]
  by (simp add: NPROC_def market_def reserved_def proc0_def upt_rec)

text \<open>
  C14. The spot market: process \<open>p\<close> is selected without a reservation exactly when the number drawn lies
  above all tickets (not on the first number behind them) and \<open>p\<close> is the first process with the highest
  bid in the part of the table behind the last runnable process with a reservation. A bidder in front
  of a process with a reservation is passed over, however high its bid.
\<close>

theorem lottery_spot:
  assumes "0 \<le> r" and "\<And>q. 0 \<le> p_rpercent (t q)"
  shows "pick t r = Spot p \<longleftrightarrow> tickets t [0..<NPROC] < r \<and>
    find (\<lambda>q. bidding t q \<and> p_spotbid (t q) = top_bid t [0..<NPROC]) (behind t [0..<NPROC]) = Some p"
proof (cases "filter (bidding t) [0..<NPROC] = []")
  case True
  have none: "lottery t r 0 b a k ps \<noteq> Spot p" for a b k ps
    by (induction ps arbitrary: a k) auto
  have sub: "set (behind t ps) \<subseteq> set ps" for ps by (induction ps) auto
  then have "find (\<lambda>q. bidding t q \<and> p_spotbid (t q) = top_bid t [0..<NPROC]) (behind t [0..<NPROC]) = None"
    using True by (force simp: find_None_iff filter_empty_conv)
  then show ?thesis using True none by (simp add: pick_eq)
next
  case False
  then show ?thesis using lottery_Spot [of t _ 0 r] assms by (simp add: pick_eq)
qed

theorem lottery_spot_witness: "pick market 31 = Spot 5 \<and> pick market 30 \<noteq> Spot 5"
proof -
  obtain ps where u: "[0..<NPROC] = 0 # Suc 0 # 2 # 3 # 4 # 5 # ps" and p: "\<forall>p \<in> set ps. 6 \<le> p"
    using upt_NPROC by blast
  note r = market_rest [OF p]
  then have l: "\<not> list_ex (reserved market) ps" by (simp add: filter_empty_conv list_ex_iff)
  have b: "\<not> reserved market 0" "\<not> reserved market (Suc 0)" "reserved market 2" "\<not> reserved market 3"
    "\<not> reserved market 4" "\<not> reserved market 5" "\<not> bidding market 0" "\<not> bidding market (Suc 0)" "\<not> bidding market 2"
    "bidding market 3" "\<not> bidding market 4" "bidding market 5"
    by (simp_all add: market_def reserved_def bidding_def proc0_def)
  have "tickets market [0..<NPROC] = 30" using r by (simp add: u b tickets_def) (simp add: market_def)
  moreover have "top_bid market [0..<NPROC] = 900" using r by (simp add: u b top_bid_def) (simp add: market_def)
  moreover have "find (\<lambda>q. bidding market q \<and> p_spotbid (market q) = 900) (behind market [0..<NPROC]) = Some 5"
    using l by (simp add: u b) (simp add: market_def)
  moreover have "0 \<le> p_rpercent (market q)" for q by (simp add: market_def proc0_def)
  ultimately show ?thesis using lottery_spot [of 31 market 5] lottery_spot [of 30 market 5] by simp
qed

section \<open>Process numbers\<close>

text \<open>Every used entry has a number that was handed out, and no two used entries share one.\<close>

definition pids_ok :: "kern \<Rightarrow> bool" where
  "pids_ok s = ((\<forall>p < NPROC. p_state (ptable s p) \<noteq> UNUSED \<longrightarrow> 0 < p_pid (ptable s p) \<and> p_pid (ptable s p) < nextpid s) \<and>
     inj_on (\<lambda>p. p_pid (ptable s p)) {p. p < NPROC \<and> p_state (ptable s p) \<noteq> UNUSED})"

lemma pids_ok_take:
  assumes ok: "pids_ok s" and n: "0 < nextpid s" and p: "p_state (ptable s p) = UNUSED" and q: "p_pid q = nextpid s"
  shows "pids_ok (s\<lparr>ptable := (ptable s)(p := q), nextpid := nextpid s + 1, freelist := f\<rparr>)" (is "pids_ok ?t")
  unfolding pids_ok_def
proof
  show "\<forall>r < NPROC. p_state (ptable ?t r) \<noteq> UNUSED \<longrightarrow> 0 < p_pid (ptable ?t r) \<and> p_pid (ptable ?t r) < nextpid ?t"
    using ok n q by (force simp: pids_ok_def)
  have lt: "p_pid (ptable s r) < nextpid s" if "r < NPROC" "p_state (ptable s r) \<noteq> UNUSED" for r
    using ok that by (auto simp: pids_ok_def)
  show "inj_on (\<lambda>p. p_pid (ptable ?t p)) {p. p < NPROC \<and> p_state (ptable ?t p) \<noteq> UNUSED}"
  proof (rule inj_onI, clarify)
    fix a b assume h: "p_pid (ptable ?t a) = p_pid (ptable ?t b)" "a < NPROC" "p_state (ptable ?t a) \<noteq> UNUSED"
      "b < NPROC" "p_state (ptable ?t b) \<noteq> UNUSED"
    consider "a = p" "b = p" | "a = p" "b \<noteq> p" | "a \<noteq> p" "b = p" | "a \<noteq> p" "b \<noteq> p" by blast
    then show "a = b"
    proof cases
      case 1 then show ?thesis by simp
    next
      case 2 then show ?thesis using h q lt [of b] by simp
    next
      case 3 then show ?thesis using h q lt [of a] by simp
    next
      case 4
      then have "a \<in> {p. p < NPROC \<and> p_state (ptable s p) \<noteq> UNUSED}" "b \<in> {p. p < NPROC \<and> p_state (ptable s p) \<noteq> UNUSED}"
        "p_pid (ptable s a) = p_pid (ptable s b)" using h by auto
      then show ?thesis using ok unfolding pids_ok_def by (blast dest: inj_onD)
    qed
  qed
qed



section \<open>kill\<close>

definition killed :: "proc \<Rightarrow> proc" where
  "killed q = q\<lparr>p_killed := True, p_state := (if p_state q = SLEEPING then RUNNABLE else p_state q)\<rparr>"

lemma kill_search:
  assumes "unlocked LkPtable s"
  shows "search (\<lambda>p.
       bindk (getk (\<lambda>s. ptable s p)) (\<lambda>q.
       if p_pid q = pid then
         bindk (upd_proc p (\<lambda>q. q\<lparr>p_killed := True\<rparr>)) (\<lambda>_.
         bindk (whenk (p_state q = SLEEPING) (upd_proc p (\<lambda>q. q\<lparr>p_state := RUNNABLE\<rparr>))) (\<lambda>_.
         bindk (rel LkPtable) (\<lambda>_. ret (Some 0))))
       else ret None)) ps (s\<lparr>lockst := lk_take (mycpu s) LkPtable (lockst s)\<rparr>) =
    (case find (\<lambda>p. p_pid (ptable s p) = pid) ps of
       None \<Rightarrow> Done None (s\<lparr>lockst := lk_take (mycpu s) LkPtable (lockst s)\<rparr>)
     | Some p \<Rightarrow> Done (Some (0::int)) (s\<lparr>ptable := (ptable s)(p := killed (ptable s p))\<rparr>))"
  using assms
proof (induction ps)
  case Nil
  then show ?case by (simp add: exec)
next
  case (Cons p ps)
  then show ?case
    by (cases "p_pid (ptable s p) = pid"; cases "p_state (ptable s p) = SLEEPING") (simp_all add: exec killed_def)
qed

lemma kill_eq:
  assumes "nolocks s"
  shows "kill pid s =
    (case find (\<lambda>p. p_pid (ptable s p) = pid) [0..<NPROC] of None \<Rightarrow> Done (- 1) s
     | Some p \<Rightarrow> Done 0 (s\<lparr>ptable := (ptable s)(p := killed (ptable s p))\<rparr>))"
  unfolding kill_def using assms by (simp add: exec kill_search split: option.split)

lemma find_first:
  assumes "p < n" and "P p" and "\<And>q. q < p \<Longrightarrow> \<not> P q" shows "find P [0..<n] = Some (p :: nat)"
  unfolding find_Some_iff using assms by (intro exI [of _ p]) auto

text \<open>
  \<open>kill(0)\<close> succeeds while the process table has a never used or reaped entry in front, since
  such entries have number 0 and \<open>kill\<close> does not look at their state. It marks the entry as killed,
  the mark survives \<open>allocproc\<close>, and the next process created there is born killed.
\<close>

theorem kill_zero_poisons:
  assumes nl: "nolocks s" and ok: "pids_ok s" and p: "p < NPROC" "p_state (ptable s p) = UNUSED" "p_pid (ptable s p) = 0"
    and first: "\<And>q. q < p \<Longrightarrow> p_state (ptable s q) \<noteq> UNUSED" and mem: "freelist s \<noteq> 0"
  shows "returns (kill 0 s) (\<lambda>r t. r = 0 \<and>
    returns (allocproc t) (\<lambda>np u. np = Some p \<and> p_state (ptable u p) = EMBRYO \<and> p_killed (ptable u p)))"
proof -
  have "p_pid (ptable s q) \<noteq> 0" if "q < p" for q
    using ok first [OF that] p(1) that unfolding pids_ok_def by (metis less_trans order_less_irrefl)
  then have f: "find (\<lambda>q. p_pid (ptable s q) = 0) [0..<NPROC] = Some p" using p by (intro find_first) auto
  let ?t = "s\<lparr>ptable := (ptable s)(p := killed (ptable s p))\<rparr>"
  have k: "kill 0 s = Done 0 ?t" using f nl by (simp add: kill_eq)
  have "pt.first (ptable ?t) = Some p" using p first by (auto simp: pt.first_Some killed_def)
  then have "allocproc ?t = Done (Some p) (?t\<lparr>ptable := (ptable ?t)(p := embryo (nextpid ?t) (freelist ?t) (ptable ?t p)),
       nextpid := nextpid ?t + 1, freelist := get32 (phys ?t) (unat (freelist ?t))\<rparr>)"
    using allocproc_eq [of ?t p] nl mem by simp
  then show ?thesis unfolding k by (simp add: returns_def embryo_def killed_def)
qed

theorem kill_zero_poisons_witness:
  "returns (kill 0 ((booted (\<lambda>_ _ _. 0))\<lparr>freelist := 0x200000\<rparr>)) (\<lambda>r t. r = 0 \<and>
     returns (allocproc t) (\<lambda>np u. np = Some 0 \<and> p_state (ptable u 0) = EMBRYO \<and> p_killed (ptable u 0)))"
  by (rule kill_zero_poisons) (simp_all add: pids_ok_def proc0_def NPROC_def)

section \<open>Sleeping and waking\<close>



section \<open>Reservations\<close>

text \<open>
  \<open>reserve(n)\<close> refuses a share outside 0 to 100 without effect. Any other share is added to the
  system's total, and refused when the total then exceeds 200, but the total keeps the refused share:
  once one request has been refused for this reason every further one is, however small, even when no
  process has a reservation at all.
\<close>

theorem reserve_total:
  assumes arg: "argint 0 s = Done (Some n) s" and me: "curproc s = Some p" and tot: "unat (totalpercent s) + 100 < 2 ^ 31"
  shows "sys_reserve s =
    (if sint n < 0 \<or> 100 < sint n then Done (- 1) s
     else if 200 < unat (totalpercent s) + unat n then Done (- 1) (s\<lparr>totalpercent := totalpercent s + n\<rparr>)
     else Done (sint n) (s\<lparr>totalpercent := totalpercent s + n,
       ptable := (ptable s)(p := (ptable s p)\<lparr>p_spotbid := 0, p_rpercent := sint n\<rparr>)\<rparr>))"
proof (cases "sint n < 0 \<or> 100 < sint n")
  case True
  then show ?thesis using arg by (simp add: sys_reserve_def exec)
next
  case False
  then have "unat n < 2 ^ 31" by (intro sint_nonneg_small) simp
  then have n: "sint n = int (unat n)" by (rule sint_small)
  have l: "unat n \<le> 100" using False n by linarith
  then have "unat (n + totalpercent s) = unat n + unat (totalpercent s)"
    using tot by (simp add: unat_word_ariths)
  moreover have "sint (n + totalpercent s) = int (unat (n + totalpercent s))"
    using calculation tot l by (intro sint_small) simp
  ultimately have "sint (n + totalpercent s) = int (unat n + unat (totalpercent s))" by (simp only:)
  then have "200 < sint (n + totalpercent s) \<longleftrightarrow> 200 < unat (totalpercent s) + unat n" by linarith
  then show ?thesis using False arg me by (simp add: sys_reserve_def exec add.commute)
qed

text \<open>The total stands at 150, and process 3 asks for another 60 percent.\<close>

definition asking :: kern where
  "asking = (booted (\<lambda>_ _ _. 0))\<lparr>curproc := Some 3, totalpercent := 150, umem := put32 (\<lambda>_. 0) 8 60,
     ptable := (\<lambda>_. proc0)(3 := proc0\<lparr>p_sz := 4096, p_tf := tf0\<lparr>tf_esp := 4\<rparr>\<rparr>)\<rparr>"

theorem reserve_total_witness:
  "sys_reserve asking = Done (- 1) (asking\<lparr>totalpercent := 210\<rparr>)"
proof -
  have "argint 0 asking = Done (Some 60) asking"
    by (simp add: argint_def fetchint_def exec asking_def proc0_def tf0_def)
  moreover have "curproc asking = Some 3" "totalpercent asking = 150" by (simp_all add: asking_def)
  ultimately show ?thesis using reserve_total [of asking 60 3] by simp
qed

end
