(* ===== verification/Page_Tables.thy ===== *)
theory Page_Tables
  imports Boot
begin

text \<open>
  Page tables as a partial map from addresses to entries: \<open>lookup\<close> is what the hardware walks to,
  \<open>pt_ok\<close> the shape of a page directory whose tables share no page with each other, with the
  directory or with the free list. \<open>mappages\<close> is shown to implement the update of the map.
\<close>

definition pres :: "u32 \<Rightarrow> bool" where
  "pres e = (e AND PTE_P \<noteq> 0)"

definition pde :: "mem \<Rightarrow> u32 \<Rightarrow> nat \<Rightarrow> u32" where
  "pde m d i = get32 m (unat d + 4 * i)"

definition table :: "mem \<Rightarrow> u32 \<Rightarrow> nat \<Rightarrow> u32" where
  "table m d i = PTE_ADDR (pde m d i)"

definition pte :: "mem \<Rightarrow> u32 \<Rightarrow> nat \<Rightarrow> nat \<Rightarrow> u32" where
  "pte m d i j = get32 m (unat (table m d i) + 4 * j)"

definition lookup :: "mem \<Rightarrow> u32 \<Rightarrow> u32 \<Rightarrow> u32 option" where
  "lookup m d va =
     (let i = unat (PDX va); j = unat (PTX va) in
      if pres (pde m d i) \<and> pres (pte m d i j) then Some (pte m d i j) else None)"

definition pt_ok :: "mem \<Rightarrow> u32 \<Rightarrow> u32 set \<Rightarrow> bool" where
  "pt_ok m d F = (4096 dvd unat d \<and> d \<notin> F \<and> (\<forall>i < 1024. pres (pde m d i) \<longrightarrow>
     table m d i \<noteq> d \<and> table m d i \<notin> F \<and> (\<forall>j < 1024. pres (pde m d j) \<longrightarrow> table m d i = table m d j \<longrightarrow> i = j)))"

section \<open>Words\<close>

lemma PTE_ADDR_shift: "PTE_ADDR e = push_bit 12 (drop_bit 12 e)"
proof -
  have "PTE_ADDR e = e AND NOT (mask 12)" by (simp add: PTE_ADDR_def mask_eq_exp_minus_1)
  also have "\<dots> = push_bit 12 (drop_bit 12 e)" by (rule bit_word_eqI) (auto simp: bit_simps)
  finally show ?thesis .
qed

lemma PTE_ADDR_unat: "unat (PTE_ADDR e) = unat e div 4096 * 4096"
proof -
  have "unat (PTE_ADDR e) = take_bit 32 (push_bit 12 (drop_bit 12 (unat e)))"
    unfolding PTE_ADDR_shift by (simp only: unsigned_push_bit_eq unsigned_drop_bit_eq) (use unat_lt2p [of e] in \<open>simp add: take_bit_eq_mod\<close>)
  then show ?thesis using unat_lt2p [of e] by (simp add: push_bit_eq_mult drop_bit_eq_div take_bit_eq_mod)
qed

lemma PTE_ADDR_dvd [simp]: "4096 dvd unat (PTE_ADDR e)"
  by (simp add: PTE_ADDR_unat)

lemma PTE_ADDR_id: "4096 dvd unat g \<Longrightarrow> PTE_ADDR g = g"
  by (simp add: word_unat_eq_iff PTE_ADDR_unat)

lemma pres_bit: "pres e = bit e 0"
  by (simp add: pres_def PTE_P_def and_one_eq bit_0 not_mod_2_eq_0_eq_1 odd_iff_mod_2_eq_one)

lemma idx_unat:
  "unat (PDX va) = unat va div 2 ^ 22" "unat (PTX va) = unat va div 2 ^ 12 mod 1024"
  "unat (PDX va) < 1024" "unat (PTX va) < 1024"
proof -
  have "PDX va = take_bit 10 (drop_bit 22 va)" "PTX va = take_bit 10 (drop_bit 12 va)"
    by (simp_all only: PDX_def PTX_def take_bit_eq_mask) (simp_all add: mask_eq_exp_minus_1)
  then show p: "unat (PDX va) = unat va div 2 ^ 22" and t: "unat (PTX va) = unat va div 2 ^ 12 mod 1024"
    using unat_lt2p [of va]
    by (simp_all only: unsigned_take_bit_eq unsigned_drop_bit_eq) (simp_all add: drop_bit_eq_div take_bit_eq_mod)
  show "unat (PDX va) < 1024" "unat (PTX va) < 1024" using p t unat_lt2p [of va] by simp_all
qed

lemma same_page: "PDX va = PDX vb \<and> PTX va = PTX vb \<longleftrightarrow> PTE_ADDR va = PTE_ADDR vb"
proof -
  have d: "unat v div 2 ^ 22 = unat v div 4096 div 1024" "unat v div 2 ^ 12 = unat v div 4096" for v :: u32
    by (simp_all add: div_mult2_eq [symmetric])
  have "(x div 1024 = y div 1024 \<and> x mod 1024 = y mod 1024) = (x * 4096 = y * 4096)" for x y :: nat
    by (metis div_mult_mod_eq mult_right_cancel zero_neq_numeral)
  then show ?thesis unfolding word_unat_eq_iff PTE_ADDR_unat idx_unat d by blast
qed

lemma entry_addr:
  assumes "4096 dvd unat (d :: u32)" and "i < 1024" shows "unat (d + 4 * of_nat i) = unat d + 4 * i"
proof -
  obtain k where k: "unat d = 4096 * k" using assms(1) by (elim dvdE)
  then have "k < 1048576" using unat_lt2p [of d] by simp
  then have "unat d + 4 * i < 2 ^ 32" using k assms(2) by simp
  then show ?thesis using assms(2) by (simp add: unat_word_ariths)
qed

lemma tables_apart:
  assumes "4096 dvd unat (v :: u32)" and "4096 dvd unat w" and "v \<noteq> w"
  shows "unat v + 4096 \<le> unat w \<or> unat w + 4096 \<le> unat v"
proof -
  obtain a b where "unat v = 4096 * a" and "unat w = 4096 * b" using assms by (elim dvdE)
  moreover have "unat v \<noteq> unat w" using assms by (simp add: word_unat_eq_iff)
  ultimately show ?thesis by (auto simp: neq_iff)
qed

section \<open>Writing entries\<close>

lemma pde_cong:
  assumes "\<And>a. unat d \<le> a \<Longrightarrow> a < unat d + 4096 \<Longrightarrow> m' a = m a" and "i < 1024"
  shows "pde m' d i = pde m d i"
  unfolding pde_def by (rule get32_cong) (rule assms(1); use assms(2) in linarith)+

lemma pte_cong:
  assumes "pde m' d i = pde m d i" and "j < 1024"
    and "\<And>a. unat (table m d i) \<le> a \<Longrightarrow> a < unat (table m d i) + 4096 \<Longrightarrow> m' a = m a"
  shows "pte m' d i j = pte m d i j"
  unfolding pte_def table_def assms(1)
  by (rule get32_cong) (rule assms(3); use assms(2) in \<open>simp add: table_def\<close>)+

text \<open>Setting an entry of a table that is there.\<close>

lemma set_pte:
  assumes ok: "pt_ok m d F" and i: "i < 1024" "pres (pde m d i)" and j: "j < 1024"
    and m'_def: "m' = put32 m (unat (table m d i) + 4 * j) e"
  shows "pde m' d a = pde m d a \<or> 1024 \<le> a" and "pt_ok m' d F"
    and "a < 1024 \<Longrightarrow> b < 1024 \<Longrightarrow> pres (pde m d a) \<Longrightarrow> pte m' d a b = (if a = i \<and> b = j then e else pte m d a b)"
proof -
  have dd: "4096 dvd unat d" and td: "table m d i \<noteq> d" using ok i by (auto simp: pt_ok_def)
  have dt: "4096 dvd unat (table m d k)" for k by (simp add: table_def)
  have out: "m' x = m x" if "x < unat (table m d i) \<or> unat (table m d i) + 4096 \<le> x" for x
    unfolding m'_def using that j by (intro put32_other) linarith
  have p: "pde m' d a = pde m d a" if "a < 1024" for a
    by (rule pde_cong [OF out that]) (use tables_apart [OF dd dt, of i] td in auto)
  then show "pde m' d a = pde m d a \<or> 1024 \<le> a" by (meson not_le)
  have t: "table m' d a = table m d a" if "a < 1024" for a using p that by (simp add: table_def)
  show "pt_ok m' d F" using ok p t unfolding pt_ok_def by auto
  assume ab: "a < 1024" "b < 1024" "pres (pde m d a)"
  show "pte m' d a b = (if a = i \<and> b = j then e else pte m d a b)"
  proof (cases "a = i")
    case True
    have "get32 m' (unat (table m d i) + 4 * b) = get32 m (unat (table m d i) + 4 * b)" if "b \<noteq> j"
      unfolding m'_def by (rule get_put_disjoint(1)) (use that in linarith)
    moreover have "get32 m' (unat (table m d i) + 4 * j) = e" by (simp add: m'_def)
    ultimately show ?thesis using True t [OF i(1)] by (simp add: pte_def)
  next
    case False
    then have "table m d a \<noteq> table m d i" using ok ab i by (auto simp: pt_ok_def)
    then have "pte m' d a b = pte m d a b"
      by (intro pte_cong p ab out) (use tables_apart [OF dt [of a] dt [of i]] in linarith)
    then show ?thesis using False by simp
  qed
qed

text \<open>Adding an empty table.\<close>

lemma new_table:
  assumes ok: "pt_ok m d F" and g: "g \<in> F" "4096 dvd unat g" and i: "i < 1024" "\<not> pres (pde m d i)"
    and e: "pres e" "PTE_ADDR e = g"
    and m'_def: "m' = put32 (memset m (unat g) 0 4096) (unat d + 4 * i) e"
  shows "pt_ok m' d (F - {g})" and "pde m' d i = e"
    and "a < 1024 \<Longrightarrow> a \<noteq> i \<Longrightarrow> pde m' d a = pde m d a"
    and "a < 1024 \<Longrightarrow> b < 1024 \<Longrightarrow> pres (pde m d a) \<Longrightarrow> pte m' d a b = pte m d a b"
    and "b < 1024 \<Longrightarrow> pte m' d i b = 0"
    and "x < unat g \<or> unat g + 4096 \<le> x \<Longrightarrow> x < unat d \<or> unat d + 4096 \<le> x \<Longrightarrow> m' x = m x"
proof -
  have dd: "4096 dvd unat d" and gd: "g \<noteq> d" using ok g by (auto simp: pt_ok_def)
  have ap: "unat g + 4096 \<le> unat d \<or> unat d + 4096 \<le> unat g" by (rule tables_apart [OF g(2) dd gd])
  have dt: "4096 dvd unat (table m d k)" for k by (simp add: table_def)
  show out: "m' x = m x" if "x < unat g \<or> unat g + 4096 \<le> x" "x < unat d \<or> unat d + 4096 \<le> x" for x
    unfolding m'_def using that i(1) by (subst put32_other) (auto simp: memset_apply)
  show pi: "pde m' d i = e" by (simp add: pde_def m'_def)
  show p: "pde m' d a = pde m d a" if "a < 1024" "a \<noteq> i" for a
    unfolding pde_def m'_def using that i(1) ap
    by (subst get_put_disjoint) (auto simp: neq_iff memset_apply intro!: get32_cong)
  have ft: "table m d a \<noteq> g" "table m d a \<noteq> d" if "a < 1024" "pres (pde m d a)" for a
    using ok that g by (auto simp: pt_ok_def)
  show q: "pte m' d a b = pte m d a b" if "a < 1024" "b < 1024" "pres (pde m d a)" for a b
  proof (rule pte_cong)
    show "pde m' d a = pde m d a" using that p i by metis
    fix x assume "unat (table m d a) \<le> x" "x < unat (table m d a) + 4096"
    then show "m' x = m x" using tables_apart [OF dt g(2) ft(1)] tables_apart [OF dt dd ft(2)] that by (intro out) force+
  qed (rule that)
  show "pte m' d i b = 0" if "b < 1024" for b
  proof -
    have z: "m' x = 0" if "unat g \<le> x" "x < unat g + 4096" for x
      unfolding m'_def using that i(1) ap by (subst put32_other) (auto simp: memset_apply)
    have "get32 m' (unat g + 4 * b) = get32 (\<lambda>_. 0) (unat g + 4 * b)"
      by (rule get32_cong) (rule z; use that in linarith)+
    then show ?thesis using e(2) by (simp add: pte_def table_def pi get32_def)
  qed
  show "pt_ok m' d (F - {g})"
    unfolding pt_ok_def
  proof (intro conjI allI impI)
    have tb: "table m' d k = (if k = i then g else table m d k)" if "k < 1024" for k
      using that p pi e(2) by (simp add: table_def)
    have pr: "pres (pde m d k)" if "k < 1024" "pres (pde m' d k)" "k \<noteq> i" for k using that p by metis
    fix k assume k: "k < 1024" "pres (pde m' d k)"
    show "table m' d k \<noteq> d" using k tb pr ft gd by (cases "k = i") auto
    show "table m' d k \<notin> F - {g}" using k tb pr ok by (cases "k = i") (auto simp: pt_ok_def)
    fix l assume l: "l < 1024" "pres (pde m' d l)" "table m' d k = table m' d l"
    show "k = l"
    proof (cases "k = i \<or> l = i")
      case True
      then show ?thesis using k l tb pr ft by metis
    next
      case False
      then show ?thesis using k l tb pr ok unfolding pt_ok_def by metis
    qed
  qed (use ok dd in \<open>auto simp: pt_ok_def\<close>)
qed

section \<open>mappages\<close>

lemma lookup_Some:
  "pres (pde m d (unat (PDX va))) \<Longrightarrow> pres (pte m d (unat (PDX va)) (unat (PTX va))) \<Longrightarrow>
   lookup m d va = Some (pte m d (unat (PDX va)) (unat (PTX va)))"
  by (simp add: lookup_def Let_def)

text \<open>The state after a page was taken from the free list.\<close>

definition pt_state :: "'z vm_scheme \<Rightarrow> u32 \<Rightarrow> u32 list \<Rightarrow> bool" where
  "pt_state s d ps = (nolocks s \<and> free_pages s ps \<and> pt_ok (phys s) d (set ps))"

text \<open>What mapping one page, and mapping \<open>k\<close> more after it, means for the map of addresses.\<close>

definition map_one :: "(u32 \<Rightarrow> u32 option) \<Rightarrow> u32 \<Rightarrow> u32 \<Rightarrow> u32 \<Rightarrow> u32 option" where
  "map_one L a e = (\<lambda>va. if PTE_ADDR va = PTE_ADDR a then Some e else L va)"

primrec map_range :: "nat \<Rightarrow> (u32 \<Rightarrow> u32 option) \<Rightarrow> u32 \<Rightarrow> u32 \<Rightarrow> u32 \<Rightarrow> u32 \<Rightarrow> u32 option" where
  "map_range 0 L a pa perm = map_one L a (pa OR perm OR PTE_P)"
| "map_range (Suc k) L a pa perm = map_range k (map_one L a (pa OR perm OR PTE_P)) (a + PGSIZE) (pa + PGSIZE) perm"

lemma pres_or [simp]: "pres (x OR PTE_P)"
  by (simp add: pres_bit PTE_P_def bit_simps)

text \<open>\<open>walkpgdir\<close> with \<open>create\<close> set: the address of the entry, in a table that is there.\<close>

lemma walkpgdir_create:
  assumes st: "pt_state s d ps"
  shows "returns (walkpgdir d va True s) (\<lambda>r t.
    case r of None \<Rightarrow> t = s \<and> ps = [] | Some a \<Rightarrow> \<exists>qs. pt_state t d qs \<and> length ps \<le> Suc (length qs) \<and> lookup (phys t) d = lookup (phys s) d \<and>
      pres (pde (phys t) d (unat (PDX va))) \<and> unat a = unat (table (phys t) d (unat (PDX va))) + 4 * unat (PTX va))"
proof -
  let ?i = "unat (PDX va)" and ?j = "unat (PTX va)"
  have dd: "4096 dvd unat d" and nl: "nolocks s" and fp: "free_pages s ps" and ok: "pt_ok (phys s) d (set ps)"
    using st by (auto simp: pt_state_def pt_ok_def)
  have da: "unat (d + 4 * PDX va) = unat d + 4 * ?i" using entry_addr [OF dd idx_unat(3) [of va]] by simp
  have ta: "unat (g + 4 * PTX va) = unat g + 4 * ?j" if "4096 dvd unat g" for g
    using entry_addr [OF that idx_unat(4) [of va]] by simp
  have ld: "load32 (d + 4 * PDX va) s = Done (pde (phys s) d ?i) s" by (simp add: load32_def exec pde_def da)
  show ?thesis
  proof (cases "pres (pde (phys s) d ?i)")
    case True
    then show ?thesis using st ld ta
      by (auto simp: walkpgdir_def exec returns_def pres_def table_def intro: exI [of _ ps])
  next
    case False
    show ?thesis
    proof (cases ps)
      case Nil
      then have "freelist s = 0" using fp by (simp add: free_pages_def)
      then show ?thesis using False ld nl Nil by (simp add: walkpgdir_def exec returns_def pres_def kalloc_eq)
    next
      case (Cons g gs)
      have g: "freelist s = g" "g \<noteq> 0" "page s g" "g \<notin> set gs" using fp Cons by (auto simp: free_pages_def)
      have dg: "4096 dvd unat g" by (rule page_dvd [OF g(3)])
      let ?e = "g OR PTE_P OR PTE_W OR PTE_U"
      let ?m = "put32 (memset (phys s) (unat g) 0 4096) (unat d + 4 * ?i) ?e"
      let ?t = "s\<lparr>freelist := get32 (phys s) (unat g), phys := ?m\<rparr>"
      have e: "pres ?e" "PTE_ADDR ?e = g"
      proof -
        show "pres ?e" by (simp add: pres_bit PTE_P_def PTE_W_def PTE_U_def bit_simps)
        have "drop_bit 12 ?e = drop_bit 12 g"
          by (simp add: PTE_P_def PTE_W_def PTE_U_def drop_bit_or)
        then show "PTE_ADDR ?e = g" using PTE_ADDR_id [OF dg] by (simp add: PTE_ADDR_shift)
      qed
      note nt = new_table [OF ok _ dg idx_unat(3) False e refl]
      have w: "walkpgdir d va True s = Done (Some (g + 4 * PTX va)) ?t"
        using False ld nl g da by (simp add: walkpgdir_def exec pres_def kalloc_eq memsetk_def store32_def PGSIZE_def)
      have in1: "g \<in> set ps" using Cons by simp
      have "lookup ?m d = lookup (phys s) d"
      proof
        fix x
        have n0: "\<not> pres 0" by (simp add: pres_bit)
        show "lookup ?m d x = lookup (phys s) d x"
        proof (cases "unat (PDX x) = ?i")
          case True
          then show ?thesis using nt(5) [OF in1 idx_unat(4) [of x]] False n0 by (simp add: lookup_def Let_def)
        next
          case ne: False
          note q = nt(3) [OF in1 idx_unat(3) ne]
          show ?thesis
            using nt(4) [OF in1 idx_unat(3) [of x] idx_unat(4) [of x]]
            by (cases "pres (pde (phys s) d (unat (PDX x)))") (simp_all add: lookup_def Let_def q)
        qed
      qed
      moreover have "pt_state ?t d gs"
        unfolding pt_state_def
      proof (intro conjI)
        show "pt_ok (phys ?t) d (set gs)" using nt(1) [OF in1] Cons g(4) by simp
        have "chain ?m (get32 (phys s) (unat g)) gs = chain (phys s) (get32 (phys s) (unat g)) gs"
        proof (rule chain_cong)
          fix v assume v: "v \<in> set gs"
          then have "page s v" "v \<noteq> g" "v \<noteq> d" using fp Cons g(4) ok by (auto simp: free_pages_def pt_ok_def)
          then show "get32 ?m (unat v) = get32 (phys s) (unat v)"
            using tables_apart [OF page_dvd dg, of s v] tables_apart [OF page_dvd dd, of s v]
            by (intro get32_cong nt(6) [OF in1]) force+
        qed
        then show "free_pages ?t gs" using fp Cons g by (auto simp: free_pages_def page_def)
      qed (use nl in simp)
      moreover have "table ?m d ?i = g" "pres (pde ?m d ?i)" using nt(2) [OF in1] e by (simp_all add: table_def)
      ultimately show ?thesis using ta [OF dg] Cons unfolding w by (auto simp: returns_def intro!: exI [of _ gs])
    qed
  qed
qed

lemma map_page_rule:
  assumes st: "pt_state s d ps" and un: "lookup (phys s) d a = None"
  shows "returns (map_page d a pa perm s) (\<lambda>r t. \<exists>qs. pt_state t d qs \<and> length ps \<le> Suc (length qs) \<and>
    (r = 0 \<and> lookup (phys t) d = map_one (lookup (phys s) d) a (pa OR perm OR PTE_P) \<or>
     r = - 1 \<and> ps = [] \<and> lookup (phys t) d = lookup (phys s) d))"
  unfolding map_page_def
proof (rule returns_bindk, rule walkpgdir_create [OF st], goal_cases)
  case (1 r t)
  let ?i = "unat (PDX a)" and ?j = "unat (PTX a)" and ?e = "pa OR perm OR PTE_P"
  show ?case
  proof (cases r)
    case None
    then have "t = s" "ps = []" using 1 by auto
    then show ?thesis using None st by (auto simp: exec returns_def)
  next
    case (Some p)
    then obtain qs where t: "pt_state t d qs" and ln: "length ps \<le> Suc (length qs)" and lk: "lookup (phys t) d = lookup (phys s) d"
      and pi: "pres (pde (phys t) d ?i)" and p: "unat p = unat (table (phys t) d ?i) + 4 * ?j" using 1 by auto
    have ok: "pt_ok (phys t) d (set qs)" using t by (simp add: pt_state_def)
    let ?m = "put32 (phys t) (unat (table (phys t) d ?i) + 4 * ?j) ?e"
    have np: "\<not> pres (pte (phys t) d ?i ?j)" using un pi unfolding lk [symmetric]
      by (auto simp: lookup_def Let_def split: if_splits)
    note sp = set_pte [OF ok idx_unat(3) [of a] pi idx_unat(4) [of a] refl]
    have run: "bindk (load32 p) (\<lambda>e. if e AND PTE_P \<noteq> 0 then panic ''remap''
        else bindk (store32 p ?e) (\<lambda>_. ret (0 :: int))) t = Done 0 (t\<lparr>phys := ?m\<rparr>)"
      using np by (simp add: exec load32_def store32_def p pres_def pte_def)
    have "lookup ?m d x = map_one (lookup (phys t) d) a ?e x" for x
    proof -
      have pd: "pde ?m d (unat (PDX x)) = pde (phys t) d (unat (PDX x))"
        using sp(1) [where a = "unat (PDX x)"] idx_unat(3) [of x] by auto
      have same: "(unat (PDX x) = ?i \<and> unat (PTX x) = ?j) = (PTE_ADDR x = PTE_ADDR a)"
        using same_page [of x a] by (simp add: word_unat_eq_iff)
      show ?thesis
      proof (cases "pres (pde (phys t) d (unat (PDX x)))")
        case True
        then have "pte ?m d (unat (PDX x)) (unat (PTX x)) =
            (if PTE_ADDR x = PTE_ADDR a then ?e else pte (phys t) d (unat (PDX x)) (unat (PTX x)))"
          using sp(3) [OF idx_unat(3) [of x] idx_unat(4) [of x]] unfolding same by blast
        moreover have "pres ?e" by (simp add: pres_bit PTE_P_def bit_simps)
        ultimately show ?thesis using True by (simp add: lookup_def Let_def pd map_one_def)
      next
        case False
        then have "PTE_ADDR x \<noteq> PTE_ADDR a" using pi same by metis
        then show ?thesis using False by (simp add: lookup_def Let_def pd map_one_def)
      qed
    qed
    moreover have "pt_state (t\<lparr>phys := ?m\<rparr>) d qs"
      unfolding pt_state_def
    proof (intro conjI)
      show "pt_ok (phys (t\<lparr>phys := ?m\<rparr>)) d (set qs)" using sp(2) by simp
      have "chain ?m (freelist t) qs = chain (phys t) (freelist t) qs"
      proof (rule chain_cong)
        fix v assume v: "v \<in> set qs"
        then have "page t v" "table (phys t) d ?i \<noteq> v"
          using t ok pi idx_unat(3) [of a] by (auto simp: pt_state_def free_pages_def pt_ok_def)
        then show "get32 ?m (unat v) = get32 (phys t) (unat v)"
          using tables_apart [OF _ page_dvd, of "table (phys t) d ?i" t v] idx_unat(4) [of a]
          by (intro get_put_disjoint) (auto simp: table_def)
      qed
      then show "free_pages (t\<lparr>phys := ?m\<rparr>) qs" using t by (auto simp: pt_state_def free_pages_def page_def)
    qed (use t in \<open>simp add: pt_state_def\<close>)
    ultimately show ?thesis unfolding Some option.case run lk
      by (intro returnsI [OF refl] exI [of _ qs]) (use ln in \<open>auto simp: fun_eq_iff\<close>)
  qed
qed

lemma PTE_ADDR_step:
  assumes "4096 dvd unat a" and "unat a + 4096 * k < 2 ^ 32"
  shows "unat (a + of_nat k * PGSIZE) = unat a + 4096 * k" and "PTE_ADDR (a + of_nat k * PGSIZE) = a + of_nat k * PGSIZE"
proof -
  show u: "unat (a + of_nat k * PGSIZE) = unat a + 4096 * k"
    using assms(2) by (simp add: unat_word_ariths PGSIZE_def)
  show "PTE_ADDR (a + of_nat k * PGSIZE) = a + of_nat k * PGSIZE" by (rule PTE_ADDR_id) (use u assms in simp)
qed

lemma mappages_loop_rule:
  assumes "pt_state s d ps" and "4096 dvd unat a" and "unat a + 4096 * k < 2 ^ 32"
    and "\<And>i. i \<le> k \<Longrightarrow> lookup (phys s) d (a + of_nat i * PGSIZE) = None"
  shows "returns (mappages_loop k d a pa perm s) (\<lambda>r t. (\<exists>qs. pt_state t d qs) \<and>
    (r = 0 \<and> lookup (phys t) d = map_range k (lookup (phys s) d) a pa perm \<or> r = - 1 \<and> length ps \<le> k))"
  using assms
proof (induction k arbitrary: s ps a pa)
  case 0
  have "lookup (phys s) d a = None" using 0(4) [of 0] by simp
  then show ?case unfolding mappages_loop.simps
    by (rule returns_mono [OF map_page_rule [OF 0(1)]]) auto
next
  case (Suc k)
  have u: "lookup (phys s) d a = None" using Suc.prems(4) [of 0] by simp
  show ?case unfolding mappages_loop.simps
  proof (rule returns_bindk, rule map_page_rule [OF Suc.prems(1) u], goal_cases)
    case (1 r t)
    then obtain qs where t: "pt_state t d qs" and ln: "length ps \<le> Suc (length qs)" by blast
    show ?case
    proof (cases "r = - 1")
      case True
      then show ?thesis using 1 by (auto simp: exec returns_def)
    next
      case False
      then have r: "r = 0" and l: "lookup (phys t) d = map_one (lookup (phys s) d) a (pa OR perm OR PTE_P)" using 1 by auto
      have st: "a + PGSIZE + of_nat i * PGSIZE = a + of_nat (Suc i) * PGSIZE" for i by (simp add: algebra_simps)
      have n1: "unat (a + PGSIZE) = unat a + 4096" using PTE_ADDR_step [of a 1] Suc.prems by simp
      have un: "lookup (phys t) d (a + PGSIZE + of_nat i * PGSIZE) = None" if "i \<le> k" for i
      proof -
        have ps: "unat (a + of_nat (Suc i) * PGSIZE) = unat a + 4096 * Suc i"
          "PTE_ADDR (a + of_nat (Suc i) * PGSIZE) = a + of_nat (Suc i) * PGSIZE"
          using that Suc.prems by (intro PTE_ADDR_step; simp)+
        have "PTE_ADDR (a + of_nat (Suc i) * PGSIZE) \<noteq> PTE_ADDR a"
          unfolding ps(2) PTE_ADDR_id [OF Suc.prems(2)] using ps(1) by (auto simp del: of_nat_Suc)
        then show ?thesis unfolding st l map_one_def using Suc.prems(4) [of "Suc i"] that by simp
      qed
      have "returns (mappages_loop k d (a + PGSIZE) (pa + PGSIZE) perm t) (\<lambda>r v. (\<exists>qs. pt_state v d qs) \<and>
        (r = 0 \<and> lookup (phys v) d = map_range k (lookup (phys t) d) (a + PGSIZE) (pa + PGSIZE) perm \<or> r = - 1 \<and> length qs \<le> k))"
        by (rule Suc.IH [OF t]) (use n1 Suc.prems un in auto)
      then show ?thesis using r ln unfolding l by (auto elim!: returns_mono)
    qed
  qed
qed

text \<open>
  C15. \<open>mappages\<close> implements the extension of the address map: on a well-formed page directory it
  returns 0 with exactly the pages of the range mapped, each to the physical page at the same distance
  from \<open>pa\<close> with the given permissions, and every other address translated as before; or it returns -1
  which it does only when the allocator has no more free pages than the range has pages besides its
  first. The directory stays well-formed either way.
\<close>

theorem mappages_refines:
  assumes st: "pt_state s d ps" and sz: "0 < unat sz" "unat la + unat sz < 2 ^ 32"
    and k: "k = (unat la + unat sz - 1) div 4096 - unat la div 4096"
    and un: "\<And>i. i \<le> k \<Longrightarrow> lookup (phys s) d (PGROUNDDOWN la + of_nat i * PGSIZE) = None"
  shows "returns (mappages d la sz pa perm s) (\<lambda>r t. (\<exists>qs. pt_state t d qs) \<and>
    (r = 0 \<and> lookup (phys t) d = map_range k (lookup (phys s) d) (PGROUNDDOWN la) pa perm \<or> r = - 1 \<and> length ps \<le> k))"
proof -
  have g: "PGROUNDDOWN x = PTE_ADDR x" for x by (simp add: PGROUNDDOWN_def PTE_ADDR_def PGSIZE_def)
  have l: "unat (la + sz - 1) = unat la + unat sz - 1"
  proof -
    have "unat (la + sz) = unat la + unat sz" using sz by (simp add: unat_word_ariths)
    moreover have "la + sz \<noteq> 0" using calculation sz by auto
    ultimately show ?thesis by (simp add: unat_minus_one)
  qed
  have m: "unat la div 4096 \<le> (unat la + unat sz - 1) div 4096" using sz by (intro div_le_mono) simp
  then have "PTE_ADDR la \<le> PTE_ADDR (la + sz - 1)" by (simp add: word_le_nat_alt PTE_ADDR_unat l)
  then have "unat (PTE_ADDR (la + sz - 1) - PTE_ADDR la) = k * 4096"
    by (simp add: unat_sub PTE_ADDR_unat l k algebra_simps)
  then have kk: "unat (PGROUNDDOWN (la + sz - 1) - PGROUNDDOWN la) div unat PGSIZE = k"
    by (simp add: g PGSIZE_def)
  have "unat (PTE_ADDR la) + 4096 * k = (unat la + unat sz - 1) div 4096 * 4096"
    using m by (simp add: PTE_ADDR_unat k algebra_simps)
  also have "\<dots> < 2 ^ 32" using sz by simp
  finally have b: "unat (PTE_ADDR la) + 4096 * k < 2 ^ 32" .
  show ?thesis unfolding mappages_def Let_def kk
    by (rule mappages_loop_rule [OF st]) (use b un in \<open>simp_all add: g\<close>)
qed

text \<open>A machine with one free page and an empty page directory.\<close>

definition one_free :: kern where
  "one_free = (booted (\<lambda>_ _ _. 0))\<lparr>freelist := 0x200000\<rparr>"

lemma one_free_state: "pt_state one_free 0x300000 [0x200000]"
proof -
  have "get32 (\<lambda>_. 0) x = 0" for x by (simp add: get32_def)
  moreover have "\<not> pres 0" by (simp add: pres_bit)
  ultimately show ?thesis
    by (simp add: pt_state_def one_free_def free_pages_def page_def pt_ok_def pde_def PGSIZE_def PHYSTOP_def)
qed

theorem mappages_refines_witness:
  "returns (mappages 0x300000 0x1000 0x1000 0x400000 6 one_free)
     (\<lambda>r t. r = 0 \<and> lookup (phys t) 0x300000 0x1005 = Some 0x400007 \<and> lookup (phys t) 0x300000 0x2000 = None)"
proof -
  have "lookup (phys one_free) d x = None" for d x
    by (simp add: one_free_def lookup_def pde_def get32_def pres_bit Let_def)
  then show ?thesis
    by (intro returns_mono [OF mappages_refines [OF one_free_state, where k = 0]])
      (auto simp: map_one_def PTE_ADDR_def PGROUNDDOWN_def PGSIZE_def PTE_P_def)
qed

end
