(* ===== verification/Umalloc.thy ===== *)
theory Umalloc
  imports Kernel_Prelude
begin

text \<open>
  The user-level memory allocator (\<open>user/umalloc.c\<close>): blocks with a header, the free ones linked
  into a ring in the order of their addresses. The heap is the collection of the headers by address
  (they are 8 bytes long and lie at multiples of 8, so they do not overlap); the user's data between
  them is not modelled. \<open>brk\<close> is the process's size, which \<open>sbrk\<close> extends; whether the kernel grants
  an extension is the parameter \<open>grant\<close>, a function of the current size and the increment.
\<close>

record header =
  h_ptr :: u32
  h_size :: u32

record uheap =
  hdr :: "u32 \<Rightarrow> header"
  base :: u32
  freep :: u32
  brk :: u32

section \<open>The code\<close>

text \<open>
  The loop of \<open>free\<close> that looks for the block before \<open>bp\<close>; \<open>None\<close> when it has not ended
  after \<open>k\<close> rounds.
\<close>

primrec free_loop :: "nat \<Rightarrow> (u32 \<Rightarrow> header) \<Rightarrow> u32 \<Rightarrow> u32 \<Rightarrow> u32 option" where
  "free_loop 0 h bp p = None"
| "free_loop (Suc k) h bp p =
     (if p < bp \<and> bp < h_ptr (h p) then Some p
      else if h_ptr (h p) \<le> p \<and> (p < bp \<or> bp < h_ptr (h p)) then Some p
      else free_loop k h bp (h_ptr (h p)))"

text \<open>The statements after the loop, which link the block and join it to its neighbours.\<close>

definition free_join :: "(u32 \<Rightarrow> header) \<Rightarrow> u32 \<Rightarrow> u32 \<Rightarrow> u32 \<Rightarrow> header" where
  "free_join h bp p =
     (let h1 = (if bp + 8 * h_size (h bp) = h_ptr (h p)
          then h(bp := \<lparr>h_ptr = h_ptr (h (h_ptr (h p))), h_size = h_size (h bp) + h_size (h (h_ptr (h p)))\<rparr>)
          else h(bp := (h bp)\<lparr>h_ptr := h_ptr (h p)\<rparr>)) in
      if p + 8 * h_size (h1 p) = bp
      then h1(p := \<lparr>h_ptr = h_ptr (h1 bp), h_size = h_size (h1 p) + h_size (h1 bp)\<rparr>)
      else h1(p := (h1 p)\<lparr>h_ptr := bp\<rparr>))"

definition free :: "nat \<Rightarrow> u32 \<Rightarrow> uheap \<Rightarrow> uheap option" where
  "free fuel ap s =
     (let bp = ap - 8 in
      case free_loop fuel (hdr s) bp (freep s) of
        None \<Rightarrow> None
      | Some p \<Rightarrow> Some (s\<lparr>hdr := free_join (hdr s) bp p, freep := p\<rparr>))"

definition sbrk :: "(u32 \<Rightarrow> u32 \<Rightarrow> bool) \<Rightarrow> u32 \<Rightarrow> uheap \<Rightarrow> u32 \<times> uheap" where
  "sbrk grant n s = (if grant (brk s) n then (brk s, s\<lparr>brk := brk s + n\<rparr>) else (- 1, s))"

definition morecore :: "nat \<Rightarrow> (u32 \<Rightarrow> u32 \<Rightarrow> bool) \<Rightarrow> u32 \<Rightarrow> uheap \<Rightarrow> (u32 \<times> uheap) option" where
  "morecore fuel grant nu s =
     (let nu1 = (if nu < 4096 then 4096 else nu); (p, s1) = sbrk grant (nu1 * 8) s in
      if p = - 1 then Some (0, s1)
      else
        (case free fuel (p + 8) (s1\<lparr>hdr := (hdr s1)(p := (hdr s1 p)\<lparr>h_size := nu1\<rparr>)\<rparr>) of
           None \<Rightarrow> None
         | Some s2 \<Rightarrow> Some (freep s2, s2)))"

text \<open>Taking a block of \<open>nunits\<close> from the free block \<open>p\<close> behind \<open>prevp\<close>.\<close>

definition take_block :: "u32 \<Rightarrow> u32 \<Rightarrow> u32 \<Rightarrow> uheap \<Rightarrow> u32 \<times> uheap" where
  "take_block nunits prevp p s =
     (let h = hdr s in
      if h_size (h p) = nunits
      then (p + 8, s\<lparr>hdr := h(prevp := (h prevp)\<lparr>h_ptr := h_ptr (h p)\<rparr>), freep := prevp\<rparr>)
      else
        (let rest = h_size (h p) - nunits; q = p + 8 * rest;
             h1 = h(p := (h p)\<lparr>h_size := rest\<rparr>); h2 = h1(q := (h1 q)\<lparr>h_size := nunits\<rparr>) in
         (q + 8, s\<lparr>hdr := h2, freep := prevp\<rparr>)))"

text \<open>The loop of \<open>malloc\<close>; the outer \<open>None\<close> is fuel that has run out.\<close>

primrec malloc_loop :: "nat \<Rightarrow> nat \<Rightarrow> (u32 \<Rightarrow> u32 \<Rightarrow> bool) \<Rightarrow> u32 \<Rightarrow> u32 \<Rightarrow> u32 \<Rightarrow> uheap \<Rightarrow> (u32 \<times> uheap) option" where
  "malloc_loop 0 fuel grant nunits prevp p s = None"
| "malloc_loop (Suc k) fuel grant nunits prevp p s =
     (if nunits \<le> h_size (hdr s p) then Some (take_block nunits prevp p s)
      else if p = freep s then
        (case morecore fuel grant nunits s of
           None \<Rightarrow> None
         | Some (q, s1) \<Rightarrow>
             if q = 0 then Some (0, s1)
             else malloc_loop k fuel grant nunits q (h_ptr (hdr s1 q)) s1)
      else malloc_loop k fuel grant nunits p (h_ptr (hdr s p)) s)"

definition malloc :: "nat \<Rightarrow> (u32 \<Rightarrow> u32 \<Rightarrow> bool) \<Rightarrow> u32 \<Rightarrow> uheap \<Rightarrow> (u32 \<times> uheap) option" where
  "malloc fuel grant nbytes s =
     (let nunits = (nbytes + 8 - 1) div 8 + 1;
          s1 = (if freep s = 0 then s\<lparr>hdr := (hdr s)(base s := \<lparr>h_ptr = base s, h_size = 0\<rparr>), freep := base s\<rparr> else s) in
      malloc_loop fuel fuel grant nunits (freep s1) (h_ptr (hdr s1 (freep s1))) s1)"

section \<open>The ring of free blocks\<close>

text \<open>\<open>linked h xs z\<close>: the headers at \<open>xs\<close> point to each other in this order, the last one to \<open>z\<close>.\<close>

fun linked :: "(u32 \<Rightarrow> header) \<Rightarrow> u32 list \<Rightarrow> u32 \<Rightarrow> bool" where
  "linked h [] z = True"
| "linked h (x # xs) z = (h_ptr (h x) = hd (xs @ [z]) \<and> linked h xs z)"

lemma linked_append: "linked h (xs @ ys) z = (linked h xs (hd (ys @ [z])) \<and> linked h ys z)"
  by (induction xs) (auto simp: hd_append)

lemma linked_cong: "(\<And>x. x \<in> set xs \<Longrightarrow> h_ptr (h' x) = h_ptr (h x)) \<Longrightarrow> linked h' xs z = linked h xs z"
  by (induction xs) auto

text \<open>The address behind a block, the bytes of a block and of a list of blocks.\<close>

definition fin :: "(u32 \<Rightarrow> header) \<Rightarrow> u32 \<Rightarrow> nat" where
  "fin h x = unat x + 8 * unat (h_size (h x))"

definition bytes :: "(u32 \<Rightarrow> header) \<Rightarrow> u32 \<Rightarrow> nat set" where
  "bytes h x = {unat x..<fin h x}"

definition free_bytes :: "(u32 \<Rightarrow> header) \<Rightarrow> u32 list \<Rightarrow> nat set" where
  "free_bytes h xs = (\<Union>x \<in> set xs. bytes h x)"

lemma free_bytes_append: "free_bytes h (xs @ ys) = free_bytes h xs \<union> free_bytes h ys"
  by (simp add: free_bytes_def)

lemma free_bytes_Cons: "free_bytes h (x # xs) = bytes h x \<union> free_bytes h xs"
  by (simp add: free_bytes_def)

definition before :: "(u32 \<Rightarrow> header) \<Rightarrow> u32 \<Rightarrow> u32 \<Rightarrow> bool" where
  "before h x y = (x < y \<and> fin h x \<le> unat y)"

text \<open>
  The invariant: the ring starts at the static header \<open>base\<close>, which has no bytes; its blocks lie in
  the order of their addresses without overlap, aligned, below the end of the process.
\<close>

definition free_ring :: "(u32 \<Rightarrow> header) \<Rightarrow> u32 list \<Rightarrow> bool" where
  "free_ring h xs = (xs \<noteq> [] \<and> linked h xs (hd xs) \<and> sorted_wrt (before h) xs)"

definition blocks_ok :: "nat \<Rightarrow> u32 \<Rightarrow> (u32 \<Rightarrow> header) \<Rightarrow> u32 list \<Rightarrow> bool" where
  "blocks_ok lim b h xs = (\<forall>x \<in> set xs. 8 dvd unat x \<and> fin h x \<le> lim \<and> (x \<noteq> b \<longrightarrow> 0 < h_size (h x)))"

definition heap_ok :: "uheap \<Rightarrow> u32 list \<Rightarrow> bool" where
  "heap_ok s xs = (free_ring (hdr s) xs \<and> hd xs = base s \<and> base s \<noteq> 0 \<and> h_size (hdr s (base s)) = 0 \<and> freep s \<in> set xs \<and>
     base s < brk s \<and> 8 dvd unat (brk s) \<and> blocks_ok (unat (brk s)) (base s) (hdr s) xs)"

lemma same_sizes:
  assumes "\<And>x. h_size (g x) = h_size (h x)"
  shows "fin g = fin h" and "bytes g = bytes h" and "before g = before h" and "free_bytes g = free_bytes h"
proof -
  show f: "fin g = fin h" using assms by (simp add: fin_def fun_eq_iff)
  show b: "bytes g = bytes h" by (simp add: bytes_def f fun_eq_iff)
  show "before g = before h" by (simp add: before_def f fun_eq_iff)
  show "free_bytes g = free_bytes h" by (simp add: free_bytes_def b fun_eq_iff)
qed

lemma sorted_before_less: "sorted_wrt (before h) xs \<Longrightarrow> sorted_wrt (<) xs"
  by (rule sorted_wrt_mono_rel) (auto simp: before_def)

lemma ring_distinct: "free_ring h xs \<Longrightarrow> distinct xs"
  using sorted_before_less [of h xs] by (simp add: free_ring_def strict_sorted_iff)

lemma fin_word: "fin h x < 2 ^ 32 \<Longrightarrow> unat (x + 8 * h_size (h x)) = fin h x"
  by (simp add: fin_def unat_word_ariths)

text \<open>Inserting a block behind its predecessor, and joining two neighbours.\<close>

definition link_in :: "u32 \<Rightarrow> u32 \<Rightarrow> (u32 \<Rightarrow> header) \<Rightarrow> u32 \<Rightarrow> header" where
  "link_in p bp h = h(bp := (h bp)\<lparr>h_ptr := h_ptr (h p)\<rparr>, p := (h p)\<lparr>h_ptr := bp\<rparr>)"

definition join :: "u32 \<Rightarrow> u32 \<Rightarrow> (u32 \<Rightarrow> header) \<Rightarrow> u32 \<Rightarrow> header" where
  "join x y h = h(x := \<lparr>h_ptr = h_ptr (h y), h_size = h_size (h x) + h_size (h y)\<rparr>)"

lemma free_join_eq:
  assumes "p \<noteq> bp" and "h_ptr (h p) \<noteq> bp" and "bp + 8 * h_size (h bp) = h_ptr (h p) \<Longrightarrow> h_ptr (h p) \<noteq> p"
  shows "free_join h bp p =
    (let h1 = link_in p bp h;
         h2 = (if bp + 8 * h_size (h bp) = h_ptr (h p) then join bp (h_ptr (h p)) h1 else h1) in
     if p + 8 * h_size (h p) = bp then join p bp h2 else h2)"
  using assms unfolding free_join_def link_in_def join_def Let_def
  by (cases "bp + 8 * h_size (h bp) = h_ptr (h p)"; cases "p + 8 * h_size (h p) = bp") (auto simp: fun_eq_iff)

lemma link_in_size [simp]: "h_size (link_in p bp h x) = h_size (h x)"
  by (simp add: link_in_def)

lemma link_in_sel [simp]: "fin (link_in p bp h) = fin h"
  "bytes (link_in p bp h) = bytes h" "before (link_in p bp h) = before h" "free_bytes (link_in p bp h) = free_bytes h"
  by (rule same_sizes, simp)+

lemma ring_link_in:
  assumes r: "free_ring h (as @ p # cs)" and b: "\<forall>x \<in> set (as @ [p]). before h x bp" "\<forall>x \<in> set cs. before h bp x"
  shows "free_ring (link_in p bp h) (as @ p # bp # cs)"
proof -
  have np: "p \<noteq> bp" "bp \<notin> set as" "bp \<notin> set cs" using b by (auto simp: before_def)
  note d = ring_distinct [OF r]
  let ?z = "hd (as @ p # cs)"
  have l: "linked h as p" "h_ptr (h p) = hd (cs @ [?z])" "linked h cs ?z"
    using r by (auto simp: free_ring_def linked_append)
  have "linked (link_in p bp h) as p" "linked (link_in p bp h) cs ?z"
    using l(1,3) np d by (subst linked_cong; auto simp: link_in_def)+
  then have "linked (link_in p bp h) (as @ p # bp # cs) ?z"
    using l(2) np by (simp add: linked_append) (simp add: link_in_def)
  moreover have "?z = hd (as @ p # bp # cs)" by (cases as) auto
  moreover have "sorted_wrt (before h) (as @ p # bp # cs)"
    using r b by (auto simp: free_ring_def sorted_wrt_append)
  ultimately show ?thesis by (simp add: free_ring_def)
qed

lemma ring_join:
  assumes r: "free_ring h (us @ x # y # ws)" and adj: "fin h x = unat y" and lim: "fin h y < 2 ^ 32"
  shows "free_ring (join x y h) (us @ x # ws)" and "free_bytes (join x y h) (us @ x # ws) = free_bytes h (us @ x # y # ws)"
    and "fin (join x y h) x = fin h y" and "z \<noteq> x \<Longrightarrow> fin (join x y h) z = fin h z"
    and "bytes (join x y h) x = bytes h x \<union> bytes h y"
proof -
  note d = ring_distinct [OF r]
  have "unat (h_size (h x) + h_size (h y)) = unat (h_size (h x)) + unat (h_size (h y))"
    using adj lim by (simp add: fin_def unat_word_ariths)
  then show fx: "fin (join x y h) x = fin h y" using adj by (simp add: fin_def join_def)
  show fz: "fin (join x y h) z = fin h z" if "z \<noteq> x" for z using that by (simp add: fin_def join_def)
  let ?z = "hd (us @ x # y # ws)"
  have l: "linked h us x" "h_ptr (h y) = hd (ws @ [?z])" "linked h ws ?z" using r by (auto simp: free_ring_def linked_append)
  have "linked (join x y h) us x" "linked (join x y h) ws ?z"
    using l(1,3) d by (subst linked_cong; auto simp: join_def)+
  then have "linked (join x y h) (us @ x # ws) ?z" using l(2) by (simp add: linked_append) (simp add: join_def)
  moreover have "?z = hd (us @ x # ws)" by (cases us) auto
  moreover have "sorted_wrt (before (join x y h)) (us @ x # ws)"
  proof -
    have s: "sorted_wrt (before h) us" "sorted_wrt (before h) ws" "\<forall>u \<in> set us. \<forall>w \<in> set (x # ws). before h u w"
      "\<forall>w \<in> set ws. before h y w \<and> x < w"
      using r by (auto simp: free_ring_def sorted_wrt_append before_def)
    have same: "before (join x y h) u w = before h u w" if "u \<noteq> x" for u w using that fz by (simp add: before_def)
    have keep: "sorted_wrt (before (join x y h)) vs" if "sorted_wrt (before h) vs" "x \<notin> set vs" for vs
      by (rule sorted_wrt_mono_rel [OF _ that(1)]) (use that(2) same in metis)
    have "sorted_wrt (before (join x y h)) us" "sorted_wrt (before (join x y h)) ws"
      using s(1,2) d by (auto intro: keep)
    moreover have "\<forall>w \<in> set ws. before (join x y h) x w" using s(4) fx by (auto simp: before_def)
    moreover have "\<forall>u \<in> set us. u \<noteq> x" using d by auto
    then have "\<forall>u \<in> set us. \<forall>w \<in> set (x # ws). before (join x y h) u w" using s(3) same by blast
    ultimately show ?thesis by (simp add: sorted_wrt_append)
  qed
  ultimately show "free_ring (join x y h) (us @ x # ws)" by (simp add: free_ring_def)
  show bx: "bytes (join x y h) x = bytes h x \<union> bytes h y"
    using fx adj by (auto simp: bytes_def fin_def)
  have bz: "bytes (join x y h) w = bytes h w" if "w \<noteq> x" for w using that fz by (simp add: bytes_def)
  have "free_bytes (join x y h) vs = free_bytes h vs" if "x \<notin> set vs" for vs
    unfolding free_bytes_def by (rule SUP_cong) (use bz that in metis)+
  then have "free_bytes (join x y h) us = free_bytes h us" "free_bytes (join x y h) ws = free_bytes h ws" using d by auto
  then show "free_bytes (join x y h) (us @ x # ws) = free_bytes h (us @ x # y # ws)"
    unfolding free_bytes_append free_bytes_Cons bx by blast
qed

section \<open>free\<close>

definition stops :: "(u32 \<Rightarrow> header) \<Rightarrow> u32 \<Rightarrow> u32 \<Rightarrow> bool" where
  "stops h bp p = (p < bp \<and> bp < h_ptr (h p) \<or> h_ptr (h p) \<le> p \<and> (p < bp \<or> bp < h_ptr (h p)))"

lemma free_loop_Suc: "free_loop (Suc k) h bp p = (if stops h bp p then Some p else free_loop k h bp (h_ptr (h p)))"
  by (auto simp: stops_def)

lemma free_loop_path:
  assumes "linked h (ys @ [p]) z" and "\<forall>y \<in> set ys. \<not> stops h bp y" and "stops h bp p" and "length ys < k"
  shows "free_loop k h bp (hd (ys @ [p])) = Some p"
  using assms
proof (induction ys arbitrary: k)
  case Nil
  then obtain k' where "k = Suc k'" by (cases k) auto
  then show ?case using Nil by (simp del: free_loop.simps add: free_loop_Suc)
next
  case (Cons y ys)
  then obtain k' where k: "k = Suc k'" by (cases k) auto
  then show ?case using Cons.IH [of k'] Cons.prems by (simp del: free_loop.simps add: free_loop_Suc hd_append split: if_splits)
qed

text \<open>The search ends at the last block below \<open>bp\<close>, from whichever block of the ring it starts.\<close>

lemma free_loop_finds:
  assumes r: "free_ring h (as @ p # cs)" and b: "\<forall>x \<in> set (as @ [p]). x < bp" "\<forall>x \<in> set cs. bp < x"
    and f: "f \<in> set (as @ p # cs)" and k: "length (as @ p # cs) \<le> k"
  shows "free_loop k h bp f = Some p"
proof -
  let ?xs = "as @ p # cs" and ?z = "hd (as @ [p])"
  have z: "hd ?xs = ?z" by (cases as) auto
  have l: "linked h as p" "h_ptr (h p) = hd (cs @ [?z])" "linked h cs ?z"
    using r z by (auto simp: free_ring_def linked_append)
  have srt: "sorted_wrt (<) ?xs" using r sorted_before_less by (auto simp: free_ring_def)
  have zin: "?z \<in> set (as @ [p])" by (cases as) auto
  have nas: "\<not> stops h bp y" if "y \<in> set as" for y
  proof -
    from that obtain us vs where s: "as = us @ y # vs" by (meson split_list)
    then have n: "h_ptr (h y) = hd (vs @ [p])" using l(1) by (simp add: linked_append)
    then have "h_ptr (h y) \<in> set (vs @ [p])" by (cases vs) auto
    then have "y < h_ptr (h y)" "h_ptr (h y) < bp" using srt b s by (auto simp: sorted_wrt_append)
    then show ?thesis by (auto simp: stops_def)
  qed
  have ncs: "\<not> stops h bp y" if "y \<in> set cs" for y
  proof -
    from that obtain us vs where s: "cs = us @ y # vs" by (meson split_list)
    then have n: "h_ptr (h y) = hd (vs @ [?z])" using l(3) by (simp add: linked_append)
    have y: "bp < y" using b that by auto
    show ?thesis
    proof (cases vs)
      case Nil
      then have "h_ptr (h y) < bp" using n b zin by auto
      then show ?thesis using y by (auto simp: stops_def)
    next
      case (Cons w ws)
      then have "h_ptr (h y) = w" "y < w" using n srt s by (auto simp: sorted_wrt_append)
      then show ?thesis using y by (auto simp: stops_def)
    qed
  qed
  have sp: "stops h bp p"
  proof (cases cs)
    case Nil
    then have "h_ptr (h p) = ?z" using l(2) by simp
    moreover have "?z \<le> p" using srt zin by (auto simp: sorted_wrt_append)
    ultimately show ?thesis using b by (auto simp: stops_def)
  next
    case (Cons c cs')
    then show ?thesis using l(2) b by (auto simp: stops_def)
  qed
  have lp: "linked h (as @ [p]) (hd (cs @ [?z]))" using l by (simp add: linked_append)
  show ?thesis
  proof (cases "f \<in> set cs")
    case False
    then have "f \<in> set (as @ [p])" using f by auto
    then obtain us vs where s: "as @ [p] = us @ f # vs" by (meson split_list)
    show ?thesis
    proof (cases vs rule: rev_cases)
      case Nil
      then have "f = p" using s by simp
      then show ?thesis using free_loop_path [of h "[]" p _ bp k] l(2) sp k by simp
    next
      case (snoc vs' q)
      then have q: "q = p" "as = us @ f # vs'" using s by (auto simp: append_eq_append_conv2 Cons_eq_append_conv)
      have "linked h ((f # vs') @ [p]) (hd (cs @ [?z]))" using lp q by (simp add: linked_append)
      then have "free_loop k h bp (hd ((f # vs') @ [p])) = Some p"
        by (rule free_loop_path) (use nas sp k q in auto)
      then show ?thesis by simp
    qed
  next
    case True
    then obtain us vs where s: "cs = us @ f # vs" by (meson split_list)
    have "linked h (f # vs) ?z" using l(3) s by (simp add: linked_append)
    then have "linked h ((f # vs @ as) @ [p]) (hd (cs @ [?z]))" using lp by (auto simp: linked_append hd_append)
    then have "free_loop k h bp (hd ((f # vs @ as) @ [p])) = Some p"
      by (rule free_loop_path) (use nas ncs sp k s in auto)
    then show ?thesis by simp
  qed
qed

lemma below_split:
  assumes "sorted_wrt (<) xs" and "xs \<noteq> []" and "hd xs < (bp :: u32)" and "bp \<notin> set xs"
  obtains as p cs where "xs = as @ p # cs" and "\<forall>x \<in> set (as @ [p]). x < bp" and "\<forall>x \<in> set cs. bp < x"
proof -
  let ?lo = "takeWhile (\<lambda>x. x < bp) xs" and ?hi = "dropWhile (\<lambda>x. x < bp) xs"
  have ne: "?lo \<noteq> []" using assms(2,3) by (cases xs) auto
  have "bp < x" if "x \<in> set ?hi" for x
  proof -
    have h: "?hi \<noteq> []" using that by (metis empty_iff list.set(1))
    then have "\<not> hd ?hi < bp" by (rule hd_dropWhile)
    moreover have "hd ?hi \<in> set xs" using h by (meson hd_in_set set_dropWhileD)
    ultimately have "bp < hd ?hi" using assms(4) by (cases "hd ?hi = bp") (auto simp: not_less)
    moreover have "sorted_wrt (<) ?hi"
      using assms(1) takeWhile_dropWhile_id [of "\<lambda>x. x < bp" xs] by (metis sorted_wrt_append)
    ultimately show ?thesis using that h by (cases ?hi) auto
  qed
  moreover have "xs = butlast ?lo @ last ?lo # ?hi"
    using ne append_butlast_last_id [OF ne] takeWhile_dropWhile_id [of "\<lambda>x. x < bp" xs]
    by (metis append.assoc append_Cons append_Nil)
  moreover have "\<forall>x \<in> set (butlast ?lo @ [last ?lo]). x < bp"
    using append_butlast_last_id [OF ne] by (metis set_takeWhileD)
  ultimately show ?thesis using that by blast
qed

text \<open>A block that can be freed: aligned, not empty, above \<open>base\<close>, below the break, apart from the free blocks.\<close>

definition block_ok :: "uheap \<Rightarrow> u32 list \<Rightarrow> u32 \<Rightarrow> bool" where
  "block_ok s xs b = (8 dvd unat b \<and> 0 < h_size (hdr s b) \<and> base s < b \<and> fin (hdr s) b \<le> unat (brk s) \<and>
     bytes (hdr s) b \<inter> free_bytes (hdr s) xs = {} \<and> b \<notin> set xs)"

lemma block_before:
  assumes "heap_ok s xs" and "block_ok s xs b" and "x \<in> set xs"
  shows "x < b \<Longrightarrow> before (hdr s) x b" and "b < x \<Longrightarrow> h_size (hdr s x) \<noteq> 0 \<Longrightarrow> before (hdr s) b x"
proof -
  have d: "bytes (hdr s) b \<inter> bytes (hdr s) x = {}" using assms(2,3) by (auto simp: block_ok_def free_bytes_def)
  have b0: "unat b < fin (hdr s) b" using assms(2) by (simp add: block_ok_def fin_def unat_gt_0 word_neq_0_conv)
  show "before (hdr s) x b" if "x < b"
  proof (rule ccontr)
    assume "\<not> ?thesis"
    then have "unat b \<in> bytes (hdr s) x" using that by (auto simp: before_def bytes_def word_less_nat_alt)
    moreover have "unat b \<in> bytes (hdr s) b" using b0 by (simp add: bytes_def)
    ultimately show False using d by blast
  qed
  show "before (hdr s) b x" if "b < x" "h_size (hdr s x) \<noteq> 0"
  proof (rule ccontr)
    assume "\<not> ?thesis"
    then have "unat x \<in> bytes (hdr s) b" using that by (auto simp: before_def bytes_def word_less_nat_alt)
    moreover have "unat x \<in> bytes (hdr s) x" using that(2) by (simp add: bytes_def fin_def unat_gt_0 word_neq_0_conv)
    ultimately show False using d by blast
  qed
qed

lemma size_fin: "0 < h_size (h x) \<longleftrightarrow> unat x < fin h x"
  by (simp add: fin_def unat_gt_0 word_neq_0_conv)

lemma blocks_join:
  assumes r: "free_ring h (us @ x # y # ws)" and adj: "fin h x = unat y" and ok: "blocks_ok lim b h (us @ x # y # ws)"
    and lim: "lim < 2 ^ 32" and y: "y \<noteq> b"
  shows "blocks_ok lim b (join x y h) (us @ x # ws)"
  unfolding blocks_ok_def
proof
  fix z assume z: "z \<in> set (us @ x # ws)"
  have fy: "fin h y < 2 ^ 32" "unat y < fin h y" using ok lim y by (auto simp: blocks_ok_def size_fin)
  note j = ring_join [OF r adj fy(1)]
  show "8 dvd unat z \<and> fin (join x y h) z \<le> lim \<and> (z \<noteq> b \<longrightarrow> 0 < h_size (join x y h z))"
  proof (cases "z = x")
    case True
    have "x < y" using r by (simp add: free_ring_def sorted_wrt_append before_def)
    then show ?thesis using True ok fy j(3) unfolding size_fin by (auto simp: blocks_ok_def word_less_nat_alt)
  next
    case False
    then show ?thesis using z ok j(4) [OF False] by (auto simp: blocks_ok_def size_fin)
  qed
qed

text \<open>
  C19. \<open>free\<close> ends, whatever block its search starts from, and returns the block to the ring: the
  invariant holds again, and the free bytes are the previous ones together with those of the block,
  which \<open>free\<close> joins to the neighbours it touches.
\<close>

theorem free_returns_block:
  assumes ok: "heap_ok s xs" and b: "block_ok s xs (ap - 8)" and k: "length xs \<le> fuel"
  shows "\<exists>t ys. free fuel ap s = Some t \<and> heap_ok t ys \<and> brk t = brk s \<and> base t = base s \<and>
    free_bytes (hdr t) ys = free_bytes (hdr s) xs \<union> bytes (hdr s) (ap - 8) \<and> length ys \<le> Suc (length xs) \<and>
    (\<exists>x \<in> set ys. bytes (hdr s) (ap - 8) \<subseteq> bytes (hdr t) x)"
proof -
  define bp where "bp = ap - 8"
  define h where "h = hdr s"
  have r: "free_ring h xs" and hd: "hd xs = base s" and f: "freep s \<in> set xs" using ok by (auto simp: heap_ok_def h_def)
  have srt: "sorted_wrt (<) xs" and ne: "xs \<noteq> []" using r sorted_before_less by (auto simp: free_ring_def)
  have bb: "base s < bp" "bp \<notin> set xs" "8 dvd unat bp" "0 < h_size (h bp)" "fin h bp \<le> unat (brk s)"
    using b by (auto simp: block_ok_def bp_def h_def)
  obtain as p cs where xs: "xs = as @ p # cs" and lo: "\<forall>x \<in> set (as @ [p]). x < bp" and hi: "\<forall>x \<in> set cs. bp < x"
    using below_split [OF srt ne _ bb(2)] hd bb(1) by metis
  have inx: "fin h x \<le> unat (brk s)" "8 dvd unat x" "x \<noteq> base s \<Longrightarrow> 0 < h_size (h x)" if "x \<in> set xs" for x
    using ok that by (auto simp: heap_ok_def blocks_ok_def h_def)
  have brk: "unat (brk s) < 2 ^ 32" using unat_lt2p [of "brk s"] by simp
  have lob: "\<forall>x \<in> set (as @ [p]). before h x bp"
    using block_before(1) [OF ok b] lo xs by (auto simp: bp_def h_def)
  have cb: "x \<noteq> base s" if "x \<in> set cs" for x using hi bb(1) that by auto
  have hib: "\<forall>x \<in> set cs. before h bp x"
  proof
    fix x assume x: "x \<in> set cs"
    then have "x \<in> set xs" "ap - 8 < x" "h_size (hdr s x) \<noteq> 0" using xs hi inx(3) [of x] cb [OF x] by (auto simp: bp_def h_def)
    then show "before h bp x" using block_before(2) [OF ok b] by (simp add: bp_def h_def)
  qed
  have fl: "free_loop fuel h bp (freep s) = Some p"
    by (rule free_loop_finds [of h as p cs]) (use r xs lo hi f k in auto)
  define nx where "nx = h_ptr (h p)"
  have nx: "nx = hd (cs @ [base s])" using r xs hd by (simp add: nx_def free_ring_def linked_append)
  have up: "bp + 8 * h_size (h bp) = nx \<longleftrightarrow> cs \<noteq> [] \<and> fin h bp = unat (hd cs)"
  proof (cases cs)
    case Nil
    have "unat (bp + 8 * h_size (h bp)) = fin h bp" by (rule fin_word) (use bb(5) brk in linarith)
    moreover have "unat (base s) < fin h bp" using bb(1) by (simp add: fin_def word_less_nat_alt)
    ultimately show ?thesis using Nil nx by auto
  next
    case (Cons c cs')
    then show ?thesis using nx fin_word [of h bp] bb(5) brk by (simp add: word_unat_eq_iff)
  qed
  have dn: "p + 8 * h_size (h p) = bp \<longleftrightarrow> fin h p = unat bp"
    using fin_word [of h p] inx(1) [of p] xs brk by (simp add: word_unat_eq_iff)
  have hc: "bp < hd cs" if "cs \<noteq> []" using hi that by simp
  have pb: "p \<noteq> bp" "nx \<noteq> bp" "bp + 8 * h_size (h bp) = nx \<Longrightarrow> nx \<noteq> p"
    using lo hc nx up bb(1) by (auto simp: hd_append)
  let ?h1 = "link_in p bp h"
  let ?h2 = "if bp + 8 * h_size (h bp) = nx then join bp nx ?h1 else ?h1"
  let ?h3 = "if p + 8 * h_size (h p) = bp then join p bp ?h2 else ?h2"
  have t: "free fuel ap s = Some (s\<lparr>hdr := ?h3, freep := p\<rparr>)"
    using fl free_join_eq [OF pb(1), of h] pb by (simp add: free_def bp_def [symmetric] h_def [symmetric] nx_def Let_def)
  define cs2 where "cs2 = (if cs \<noteq> [] \<and> fin h bp = unat (hd cs) then tl cs else cs)"
  let ?lim = "unat (brk s)" and ?b = "base s"
  have r1: "free_ring ?h1 (as @ p # bp # cs)" by (rule ring_link_in) (use r xs lob hib in auto)
  have o1: "blocks_ok ?lim ?b ?h1 (as @ p # bp # cs)"
    using inx bb xs by (auto simp: blocks_ok_def)
  have f1: "free_bytes ?h1 (as @ p # bp # cs) = free_bytes h xs \<union> bytes h bp"
    using xs by (auto simp: free_bytes_append free_bytes_Cons)
  have s2: "free_ring ?h2 (as @ p # bp # cs2) \<and> blocks_ok ?lim ?b ?h2 (as @ p # bp # cs2) \<and>
      free_bytes ?h2 (as @ p # bp # cs2) = free_bytes h xs \<union> bytes h bp \<and> fin ?h2 p = fin h p \<and>
      bytes h bp \<subseteq> bytes ?h2 bp"
  proof (cases "bp + 8 * h_size (h bp) = nx")
    case False
    then have "cs2 = cs" using up by (auto simp: cs2_def)
    then show ?thesis using False r1 o1 f1 by simp
  next
    case True
    then obtain c where c: "cs = c # cs2" "fin h bp = unat c" using up by (cases cs) (auto simp: cs2_def)
    have n: "nx = c" using nx c by simp
    have r1': "free_ring ?h1 ((as @ [p]) @ bp # c # cs2)" and o1': "blocks_ok ?lim ?b ?h1 ((as @ [p]) @ bp # c # cs2)"
      and f1': "free_bytes ?h1 ((as @ [p]) @ bp # c # cs2) = free_bytes h xs \<union> bytes h bp" using r1 o1 f1 c by simp_all
    have lc: "fin ?h1 c < 2 ^ 32" using inx(1) [of c] xs c brk by simp
    have a: "fin ?h1 bp = unat c" using c by simp
    have "blocks_ok ?lim ?b (join bp c ?h1) ((as @ [p]) @ bp # cs2)"
      by (rule blocks_join [OF r1' a o1']) (use brk cb c in auto)
    then show ?thesis using True n ring_join [OF r1' a lc] f1' pb(1) by simp
  qed
  define ys where "ys = (if fin h p = unat bp then as @ p # cs2 else as @ p # bp # cs2)"
  have s3: "free_ring ?h3 ys \<and> blocks_ok ?lim ?b ?h3 ys \<and> free_bytes ?h3 ys = free_bytes h xs \<union> bytes h bp \<and>
      (\<exists>x \<in> set ys. bytes h bp \<subseteq> bytes ?h3 x)"
  proof (cases "fin h p = unat bp")
    case False
    then show ?thesis using s2 dn by (auto simp: ys_def)
  next
    case True
    have a: "fin ?h2 p = unat bp" using s2 True by simp
    have lb: "fin ?h2 bp < 2 ^ 32" using s2 brk by (auto simp: blocks_ok_def)
    have "blocks_ok ?lim ?b (join p bp ?h2) (as @ p # cs2)"
      by (rule blocks_join [OF _ a]) (use s2 brk bb(1) in auto)
    moreover have "bytes h bp \<subseteq> bytes (join p bp ?h2) p" using ring_join(5) [OF _ a lb] s2 by blast
    ultimately show ?thesis using ring_join [OF _ a lb] s2 True dn by (auto simp: ys_def)
  qed
  have hy: "hd ys = base s" using hd xs by (cases as) (auto simp: ys_def)
  have "h_size (?h3 (base s)) = 0"
  proof -
    have z: "h_size (h (base s)) = 0" using ok by (simp add: heap_ok_def h_def)
    have "base s \<noteq> bp" using bb(1) by auto
    moreover have "p \<noteq> base s" if "p + 8 * h_size (h p) = bp" using that z bb(1) by auto
    ultimately show ?thesis using z by (auto simp: join_def)
  qed
  then have "heap_ok (s\<lparr>hdr := ?h3, freep := p\<rparr>) ys"
    using s3 hy ok by (auto simp: heap_ok_def ys_def)
  moreover have "length ys \<le> Suc (length xs)" using xs by (auto simp: ys_def cs2_def)
  ultimately show ?thesis using t s3 by (intro exI [of _ "s\<lparr>hdr := ?h3, freep := p\<rparr>"] exI [of _ ys]) (simp add: h_def bp_def)
qed

section \<open>malloc\<close>

lemma ring_disjoint:
  assumes "sorted_wrt (before h) xs" and "x \<in> set xs" and "y \<in> set xs" and "x \<noteq> y"
  shows "bytes h x \<inter> bytes h y = {}"
proof -
  have "before h x y \<or> before h y x" using assms
  proof (induction xs)
    case (Cons z zs)
    then show ?case by auto
  qed simp
  then show ?thesis by (auto simp: before_def bytes_def word_less_nat_alt)
qed

text \<open>
  What an allocation of \<open>n\<close> units means: the block behind the result has the size, can be freed, and
  its bytes are exactly those that are no longer free.
\<close>

definition allocated :: "u32 \<Rightarrow> nat set \<Rightarrow> u32 \<Rightarrow> uheap \<Rightarrow> u32 list \<Rightarrow> bool" where
  "allocated n F r t ys = (heap_ok t ys \<and> h_size (hdr t (r - 8)) = n \<and> block_ok t ys (r - 8) \<and>
     free_bytes (hdr t) ys \<union> bytes (hdr t) (r - 8) = F)"

lemma take_exact:
  assumes ok: "heap_ok s (us @ q # p # ws)" and n: "h_size (hdr s p) = n" "0 < n"
  shows "\<exists>r t. take_block n q p s = (r, t) \<and> allocated n (free_bytes (hdr s) (us @ q # p # ws)) r t (us @ q # ws) \<and>
    brk t = brk s \<and> base t = base s"
proof -
  let ?xs = "us @ q # p # ws" and ?ys = "us @ q # ws" and ?h = "hdr s"
  let ?g = "?h(q := (?h q)\<lparr>h_ptr := h_ptr (?h p)\<rparr>)"
  let ?t = "s\<lparr>hdr := ?g, freep := q\<rparr>"
  have r: "free_ring ?h ?xs" and bo: "blocks_ok (unat (brk s)) (base s) ?h ?xs" and b0: "h_size (?h (base s)) = 0" "hd ?xs = base s"
    using ok by (auto simp: heap_ok_def)
  note d = ring_distinct [OF r]
  have sz: "h_size (?g x) = h_size (?h x)" for x by simp
  have fg: "fin ?g = fin ?h" "bytes ?g = bytes ?h" "before ?g = before ?h" "free_bytes ?g = free_bytes ?h"
    by (rule same_sizes, rule sz)+
  have so: "sorted_wrt (before ?h) ?xs" using r by (simp add: free_ring_def)
  have hd: "hd ?ys = hd ?xs" by (cases us) auto
  have l: "linked ?h us q" "h_ptr (?h p) = hd (ws @ [hd ?xs])" "linked ?h ws (hd ?xs)"
    using r by (auto simp: free_ring_def linked_append)
  have "linked ?g us q" "linked ?g ws (hd ?xs)" using l(1,3) d by (subst linked_cong; auto)+
  then have "linked ?g ?ys (hd ?ys)" using l(2) unfolding hd by (simp add: linked_append)
  moreover have "sorted_wrt (before ?g) ?ys" unfolding fg using so by (auto simp: sorted_wrt_append)
  ultimately have "free_ring ?g ?ys" by (simp add: free_ring_def)
  moreover have "blocks_ok (unat (brk s)) (base s) ?g ?ys" using bo by (auto simp: blocks_ok_def fg)
  ultimately have hk: "heap_ok ?t ?ys" using ok hd by (auto simp: heap_ok_def)
  have np: "p \<noteq> base s" using b0 n by auto
  have pb: "base s < p" using so hd b0 by (cases us) (auto simp: before_def sorted_wrt_append)
  have "bytes ?h p \<inter> free_bytes ?h ?ys = {}"
    using ring_disjoint [OF so, of p] d by (fastforce simp: free_bytes_def)
  then have "block_ok ?t ?ys p" using bo pb d np by (auto simp: block_ok_def fg blocks_ok_def)
  moreover have "free_bytes ?h ?ys \<union> bytes ?h p = free_bytes ?h ?xs"
    by (auto simp: free_bytes_append free_bytes_Cons)
  ultimately have "allocated n (free_bytes ?h ?xs) (p + 8) ?t ?ys" using hk n by (auto simp: allocated_def fg)
  moreover have "take_block n q p s = (p + 8, ?t)" using n by (simp add: take_block_def Let_def)
  ultimately show ?thesis by auto
qed

lemma take_split:
  assumes ok: "heap_ok s xs" and p: "p \<in> set xs" and q: "q \<in> set xs" and n: "n < h_size (hdr s p)" "0 < n"
  shows "\<exists>r t. take_block n q p s = (r, t) \<and> allocated n (free_bytes (hdr s) xs) r t xs \<and> brk t = brk s \<and> base t = base s"
proof -
  let ?h = "hdr s"
  define rest where "rest = h_size (?h p) - n"
  define b where "b = p + 8 * rest"
  let ?g = "?h(p := (?h p)\<lparr>h_size := rest\<rparr>, b := (?h b)\<lparr>h_size := n\<rparr>)"
  let ?t = "s\<lparr>hdr := ?g, freep := q\<rparr>"
  have r: "free_ring ?h xs" and bo: "blocks_ok (unat (brk s)) (base s) ?h xs" and b0: "h_size (?h (base s)) = 0" "hd xs = base s"
    using ok by (auto simp: heap_ok_def)
  have so: "sorted_wrt (before ?h) xs" and ne: "xs \<noteq> []" using r by (auto simp: free_ring_def)
  note d = ring_distinct [OF r]
  have lim: "fin ?h p \<le> unat (brk s)" "unat (brk s) < 2 ^ 32" using bo p unat_lt2p [of "brk s"] by (auto simp: blocks_ok_def)
  have ur: "unat rest = unat (h_size (?h p)) - unat n" using n by (simp add: rest_def unat_sub order_less_imp_le)
  have un: "unat n < unat (h_size (?h p))" "0 < unat n" using n by (auto simp: word_less_nat_alt)
  have ub: "unat b = unat p + 8 * unat rest"
  proof -
    have "unat p + 8 * unat rest < 2 ^ 32" using lim ur by (simp add: fin_def)
    then show ?thesis by (simp add: b_def unat_word_ariths)
  qed
  have pb: "p < b" "0 < rest" using ub ur un by (auto simp: word_less_nat_alt)
  have fb: "unat b + 8 * unat n = fin ?h p" using ub ur un by (simp add: fin_def)
  have nb: "b \<notin> set xs"
  proof
    assume b: "b \<in> set xs"
    then have "bytes ?h p \<inter> bytes ?h b = {}" using ring_disjoint [OF so p] pb by auto
    moreover have "unat b \<in> bytes ?h p" using ub fb un by (simp add: bytes_def)
    moreover have "b \<noteq> base s" using so b0 ne p pb by (cases xs) (auto simp: before_def)
    then have "unat b \<in> bytes ?h b" using bo b by (auto simp: blocks_ok_def bytes_def size_fin)
    ultimately show False by blast
  qed
  have np: "p \<noteq> base s" using b0 n by auto
  have fp: "fin ?g p = unat b" and fbb: "fin ?g b = fin ?h p" using pb ub fb by (auto simp: fin_def)
  have fo: "fin ?g x = fin ?h x" if "x \<noteq> p" "x \<noteq> b" for x using that by (simp add: fin_def)
  have le: "fin ?g x \<le> fin ?h x" if "x \<in> set xs" for x
  proof (cases "x = p")
    case False
    moreover have "x \<noteq> b" using that nb by auto
    ultimately show ?thesis using fo [of x] by simp
  qed (use fp fb in simp)
  have "linked ?g xs (hd xs) = linked ?h xs (hd xs)" by (rule linked_cong) simp
  then have "linked ?g xs (hd xs)" using r by (simp add: free_ring_def)
  moreover have "sorted_wrt (before ?g) xs"
    by (rule sorted_wrt_mono_rel [OF _ so]) (use le in \<open>force simp: before_def\<close>)
  ultimately have "free_ring ?g xs" using ne by (simp add: free_ring_def)
  moreover have "blocks_ok (unat (brk s)) (base s) ?g xs"
    unfolding blocks_ok_def
  proof
    fix x assume x: "x \<in> set xs"
    then show "8 dvd unat x \<and> fin ?g x \<le> unat (brk s) \<and> (x \<noteq> base s \<longrightarrow> 0 < h_size (?g x))"
      using bo le [OF x] nb pb(2) by (cases "x = p") (auto simp: blocks_ok_def)
  qed
  moreover have "h_size (?g (base s)) = 0" "b \<noteq> base s" using b0 np nb hd_in_set [OF ne] by auto
  ultimately have hk: "heap_ok ?t xs" using ok q by (auto simp: heap_ok_def)
  have bys: "bytes ?g p \<union> bytes ?g b = bytes ?h p" "bytes ?g p \<inter> bytes ?g b = {}"
    using fp fbb pb(1) fb un by (auto simp: bytes_def word_less_nat_alt)
  have bo': "bytes ?g x = bytes ?h x" if "x \<in> set xs" "x \<noteq> p" for x
  proof -
    have "x \<noteq> b" using that nb by auto
    then show ?thesis using fo [OF that(2)] by (simp add: bytes_def)
  qed
  have fu: "free_bytes ?g xs \<union> bytes ?g b = free_bytes ?h xs"
    using bys bo' p unfolding free_bytes_def by (auto; metis Un_iff)
  have dj: "bytes ?g b \<inter> free_bytes ?g xs = {}"
  proof -
    have "bytes ?g b \<inter> bytes ?g x = {}" if "x \<in> set xs" for x
      using bys ring_disjoint [OF so p that] bo' [OF that] by (cases "x = p") auto
    then show ?thesis by (auto simp: free_bytes_def)
  qed
  have pa: "8 dvd unat p" "base s \<le> p" using bo p so b0 ne by (cases xs; auto simp: blocks_ok_def before_def)+
  have "block_ok ?t xs b"
    unfolding block_ok_def using dj nb pa pb(1) fbb lim n ub by auto
  then have "allocated n (free_bytes ?h xs) (b + 8) ?t xs" using hk fu by (simp add: allocated_def)
  moreover have "8 * rest \<noteq> 0" using pb(1) by (auto simp: b_def)
  then have "take_block n q p s = (b + 8, ?t)"
    using n pb by (auto simp: take_block_def Let_def rest_def [symmetric] b_def [symmetric])
  ultimately show ?thesis by auto
qed

text \<open>The walk of \<open>malloc_loop\<close> along the ring, from the block behind \<open>freep\<close> round to \<open>freep\<close>.\<close>

lemma malloc_loop_found:
  assumes "linked (hdr s) (q # ys) z" and "\<exists>x \<in> set ys. n \<le> h_size (hdr s x)" and "freep s \<notin> set (butlast ys)"
    and "length ys \<le> k"
  shows "\<exists>q' p. q' \<in> set (q # ys) \<and> p \<in> set ys \<and> h_ptr (hdr s q') = p \<and> n \<le> h_size (hdr s p) \<and>
    malloc_loop k fuel grant n q (hd (ys @ [z])) s = Some (take_block n q' p s)"
  using assms
proof (induction ys arbitrary: q k)
  case Nil
  then show ?case by simp
next
  case (Cons y ys)
  obtain k' where k: "k = Suc k'" using Cons.prems by (cases k) auto
  show ?case
  proof (cases "n \<le> h_size (hdr s y)")
    case True
    then show ?thesis using Cons.prems k by (intro exI [of _ q] exI [of _ y]) auto
  next
    case False
    then have e: "\<exists>x \<in> set ys. n \<le> h_size (hdr s x)" and ne: "ys \<noteq> []" using Cons.prems by auto
    then have y: "y \<noteq> freep s" "freep s \<notin> set (butlast ys)" using Cons.prems by auto
    have "\<exists>q' p. q' \<in> set (y # ys) \<and> p \<in> set ys \<and> h_ptr (hdr s q') = p \<and> n \<le> h_size (hdr s p) \<and>
        malloc_loop k' fuel grant n y (hd (ys @ [z])) s = Some (take_block n q' p s)"
      by (rule Cons.IH) (use Cons.prems e y k in auto)
    moreover have "h_ptr (hdr s y) = hd (ys @ [z])" using Cons.prems by simp
    ultimately show ?thesis using False y k by auto
  qed
qed

lemma malloc_loop_round:
  assumes "linked (hdr s) (q # ys @ [freep s]) z" and "\<forall>x \<in> set (ys @ [freep s]). h_size (hdr s x) < n" and "freep s \<notin> set ys"
  shows "malloc_loop (Suc (length ys + k)) fuel grant n q (hd (ys @ [freep s])) s =
    (case morecore fuel grant n s of None \<Rightarrow> None
     | Some (p, t) \<Rightarrow> if p = 0 then Some (0, t) else malloc_loop k fuel grant n p (h_ptr (hdr t p)) t)"
  using assms
proof (induction ys arbitrary: q)
  case Nil
  then have "\<not> n \<le> h_size (hdr s (freep s))" by (simp add: not_le)
  then show ?case using Nil by (simp del: not_le)
next
  case (Cons y ys)
  have y: "y \<noteq> freep s" "\<not> n \<le> h_size (hdr s y)" using Cons.prems by (auto simp: not_le)
  have n: "h_ptr (hdr s y) = hd (ys @ [freep s])" using Cons.prems by (cases ys) auto
  have "malloc_loop (Suc (length (y # ys) + k)) fuel grant n q (hd ((y # ys) @ [freep s])) s =
      malloc_loop (Suc (length ys + k)) fuel grant n y (hd (ys @ [freep s])) s"
    using y n by simp
  also have "\<dots> = (case morecore fuel grant n s of None \<Rightarrow> None
     | Some (p, t) \<Rightarrow> if p = 0 then Some (0, t) else malloc_loop k fuel grant n p (h_ptr (hdr t p)) t)"
    by (rule Cons.IH) (use Cons.prems in auto)
  finally show ?case .
qed

text \<open>The ring, cut behind \<open>freep\<close>.\<close>

lemma ring_from:
  assumes r: "free_ring h xs" and f: "f \<in> set xs"
  obtains ys where "set (ys @ [f]) = set xs" and "length (ys @ [f]) = length xs" and "f \<notin> set ys"
    and "linked h (f # ys @ [f]) (h_ptr (h f))" and "h_ptr (h f) = hd (ys @ [f])"
proof -
  obtain us vs where s: "xs = us @ f # vs" using f by (meson split_list)
  note d = ring_distinct [OF r]
  have l: "linked h us f" "h_ptr (h f) = hd (vs @ [hd xs])" "linked h vs (hd xs)"
    using r s by (auto simp: free_ring_def linked_append)
  have z: "hd xs = hd (us @ [f])" using s by (cases us) auto
  have n: "h_ptr (h f) = hd ((vs @ us) @ [f])" using l(2) z by (cases vs) auto
  have "linked h (vs @ us @ [f]) (h_ptr (h f))" using l z by (simp add: linked_append hd_append split: if_splits)
  then have "linked h (f # (vs @ us) @ [f]) (h_ptr (h f))" using n by (auto simp: hd_append)
  then show ?thesis using that [of "vs @ us"] s d n by auto
qed

lemma take_any:
  assumes ok: "heap_ok s xs" and q: "q \<in> set xs" and p: "p \<in> set xs" "h_ptr (hdr s q) = p" and n: "n \<le> h_size (hdr s p)" "0 < n"
  shows "\<exists>r t ys. take_block n q p s = (r, t) \<and> allocated n (free_bytes (hdr s) xs) r t ys \<and> brk t = brk s \<and> base t = base s"
proof (cases "h_size (hdr s p) = n")
  case True
  obtain us vs where s: "xs = us @ q # vs" using q by (meson split_list)
  have l: "p = hd (vs @ [hd xs])" using ok p s by (simp add: heap_ok_def free_ring_def linked_append)
  have "p \<noteq> hd xs" using ok n by (auto simp: heap_ok_def)
  then obtain ws where "vs = p # ws" using l by (cases vs) auto
  then show ?thesis using take_exact [of s us q p ws n] ok s True n by blast
next
  case False
  then show ?thesis using take_split [OF ok p(1) q] n by (metis order_le_less)
qed

text \<open>What \<open>malloc\<close> can rely on when the kernel grants memory: the process does not outgrow its address space.\<close>

definition grant_ok :: "(u32 \<Rightarrow> u32 \<Rightarrow> bool) \<Rightarrow> bool" where
  "grant_ok grant = (\<forall>b n. grant b n \<longrightarrow> unat b + unat n < 2 ^ 32 - 1)"

lemma morecore_ok:
  assumes ok: "heap_ok s xs" and g: "grant_ok grant" and k: "length xs \<le> fuel" and n: "0 < n" "unat n < 2 ^ 29"
  defines "nu \<equiv> (if n < 4096 then 4096 else n)"
  shows "if grant (brk s) (nu * 8)
    then \<exists>t ys. morecore fuel grant n s = Some (freep t, t) \<and> heap_ok t ys \<and> freep t \<noteq> 0 \<and> length ys \<le> Suc (length xs) \<and>
      brk t = brk s + nu * 8 \<and> base t = base s \<and>
      free_bytes (hdr t) ys = free_bytes (hdr s) xs \<union> {unat (brk s)..<unat (brk t)} \<and> (\<exists>x \<in> set ys. n \<le> h_size (hdr t x))
    else morecore fuel grant n s = Some (0, s)"
proof (cases "grant (brk s) (nu * 8)")
  case False
  then show ?thesis by (simp add: morecore_def sbrk_def nu_def [symmetric] Let_def)
next
  case True
  let ?p = "brk s"
  have un: "unat (nu * 8) = unat nu * 8" "n \<le> nu" "0 < unat nu"
    using n by (auto simp: nu_def unat_word_ariths word_less_nat_alt word_le_nat_alt split: if_splits)
  have lim: "unat ?p + unat nu * 8 < 2 ^ 32 - 1" using g True un by (metis grant_ok_def)
  moreover have "unat (- 1 :: u32) = 2 ^ 32 - 1" by (simp add: unsigned_minus_1_eq_mask mask_eq_exp_minus_1)
  ultimately have np: "?p \<noteq> - 1" by auto
  let ?s = "s\<lparr>brk := ?p + nu * 8, hdr := (hdr s)(?p := (hdr s ?p)\<lparr>h_size := nu\<rparr>)\<rparr>"
  have nb: "unat (?p + nu * 8) = unat ?p + unat nu * 8" using lim un by (simp add: unat_word_ariths)
  have bel: "x < ?p" if "x \<in> set xs" for x
  proof (cases "x = base s")
    case True
    then show ?thesis using ok by (simp add: heap_ok_def)
  next
    case False
    then have "unat x < fin (hdr s) x" "fin (hdr s) x \<le> unat ?p" using ok that by (auto simp: heap_ok_def blocks_ok_def size_fin)
    then show ?thesis by (simp add: word_less_nat_alt)
  qed
  then have nin: "?p \<notin> set xs" by auto
  have fo: "fin (hdr ?s) x = fin (hdr s) x" if "x \<in> set xs" for x using that nin by (auto simp: fin_def)
  have bo: "bytes (hdr ?s) x = bytes (hdr s) x" if "x \<in> set xs" for x using fo [OF that] by (simp add: bytes_def)
  have fb: "free_bytes (hdr ?s) xs = free_bytes (hdr s) xs" using bo by (simp add: free_bytes_def)
  have "linked (hdr ?s) xs (hd xs) = linked (hdr s) xs (hd xs)" by (rule linked_cong) simp
  moreover have "sorted_wrt (before (hdr s)) xs" using ok by (simp add: heap_ok_def free_ring_def)
  then have "sorted_wrt (before (hdr ?s)) xs"
    by (rule sorted_wrt_mono_rel [rotated]) (use fo in \<open>simp add: before_def\<close>)
  ultimately have "free_ring (hdr ?s) xs" using ok unfolding heap_ok_def free_ring_def by metis
  moreover have "blocks_ok (unat (brk ?s)) (base s) (hdr ?s) xs"
    using ok fo nin nb by (fastforce simp: heap_ok_def blocks_ok_def)
  moreover have "8 dvd unat (brk ?s)" using ok nb by (simp add: heap_ok_def)
  moreover have "base s < brk ?s" using ok nb by (simp add: heap_ok_def word_less_nat_alt)
  ultimately have ok': "heap_ok ?s xs" using ok by (auto simp: heap_ok_def)
  have fp: "fin (hdr ?s) ?p = unat (brk ?s)" using nb by (simp add: fin_def)
  have dj: "bytes (hdr ?s) ?p \<inter> free_bytes (hdr ?s) xs = {}"
    using ok unfolding fb by (fastforce simp: free_bytes_def bytes_def heap_ok_def blocks_ok_def)
  have "block_ok ?s xs (?p + 8 - 8)"
    using ok dj nin un fp by (simp add: block_ok_def heap_ok_def word_less_nat_alt)
  from free_returns_block [OF ok' this k] obtain t ys where t: "free fuel (?p + 8) ?s = Some t" "heap_ok t ys"
    "brk t = brk ?s" "base t = base s" "free_bytes (hdr t) ys = free_bytes (hdr ?s) xs \<union> bytes (hdr ?s) ?p" "length ys \<le> Suc (length xs)"
    and x: "\<exists>x \<in> set ys. bytes (hdr ?s) ?p \<subseteq> bytes (hdr t) x"
    by auto
  have bp: "bytes (hdr ?s) ?p = {unat ?p..<unat (brk t)}" using fp t(3) by (simp add: bytes_def)
  have "unat (brk t) = unat ?p + unat nu * 8" using nb t(3) by simp
  then obtain x where x: "x \<in> set ys" "{unat ?p..<unat ?p + unat nu * 8} \<subseteq> {unat x..<fin (hdr t) x}"
    using x unfolding bp unfolding bytes_def by metis
  then have "unat nu * 8 \<le> fin (hdr t) x - unat x" using un(3) by (simp add: ivl_subset) linarith
  then have "n \<le> h_size (hdr t x)" using un(2) by (simp add: fin_def word_le_nat_alt)
  moreover have "freep t \<noteq> 0"
  proof -
    have "sorted_wrt (<) ys" "ys \<noteq> []" "hd ys = base t" "base t \<noteq> 0" "freep t \<in> set ys"
      using t(2) sorted_before_less by (auto simp: heap_ok_def free_ring_def)
    then show ?thesis by (cases ys) auto
  qed
  moreover have "morecore fuel grant n s = Some (freep t, t)"
    using True t(1) np by (simp add: morecore_def sbrk_def nu_def [symmetric] Let_def)
  ultimately show ?thesis using True t x(1) bp fb by auto
qed

text \<open>The heap before the first \<open>malloc\<close> has no ring yet; it counts as the ring of \<open>base\<close> alone.\<close>

definition started :: "uheap \<Rightarrow> uheap" where
  "started s = (if freep s = 0 then s\<lparr>hdr := (hdr s)(base s := \<lparr>h_ptr = base s, h_size = 0\<rparr>), freep := base s\<rparr> else s)"


text \<open>A process of four pages whose allocator was not used yet, and a kernel that grants up to \<open>USERTOP\<close>.\<close>

definition fresh :: uheap where
  "fresh = \<lparr>hdr = (\<lambda>_. \<lparr>h_ptr = 0, h_size = 0\<rparr>), base = 0x1000, freep = 0, brk = 0x4000\<rparr>"

definition usertop_grant :: "u32 \<Rightarrow> u32 \<Rightarrow> bool" where
  "usertop_grant b n = (unat b + unat n \<le> 0xA0000)"

lemma fresh_ok: "heap_ok (started fresh) [0x1000]" "grant_ok usertop_grant"
  by (auto simp: heap_ok_def started_def fresh_def free_ring_def blocks_ok_def fin_def grant_ok_def usertop_grant_def)


theorem free_returns_block_witness:
  "\<exists>t ys. free 1 0x2008 ((started fresh)\<lparr>hdr := (hdr (started fresh))(0x2000 := \<lparr>h_ptr = 0, h_size = 2\<rparr>)\<rparr>) = Some t \<and>
     heap_ok t ys \<and> free_bytes (hdr t) ys = {0x2000..<0x2010}"
proof -
  let ?s = "(started fresh)\<lparr>hdr := (hdr (started fresh))(0x2000 := \<lparr>h_ptr = 0, h_size = 2\<rparr>)\<rparr>"
  have "heap_ok ?s [0x1000]" "block_ok ?s [0x1000] (0x2008 - 8)" "free_bytes (hdr ?s) [0x1000] = {}"
    "bytes (hdr ?s) (0x2008 - 8) = {0x2000..<0x2010}"
    by (auto simp: heap_ok_def started_def fresh_def free_ring_def blocks_ok_def fin_def block_ok_def bytes_def free_bytes_def)
  then show ?thesis using free_returns_block [of ?s "[0x1000]" "0x2008" 1] by (auto simp del: fun_upd_apply)
qed

text \<open>
  The size computations of \<open>malloc\<close> and \<open>morecore\<close> wrap around: a first request for
  \<open>0xFFFFFFF8\<close> bytes asks the kernel for an extension of 0 bytes, which it grants, and returns the
  address 8 bytes behind the end of the process, as if four gigabytes were there.
\<close>

theorem malloc_wraps:
  assumes "freep s = 0" and "base s \<noteq> 0" and "base s < brk s" and "brk s \<noteq> - 1" and "grant (brk s) 0"
  shows "\<exists>t. malloc 2 grant 0xFFFFFFF8 s = Some (brk s + 8, t) \<and> brk t = brk s"
proof -
  let ?n = "0x20000000 :: u32" and ?b = "base s" and ?p = "brk s"
  have nu: "(0xFFFFFFF8 + 8 - 1 :: u32) div 8 + 1 = ?n" "?n * 8 = 0" "8 * ?n = 0" and z: "(4294967296 :: u32) = 0" by simp_all
  have lt: "?p \<noteq> ?b" "\<not> ?p < ?b" using assms(3) by auto
  define s1 where "s1 = s\<lparr>hdr := (hdr s)(?b := \<lparr>h_ptr = ?b, h_size = 0\<rparr>), freep := ?b\<rparr>"
  define h where "h = (hdr s1)(?p := (hdr s1 ?p)\<lparr>h_size := ?n\<rparr>)"
  define t where "t = s1\<lparr>hdr := h(?p := (h ?p)\<lparr>h_ptr := ?b\<rparr>, ?b := (h ?b)\<lparr>h_ptr := ?p\<rparr>)\<rparr>"
  have hb: "h ?b = \<lparr>h_ptr = ?b, h_size = 0\<rparr>" "h_size (h ?p) = ?n" using lt(1) by (simp_all add: h_def s1_def)
  have j: "free_join h ?p ?b = h(?p := (h ?p)\<lparr>h_ptr := ?b\<rparr>, ?b := (h ?b)\<lparr>h_ptr := ?p\<rparr>)"
    using lt(1) hb by (simp add: free_join_def Let_def z)
  have fl: "free_loop 2 h ?p ?b = Some ?b"
    using assms(3) hb(1) unfolding numeral_2_eq_2 by simp
  have f: "free 2 (?p + 8) (s1\<lparr>hdr := h\<rparr>) = Some t"
    using fl j by (simp add: free_def t_def s1_def Let_def)
  have m: "morecore 2 grant ?n s1 = Some (?b, t)"
    using f assms(4,5) by (simp add: morecore_def sbrk_def Let_def h_def s1_def t_def z)
  have "malloc 2 grant 0xFFFFFFF8 s = malloc_loop (Suc 1) 2 grant ?n ?b ?b s1"
    using assms(1) nu(1) unfolding malloc_def Let_def s1_def by (simp add: numeral_2_eq_2)
  also have "\<dots> = malloc_loop 1 2 grant ?n ?b ?p t"
    using m assms(2) hb(1) by (simp add: s1_def t_def h_def)
  also have "\<dots> = Some (take_block ?n ?b ?p t)" using hb lt(1) by (simp add: t_def s1_def)
  finally show ?thesis using hb lt(1) by (simp add: take_block_def t_def s1_def)
qed

theorem malloc_wraps_witness:
  "\<exists>t. malloc 2 usertop_grant 0xFFFFFFF8 fresh = Some (0x4008, t) \<and> brk t = 0x4000"
  using malloc_wraps [of fresh usertop_grant] by (simp add: fresh_def usertop_grant_def)

end
