(* ===== verification/Grep.thy ===== *)
theory Grep
  imports C_String
begin

text \<open>
  The user program \<open>grep\<close> (\<open>user/grep.c\<close>): the matcher for the operators \<open>^ . * $\<close> and the loop
  that cuts the input into lines. Patterns and texts are the bytes before the terminating NUL.
\<close>

section \<open>The matcher\<close>

function matchhere :: "u8 list \<Rightarrow> u8 list \<Rightarrow> bool"
  and matchstar :: "u8 \<Rightarrow> u8 list \<Rightarrow> u8 list \<Rightarrow> bool" where
  "matchhere re tx =
     (case re of [] \<Rightarrow> True
      | r # re1 \<Rightarrow>
          if re1 \<noteq> [] \<and> hd re1 = 42 then matchstar r (tl re1) tx
          else if r = 36 \<and> re1 = [] then tx = []
          else if tx \<noteq> [] \<and> (r = 46 \<or> r = hd tx) then matchhere re1 (tl tx)
          else False)"
| "matchstar c re tx =
     (if matchhere re tx then True
      else if tx \<noteq> [] \<and> (hd tx = c \<or> c = 46) then matchstar c re (tl tx)
      else False)"
  by pat_completeness auto
termination
  by (relation "measures [\<lambda>x. case x of Inl (re, tx) \<Rightarrow> length re | Inr (c, re, tx) \<Rightarrow> length re,
      \<lambda>x. case x of Inl (re, tx) \<Rightarrow> length tx | Inr (c, re, tx) \<Rightarrow> length tx,
      \<lambda>x. case x of Inl _ \<Rightarrow> 0 | Inr _ \<Rightarrow> 1]") auto

declare matchhere.simps [simp del] matchstar.simps [simp del]

fun match_from :: "u8 list \<Rightarrow> u8 list \<Rightarrow> bool" where
  "match_from re [] = matchhere re []"
| "match_from re (t # ts) = (matchhere re (t # ts) \<or> match_from re ts)"

definition match :: "u8 list \<Rightarrow> u8 list \<Rightarrow> bool" where
  "match re tx =
     (case re of [] \<Rightarrow> match_from re tx
      | r # re1 \<Rightarrow> if r = 94 then matchhere re1 tx else match_from re tx)"

section \<open>Lines\<close>

text \<open>
  The static buffer \<open>buf\<close> of 1024 bytes. \<open>strchr(p, '\n')\<close> in it: the outer \<open>None\<close> is a scan
  that leaves the buffer, the inner one the null pointer.
\<close>

definition BUF :: nat where "BUF = 1024"

definition strchr_nl :: "(nat \<Rightarrow> u8) \<Rightarrow> nat \<Rightarrow> nat option option" where
  "strchr_nl buf p =
     (case find (\<lambda>i. buf i = 10 \<or> buf i = 0) [p..<BUF] of
        None \<Rightarrow> None
      | Some i \<Rightarrow> Some (if buf i = 10 then Some i else None))"

lemma strchr_nl_bounds: "strchr_nl buf p = Some (Some q) \<Longrightarrow> p \<le> q \<and> q < BUF"
  by (auto simp: strchr_nl_def split: option.splits if_splits dest: find_SomeD)

text \<open>The loop over the lines in the buffer; \<open>out\<close> collects what is written.\<close>

function grep_lines :: "u8 list \<Rightarrow> (nat \<Rightarrow> u8) \<Rightarrow> nat \<Rightarrow> u8 list list \<Rightarrow> ((nat \<Rightarrow> u8) \<times> nat \<times> u8 list list) option" where
  "grep_lines pattern buf p out =
     (case strchr_nl buf p of
        None \<Rightarrow> None
      | Some None \<Rightarrow> Some (buf, p, out)
      | Some (Some q) \<Rightarrow>
          (let line = map buf [p..<q] in
           if match pattern line then grep_lines pattern (buf(q := 10)) (q + 1) (out @ [line @ [10]])
           else grep_lines pattern (buf(q := 0)) (q + 1) out))"
  by pat_completeness auto
termination
  by (relation "measure (\<lambda>(pattern, buf, p, out). BUF - p)") (auto dest!: strchr_nl_bounds)

declare grep_lines.simps [simp del]

text \<open>
  \<open>grep\<close> on the results of its calls of \<open>read\<close>; a call returns at most the bytes asked for, and an
  empty result ends the loop. \<open>m\<close> is signed; a read to an address before the buffer is undefined.
\<close>

fun grep :: "u8 list \<Rightarrow> u8 list list \<Rightarrow> (nat \<Rightarrow> u8) \<Rightarrow> int \<Rightarrow> u8 list list \<Rightarrow> u8 list list option" where
  "grep pattern [] buf m out = Some out"
| "grep pattern (cs # css) buf m out =
     (if cs = [] \<or> m = int BUF then Some out
      else if m < 0 \<or> int BUF - m < int (length cs) then None
      else
        (let buf1 = (\<lambda>i. if m \<le> int i \<and> int i < m + int (length cs) then cs ! (i - nat m) else buf i) in
         case grep_lines pattern buf1 0 out of
           None \<Rightarrow> None
         | Some (buf2, p, out2) \<Rightarrow>
             (let m1 = (if p = 0 then 0 else m + int (length cs)) in
              if 0 < m1 then grep pattern css (umemmove buf2 0 p (m1 - int p)) (m1 - int p) out2
              else grep pattern css buf2 m1 out2)))"

section \<open>What a pattern means\<close>

datatype item = One u8 | Many u8 | Eol

fun items :: "u8 list \<Rightarrow> item list" where
  "items [] = []"
| "items [r] = (if r = 36 then [Eol] else [One r])"
| "items (r # s # re) = (if s = 42 then Many r # items re else One r # items (s # re))"

definition fits :: "u8 \<Rightarrow> u8 \<Rightarrow> bool" where
  "fits r c = (r = 46 \<or> r = c)"

text \<open>\<open>denotes is w rest\<close>: the items describe the bytes \<open>w\<close> when \<open>rest\<close> follows them on the line.\<close>

inductive denotes :: "item list \<Rightarrow> u8 list \<Rightarrow> u8 list \<Rightarrow> bool" where
  Nil: "denotes [] [] rest"
| One: "fits r c \<Longrightarrow> denotes is w rest \<Longrightarrow> denotes (One r # is) (c # w) rest"
| Many: "list_all (fits r) cs \<Longrightarrow> denotes is w rest \<Longrightarrow> denotes (Many r # is) (cs @ w) rest"
| Eol: "denotes is [] [] \<Longrightarrow> denotes (Eol # is) [] []"

inductive_cases denotes_Nil [elim!]: "denotes [] w rest"
inductive_cases denotes_One [elim!]: "denotes (One r # is) w rest"
inductive_cases denotes_Many [elim!]: "denotes (Many r # is) w rest"
inductive_cases denotes_Eol [elim!]: "denotes (Eol # is) w rest"

definition begins :: "item list \<Rightarrow> u8 list \<Rightarrow> bool" where
  "begins is tx = (\<exists>w rest. tx = w @ rest \<and> denotes is w rest)"

lemma begins_Nil: "begins [] tx"
  by (auto simp: begins_def intro: denotes.Nil)

lemma begins_One: "begins (One r # is) tx = (\<exists>c ts. tx = c # ts \<and> fits r c \<and> begins is ts)"
proof
  assume "\<exists>c ts. tx = c # ts \<and> fits r c \<and> begins is ts"
  then show "begins (One r # is) tx" unfolding begins_def by (metis append_Cons denotes.One)
next
  assume "begins (One r # is) tx"
  then show "\<exists>c ts. tx = c # ts \<and> fits r c \<and> begins is ts" unfolding begins_def by (metis append_Cons denotes_One)
qed

lemma begins_Eol: "begins [Eol] tx = (tx = [])"
  by (auto simp: begins_def intro!: denotes.intros)

lemma begins_Star: "begins (Many r # is) tx = (\<exists>cs ts. tx = cs @ ts \<and> list_all (fits r) cs \<and> begins is ts)"
proof
  assume "\<exists>cs ts. tx = cs @ ts \<and> list_all (fits r) cs \<and> begins is ts"
  then show "begins (Many r # is) tx" unfolding begins_def by (metis append_assoc denotes.Many)
next
  assume "begins (Many r # is) tx"
  then show "\<exists>cs ts. tx = cs @ ts \<and> list_all (fits r) cs \<and> begins is ts"
    unfolding begins_def by (metis append_assoc denotes_Many)
qed

lemmas begins_simps = begins_Nil begins_One begins_Eol begins_Star

lemma begins_Many:
  "begins (Many r # is) tx = (begins is tx \<or> (\<exists>c ts. tx = c # ts \<and> fits r c \<and> begins (Many r # is) ts))"
proof
  assume "begins (Many r # is) tx"
  then obtain cs ts where h: "tx = cs @ ts" "list_all (fits r) cs" "begins is ts" by (auto simp: begins_simps)
  show "begins is tx \<or> (\<exists>c ts. tx = c # ts \<and> fits r c \<and> begins (Many r # is) ts)"
  proof (cases cs)
    case Nil
    then show ?thesis using h by simp
  next
    case (Cons c cs')
    then have "begins (Many r # is) (cs' @ ts)" using h by (auto simp: begins_simps)
    then show ?thesis using h Cons by auto
  qed
next
  assume "begins is tx \<or> (\<exists>c ts. tx = c # ts \<and> fits r c \<and> begins (Many r # is) ts)"
  then show "begins (Many r # is) tx"
    unfolding begins_Star
  proof
    assume "begins is tx"
    then show "\<exists>cs ts. tx = cs @ ts \<and> list_all (fits r) cs \<and> begins is ts" by (intro exI [of _ "[]"] exI [of _ tx]) simp
  next
    assume "\<exists>c ts. tx = c # ts \<and> fits r c \<and> (\<exists>cs ts'. ts = cs @ ts' \<and> list_all (fits r) cs \<and> begins is ts')"
    then obtain c cs ts' where "tx = c # cs @ ts'" "fits r c" "list_all (fits r) cs" "begins is ts'" by blast
    then show "\<exists>cs ts. tx = cs @ ts \<and> list_all (fits r) cs \<and> begins is ts"
      by (intro exI [of _ "c # cs"] exI [of _ ts']) simp
  qed
qed

lemma matchhere_begins: "matchhere re tx = begins (items re) tx"
  and matchstar_begins: "matchstar c re tx = begins (Many c # items re) tx"
proof (induction re tx and c re tx rule: matchhere_matchstar.induct)
  case (1 re tx)
  show ?case
  proof (cases re rule: items.cases)
    case 1
    then show ?thesis by (simp add: matchhere.simps begins_simps)
  next
    case (2 r)
    then show ?thesis using 1(2) [of r "[]"]
      by (cases tx) (auto simp: matchhere.simps [of "[r]"] begins_simps fits_def matchhere.simps [of "[]"])
  next
    case (3 r s re')
    then show ?thesis using "1.IH"
      by (cases tx) (auto simp: matchhere.simps [of "r # s # re'"] begins_One fits_def)
  qed
next
  case (2 c re tx)
  then show ?case
    unfolding matchstar.simps [of c re tx] begins_Many [of c "items re" tx]
    by (cases tx) (auto simp: fits_def)
qed

lemma match_from_suffix: "match_from re tx = (\<exists>pre w. tx = pre @ w \<and> begins (items re) w)"
proof (induction tx)
  case Nil
  then show ?case by (simp add: matchhere_begins)
next
  case (Cons t ts)
  then show ?case by (auto simp: matchhere_begins Cons_eq_append_conv)
qed

lemma match_from_begins: "match_from re tx = (\<exists>pre w rest. tx = pre @ w @ rest \<and> denotes (items re) w rest)"
proof
  assume "match_from re tx"
  then obtain pre w where "tx = pre @ w" "begins (items re) w" unfolding match_from_suffix by (elim exE conjE)
  moreover from this(2) obtain v rest where "w = v @ rest" "denotes (items re) v rest"
    unfolding begins_def by (elim exE conjE)
  ultimately show "\<exists>pre w rest. tx = pre @ w @ rest \<and> denotes (items re) w rest"
    by (intro exI [of _ pre] exI [of _ v] exI [of _ rest]) simp
next
  assume "\<exists>pre w rest. tx = pre @ w @ rest \<and> denotes (items re) w rest"
  then obtain pre w rest where h: "tx = pre @ w @ rest" "denotes (items re) w rest" by (elim exE conjE)
  then have "begins (items re) (w @ rest)" unfolding begins_def by (intro exI [of _ w] exI [of _ rest]) simp
  then show "match_from re tx" unfolding match_from_suffix using h(1) by (intro exI conjI)
qed

text \<open>
  C21. The matcher of \<open>grep\<close> finds what the pattern describes: \<open>match\<close> accepts a line exactly when
  some part of it (from its start, for a pattern that begins with \<open>^\<close>) consists of what the items of
  the pattern describe one after the other: a character stands for itself, \<open>.\<close> for any, \<open>c*\<close> for
  any number of them, and a final \<open>$\<close> requires the end of the line.
\<close>

theorem match_iff:
  "match re tx =
     (\<exists>pre w rest. tx = pre @ w @ rest \<and>
        (if re \<noteq> [] \<and> hd re = 94 then pre = [] \<and> denotes (items (tl re)) w rest else denotes (items re) w rest))"
proof (cases re)
  case Nil
  then show ?thesis by (simp add: match_def match_from_begins)
next
  case (Cons r re1)
  then show ?thesis by (cases "r = 94") (simp_all add: match_def matchhere_begins begins_def match_from_begins)
qed

section \<open>Whole lines\<close>

function full_lines :: "u8 list \<Rightarrow> u8 list list" where
  "full_lines cs =
     (if 10 \<in> set cs then takeWhile (\<lambda>c. c \<noteq> 10) cs # full_lines (tl (dropWhile (\<lambda>c. c \<noteq> 10) cs)) else [])"
  by pat_completeness auto
termination
proof (relation "measure length", simp, clarsimp)
  fix cs :: "u8 list" assume "10 \<in> set cs"
  then show "length (dropWhile (\<lambda>c. c \<noteq> 10) cs) - Suc 0 < length cs"
    using length_dropWhile_le [of "\<lambda>c. c \<noteq> 10" cs] by (cases cs) auto
qed

declare full_lines.simps [simp del]

lemma grep_lines_full:
  assumes "p \<le> n" and "n < BUF" and "\<forall>i. p \<le> i \<and> i < n \<longrightarrow> buf i \<noteq> 0" and "buf n = 0"
  shows "\<exists>buf' p'. grep_lines pattern buf p out =
    Some (buf', p', out @ map (\<lambda>l. l @ [10]) (filter (match pattern) (full_lines (map buf [p..<n]))))"
  using assms
proof (induction pattern buf p out rule: grep_lines.induct)
  case (1 pattern buf p out)
  let ?cs = "map buf [p..<n]"
  show ?case
  proof (cases "10 \<in> set ?cs")
    case False
    then have "find (\<lambda>i. buf i = 10 \<or> buf i = 0) [p..<BUF] = Some n"
      using 1(3-6) unfolding find_Some_iff by (intro exI [of _ "n - p"]) auto
    then have "strchr_nl buf p = Some None" using 1 by (simp add: strchr_nl_def)
    then show ?thesis using False by (simp add: grep_lines.simps [of _ buf p] full_lines.simps [of ?cs])
  next
    case True
    define k where "k = length (takeWhile (\<lambda>c. c \<noteq> 10) ?cs)"
    have "takeWhile (\<lambda>c. c \<noteq> 10) ?cs \<noteq> ?cs" using True by (auto simp: takeWhile_eq_all_conv)
    then have "k \<noteq> length ?cs" unfolding k_def by (metis takeWhile_eq_take take_all order_refl)
    then have k: "k < n - p" using length_takeWhile_le [of "\<lambda>c. c \<noteq> 10" ?cs] by (simp add: k_def)
    have at: "buf (p + k) = 10" using nth_length_takeWhile [of "\<lambda>c. c \<noteq> 10" ?cs] k by (simp add: k_def [symmetric])
    have before: "buf (p + j) \<noteq> 10" if "j < k" for j
    proof -
      have "takeWhile (\<lambda>c. c \<noteq> 10) ?cs ! j \<in> set (takeWhile (\<lambda>c. c \<noteq> 10) ?cs)" using that by (intro nth_mem) (simp add: k_def)
      moreover have "takeWhile (\<lambda>c. c \<noteq> 10) ?cs ! j = ?cs ! j" using that by (intro takeWhile_nth) (simp add: k_def)
      ultimately show ?thesis using that k by (auto dest: set_takeWhileD)
    qed
    have "find (\<lambda>i. buf i = 10 \<or> buf i = 0) [p..<BUF] = Some (p + k)"
      using 1(3-6) k at before unfolding find_Some_iff by (intro exI [of _ k]) auto
    then have s: "strchr_nl buf p = Some (Some (p + k))" using at by (simp add: strchr_nl_def)
    have l: "takeWhile (\<lambda>c. c \<noteq> 10) ?cs = map buf [p..<p + k]"
    proof -
      have "takeWhile (\<lambda>c. c \<noteq> 10) ?cs = take k ?cs" unfolding k_def by (rule takeWhile_eq_take)
      then show ?thesis using k by (simp add: take_map)
    qed
    have d: "tl (dropWhile (\<lambda>c. c \<noteq> 10) ?cs) = map b [p + k + 1..<n]" if "\<And>i. p + k < i \<Longrightarrow> b i = buf i" for b
    proof -
      have "dropWhile (\<lambda>c. c \<noteq> 10) ?cs = drop k ?cs" unfolding k_def by (rule dropWhile_eq_drop)
      also have "drop k ?cs = map buf [p + k..<n]" by (simp add: drop_map)
      also have "[p + k..<n] = (p + k) # [p + k + 1..<n]" using upt_conv_Cons [of "p + k" n] k by simp
      finally show ?thesis using that by simp
    qed
    have f: "full_lines ?cs = map buf [p..<p + k] # full_lines (map b [p + k + 1..<n])"
      if "\<And>i. p + k < i \<Longrightarrow> b i = buf i" for b
      using True by (subst full_lines.simps) (simp only: l d [OF that] if_True)
    show ?thesis
    proof (cases "match pattern (map buf [p..<p + k])")
      case m: True
      have "\<exists>buf' p'. grep_lines pattern (buf(p + k := 10)) (p + k + 1) (out @ [map buf [p..<p + k] @ [10]]) =
          Some (buf', p', (out @ [map buf [p..<p + k] @ [10]]) @ map (\<lambda>l. l @ [10])
            (filter (match pattern) (full_lines (map (buf(p + k := 10)) [p + k + 1..<n]))))"
        by (rule 1(1) [OF s refl refl m]) (use 1(3-6) k in auto)
      then show ?thesis using s m f [of "buf(p + k := 10)"] by (simp add: grep_lines.simps [of _ buf p] Let_def)
    next
      case m: False
      have "\<exists>buf' p'. grep_lines pattern (buf(p + k := 0)) (p + k + 1) out =
          Some (buf', p', out @ map (\<lambda>l. l @ [10])
            (filter (match pattern) (full_lines (map (buf(p + k := 0)) [p + k + 1..<n]))))"
        by (rule 1(2) [OF s refl refl m]) (use 1(3-6) k in auto)
      then show ?thesis using s m f [of "buf(p + k := 0)"] by (simp add: grep_lines.simps [of _ buf p] Let_def)
    qed
  qed
qed

text \<open>
  On an input that one \<open>read\<close> returns, of fewer than 1024 bytes and without NUL, \<open>grep\<close> writes
  exactly the newline-terminated lines that match, in order; a last line without newline is dropped.
\<close>

theorem grep_one_read:
  assumes "length cs < BUF" and "0 \<notin> set cs"
  shows "grep pattern [cs] (\<lambda>_. 0) 0 [] = Some (map (\<lambda>l. l @ [10]) (filter (match pattern) (full_lines cs)))"
proof (cases "cs = []")
  case True
  then show ?thesis by (simp add: full_lines.simps)
next
  case False
  let ?buf = "\<lambda>i. if 0 \<le> int i \<and> int i < 0 + int (length cs) then cs ! (i - nat 0) else (0 :: u8)"
  have c: "map ?buf [0..<length cs] = cs" by (rule nth_equalityI) auto
  have nz: "cs ! i \<noteq> 0" if "i < length cs" for i using assms(2) that by (metis nth_mem)
  obtain buf' p' where "grep_lines pattern ?buf 0 [] =
      Some (buf', p', [] @ map (\<lambda>l. l @ [10]) (filter (match pattern) (full_lines (map ?buf [0..<length cs]))))"
    using grep_lines_full [of 0 "length cs" ?buf pattern "[]"] assms nz by auto
  then show ?thesis unfolding c using False assms(1) by (simp add: Let_def)
qed

theorem grep_one_read_witness:
  "grep [98, 42, 99] [[97, 98, 98, 99, 10, 120, 10, 99]] (\<lambda>_. 0) 0 [] = Some [[97, 98, 98, 99, 10]]"
  using grep_one_read [of "[97, 98, 98, 99, 10, 120, 10, 99]" "[98, 42, 99]"]
  by (simp add: BUF_def full_lines.simps match_def matchhere.simps matchstar.simps)

lemma strchr_nl_step: "strchr_nl buf p =
    (if BUF \<le> p then None else if buf p = 10 then Some (Some p) else if buf p = 0 then Some None else strchr_nl buf (p + 1))"
  unfolding strchr_nl_def by (cases "BUF \<le> p") (simp_all add: upt_conv_Cons)

lemma grep_lines_step: "grep_lines pattern buf p out =
     (case strchr_nl buf p of
        None \<Rightarrow> None
      | Some None \<Rightarrow> Some (buf, p, out)
      | Some (Some q) \<Rightarrow>
          if match pattern (map buf [p..<q]) then grep_lines pattern (buf(q := 10)) (q + 1) (out @ [map buf [p..<q] @ [10]])
          else grep_lines pattern (buf(q := 0)) (q + 1) out)"
  unfolding grep_lines.simps [of pattern buf p out] Let_def by (rule refl)

lemma strchr_nl_1: "strchr_nl buf (Suc 0) =
    (if BUF \<le> 1 then None else if buf 1 = 10 then Some (Some 1) else if buf 1 = 0 then Some None else strchr_nl buf 2)"
  unfolding One_nat_def [symmetric] by (subst strchr_nl_step) (simp only: one_add_one)

lemmas grep_eval = strchr_nl_step [of _ "numeral _"] strchr_nl_step [of _ 0] strchr_nl_1
  grep_lines_step [of _ _ "numeral _"] grep_lines_step [of _ _ 0] BUF_def Let_def umemmove_def
  match_def matchhere.simps nth_Cons'

text \<open>
  When a line spreads over two reads, \<open>grep\<close> looks at bytes left over in its buffer behind the
  ones read: for the input \<open>abc\n\<close>, \<open>d\<close> in a first read and \<open>e\<close> in a second it writes a line
  \<open>dec\<close> that the input does not have, and then reads to an address before its buffer.
\<close>

theorem grep_stale_buffer:
  "grep [46] [[97, 98, 99, 10, 100], [101]] (\<lambda>_. 0) 0 [] = Some [[97, 98, 99, 10], [100, 101, 99, 10]] \<and>
   grep [46] [[97, 98, 99, 10, 100], [101], [102]] (\<lambda>_. 0) 0 [] = None"
  by (simp add: grep_eval) (simp add: upt_rec matchhere.simps nth_Cons')

end
