(* ===== verification/Shell.thy ===== *)
theory Shell
  imports C_String
begin

text \<open>
  The parser of the shell (\<open>user/sh.c\<close>). The command line is a buffer \<open>buf\<close> with its end \<open>es\<close>;
  pointers into it are indices. A pointer to a command is the command itself: \<open>parseexec\<close> fills the
  arguments of the \<open>EXEC\<close> command it has already wrapped in redirections, which here are put around
  it at the end. A \<open>panic\<close> prints its message and exits.
\<close>

section \<open>Commands\<close>

definition MAXARGS :: nat where "MAXARGS = 10"

text \<open>A string inside the buffer is its start and its end, as in \<open>argv\<close> and \<open>eargv\<close>.\<close>

type_synonym span = "nat \<times> nat"

datatype cmd =
    EXEC "span list"
  | REDIR cmd span u32 nat
  | PIPE cmd cmd
  | LIST cmd cmd
  | BACK cmd

datatype 'a parsed = Ok 'a nat | Panics string | Stuck

definition bindp :: "'a parsed \<Rightarrow> ('a \<Rightarrow> nat \<Rightarrow> 'b parsed) \<Rightarrow> 'b parsed" where
  "bindp m f = (case m of Ok a s \<Rightarrow> f a s | Panics e \<Rightarrow> Panics e | Stuck \<Rightarrow> Stuck)"

section \<open>Tokens\<close>

definition whitespace :: "u8 list" where "whitespace = [32, 9, 13, 10, 11]"
definition symbols :: "u8 list" where "symbols = [60, 124, 62, 38, 59, 40, 41]"

definition is_in :: "u8 list \<Rightarrow> u8 \<Rightarrow> bool" where
  "is_in cs c = (strchr cs c \<noteq> None)"

text \<open>\<open>while(s < es && P(*s)) s++;\<close>\<close>

function advance :: "(u8 \<Rightarrow> bool) \<Rightarrow> mem \<Rightarrow> nat \<Rightarrow> nat \<Rightarrow> nat" where
  "advance P buf es s = (if s < es \<and> P (buf s) then advance P buf es (s + 1) else s)"
  by pat_completeness auto
termination
  by (relation "measure (\<lambda>(P, buf, es, s). es - s)") auto

declare advance.simps [simp del]

text \<open>The switch of \<open>gettoken\<close>: the token and the position behind it.\<close>

definition token_at :: "mem \<Rightarrow> nat \<Rightarrow> nat \<Rightarrow> u8 \<times> nat" where
  "token_at buf es s =
     (let c = buf s in
      if c = 0 then (0, s)
      else if c = 124 \<or> c = 40 \<or> c = 41 \<or> c = 59 \<or> c = 38 \<or> c = 60 then (c, s + 1)
      else if c = 62 then (if buf (s + 1) = 62 then (43, s + 2) else (62, s + 1))
      else (97, advance (\<lambda>c. \<not> is_in whitespace c \<and> \<not> is_in symbols c) buf es s))"

definition gettoken :: "mem \<Rightarrow> nat \<Rightarrow> nat \<Rightarrow> u8 \<times> span \<times> nat" where
  "gettoken buf es s0 =
     (let q = advance (is_in whitespace) buf es s0; (ret, eq) = token_at buf es q in
      (ret, (q, eq), advance (is_in whitespace) buf es eq))"

definition peek :: "mem \<Rightarrow> nat \<Rightarrow> nat \<Rightarrow> u8 list \<Rightarrow> bool \<times> nat" where
  "peek buf es s0 toks =
     (let s = advance (is_in whitespace) buf es s0 in (buf s \<noteq> 0 \<and> is_in toks (buf s), s))"

section \<open>The parser\<close>

text \<open>
  The recursive routines and loops take fuel; running out of it is \<open>Stuck\<close>. \<open>O_RDONLY\<close> is 0,
  \<open>O_WRONLY|O_CREATE\<close> is 0x201.
\<close>

primrec parseredirs :: "nat \<Rightarrow> mem \<Rightarrow> nat \<Rightarrow> (cmd \<Rightarrow> cmd) \<Rightarrow> nat \<Rightarrow> (cmd \<Rightarrow> cmd) parsed" where
  "parseredirs 0 buf es wrap s = Stuck"
| "parseredirs (Suc k) buf es wrap s =
     (let (b, s1) = peek buf es s [60, 62] in
      if \<not> b then Ok wrap s1
      else
        (let (tok, _, s2) = gettoken buf es s1; (a, sp, s3) = gettoken buf es s2 in
         if a \<noteq> 97 then Panics ''missing file for redirection''
         else if tok = 60 then parseredirs k buf es (\<lambda>c. REDIR (wrap c) sp 0 0) s3
         else if tok = 62 then parseredirs k buf es (\<lambda>c. REDIR (wrap c) sp 0x201 1) s3
         else if tok = 43 then parseredirs k buf es (\<lambda>c. REDIR (wrap c) sp 0x201 1) s3
         else parseredirs k buf es wrap s3))"

text \<open>The loop over the arguments of a simple command.\<close>

primrec parseargs :: "nat \<Rightarrow> mem \<Rightarrow> nat \<Rightarrow> span list \<Rightarrow> (cmd \<Rightarrow> cmd) \<Rightarrow> nat \<Rightarrow> cmd parsed" where
  "parseargs 0 buf es argv wrap s = Stuck"
| "parseargs (Suc k) buf es argv wrap s =
     (let (b, s1) = peek buf es s [124, 41, 38, 59] in
      if b then Ok (wrap (EXEC argv)) s1
      else
        (let (tok, sp, s2) = gettoken buf es s1 in
         if tok = 0 then Ok (wrap (EXEC argv)) s2
         else if tok \<noteq> 97 then Panics ''syntax''
         else if MAXARGS \<le> length argv + 1 then Panics ''too many args''
         else bindp (parseredirs k buf es wrap s2) (\<lambda>wrap s3. parseargs k buf es (argv @ [sp]) wrap s3)))"

text \<open>The loop of \<open>parseline\<close> over the \<open>&\<close> behind a pipeline.\<close>

primrec parsebacks :: "nat \<Rightarrow> mem \<Rightarrow> nat \<Rightarrow> cmd \<Rightarrow> nat \<Rightarrow> cmd parsed" where
  "parsebacks 0 buf es c s = Stuck"
| "parsebacks (Suc k) buf es c s =
     (let (b, s1) = peek buf es s [38] in
      if \<not> b then Ok c s1
      else parsebacks k buf es (BACK c) (snd (snd (gettoken buf es s1))))"

datatype level = Line | Pipe | Exec | Block

text \<open>
  \<open>parseline\<close>, \<open>parsepipe\<close>, \<open>parseexec\<close> and \<open>parseblock\<close>, which call each other.
\<close>

fun parse :: "nat \<Rightarrow> mem \<Rightarrow> nat \<Rightarrow> level \<Rightarrow> nat \<Rightarrow> cmd parsed" where
  "parse 0 buf es l s = Stuck"
| "parse (Suc k) buf es Line s =
     bindp (parse k buf es Pipe s) (\<lambda>c s1.
     bindp (parsebacks k buf es c s1) (\<lambda>c s2.
     let (b, s3) = peek buf es s2 [59] in
     if b then bindp (parse k buf es Line (snd (snd (gettoken buf es s3)))) (\<lambda>d s4. Ok (LIST c d) s4)
     else Ok c s3))"
| "parse (Suc k) buf es Pipe s =
     bindp (parse k buf es Exec s) (\<lambda>c s1.
     let (b, s2) = peek buf es s1 [124] in
     if b then bindp (parse k buf es Pipe (snd (snd (gettoken buf es s2)))) (\<lambda>d s3. Ok (PIPE c d) s3)
     else Ok c s2)"
| "parse (Suc k) buf es Exec s =
     (let (b, s1) = peek buf es s [40] in
      if b then parse k buf es Block s1
      else bindp (parseredirs k buf es (\<lambda>c. c) s1) (\<lambda>wrap s2. parseargs k buf es [] wrap s2))"
| "parse (Suc k) buf es Block s =
     (let (b, s1) = peek buf es s [40] in
      if \<not> b then Panics ''parseblock''
      else
        bindp (parse k buf es Line (snd (snd (gettoken buf es s1)))) (\<lambda>c s2.
        let (b, s3) = peek buf es s2 [41] in
        if \<not> b then Panics ''syntax - missing )''
        else
          bindp (parseredirs k buf es (\<lambda>c. c) (snd (snd (gettoken buf es s3)))) (\<lambda>wrap s4. Ok (wrap c) s4)))"

primrec nulterminate :: "cmd \<Rightarrow> mem \<Rightarrow> mem" where
  "nulterminate (EXEC argv) buf = fold (\<lambda>(q, eq) b. b(eq := 0)) argv buf"
| "nulterminate (REDIR c sp mode fd) buf = (nulterminate c buf)(snd sp := 0)"
| "nulterminate (PIPE l r) buf = nulterminate r (nulterminate l buf)"
| "nulterminate (LIST l r) buf = nulterminate r (nulterminate l buf)"
| "nulterminate (BACK c) buf = nulterminate c buf"

definition parsecmd :: "nat \<Rightarrow> mem \<Rightarrow> nat \<Rightarrow> (cmd \<times> mem) parsed" where
  "parsecmd fuel buf es =
     bindp (parse fuel buf es Line 0) (\<lambda>c s.
     let (_, s1) = peek buf es s [] in
     if s1 \<noteq> es then Panics ''syntax'' else Ok (c, nulterminate c buf) s1)"

section \<open>Progress\<close>

text \<open>A command line: the bytes before \<open>es\<close> are not NUL, the byte at \<open>es\<close> is.\<close>

definition line :: "mem \<Rightarrow> nat \<Rightarrow> bool" where
  "line buf es = (buf es = 0 \<and> (\<forall>i < es. buf i \<noteq> 0))"

definition plain :: "u8 \<Rightarrow> bool" where
  "plain c = (\<not> is_in whitespace c \<and> \<not> is_in symbols c)"

text \<open>A word of the line: plain characters up to the next other one or the end.\<close>

definition word_at :: "mem \<Rightarrow> nat \<Rightarrow> span \<Rightarrow> bool" where
  "word_at buf es sp = (fst sp < snd sp \<and> snd sp \<le> es \<and> (\<forall>i. fst sp \<le> i \<and> i < snd sp \<longrightarrow> plain (buf i)) \<and>
     (snd sp = es \<or> \<not> plain (buf (snd sp))))"

lemma advance_ge: "s \<le> advance P buf es s"
  by (induction P buf es s rule: advance.induct) (subst advance.simps, auto)

lemma advance_le: "s \<le> es \<Longrightarrow> advance P buf es s \<le> es"
  by (induction P buf es s rule: advance.induct) (subst advance.simps, auto)

lemma advance_P: "s \<le> i \<Longrightarrow> i < advance P buf es s \<Longrightarrow> P (buf i)"
proof (induction P buf es s rule: advance.induct)
  case (1 P buf es s)
  then show ?case by (cases "i = s") (auto simp: advance.simps [of P buf es s] split: if_splits)
qed

lemma advance_stop: "s \<le> es \<Longrightarrow> advance P buf es s = es \<or> \<not> P (buf (advance P buf es s))"
proof (induction P buf es s rule: advance.induct)
  case (1 P buf es s)
  then show ?case by (cases "s < es \<and> P (buf s)") (auto simp: advance.simps [of P buf es s])
qed

lemma is_in_set [simp]: "is_in cs c = (c \<in> set cs)"
  using strchr_None [of cs c] by (simp add: is_in_def)

lemma plain_nul: "buf es = 0 \<Longrightarrow> plain (buf es)"
  by (simp add: plain_def whitespace_def symbols_def)

text \<open>What a token is: at the end of the line nothing, otherwise at least one character.\<close>

lemma token_at_props:
  assumes l: "line buf es" and s: "s \<le> es" and w: "\<not> is_in whitespace (buf s)" and t: "token_at buf es s = (tok, eq)"
  shows "eq \<le> es" and "tok = 0 \<longleftrightarrow> buf s = 0" and "buf s \<noteq> 0 \<Longrightarrow> s < eq" and "buf s = 0 \<Longrightarrow> eq = s"
    and "tok = 97 \<Longrightarrow> word_at buf es (s, eq)"
proof -
  have lt: "s < es" if "buf s \<noteq> 0" using that l s by (cases "s = es") (auto simp: line_def)
  have lt2: "s + 1 < es" if "buf s = 62" "buf (s + 1) = 62"
  proof -
    have "s < es" using that lt by auto
    moreover have "s + 1 \<noteq> es" using that l by (auto simp: line_def)
    ultimately show ?thesis by simp
  qed
  let ?P = "\<lambda>c. \<not> is_in whitespace c \<and> \<not> is_in symbols c"
  have P: "?P = plain" by (simp add: plain_def fun_eq_iff)
  consider (nul) "buf s = 0" | (sym) "buf s \<noteq> 0" "is_in symbols (buf s)" | (word) "buf s \<noteq> 0" "plain (buf s)"
    using w by (auto simp: plain_def)
  then have "eq \<le> es \<and> (tok = 0 \<longleftrightarrow> buf s = 0) \<and> (buf s \<noteq> 0 \<longrightarrow> s < eq) \<and> (buf s = 0 \<longrightarrow> eq = s) \<and>
      (tok = 97 \<longrightarrow> word_at buf es (s, eq))"
  proof cases
    case nul
    then show ?thesis using t s by (simp add: token_at_def)
  next
    case sym
    then show ?thesis using t lt lt2 by (auto simp: token_at_def symbols_def Let_def split: if_splits)
  next
    case word
    then have e: "tok = 97" "eq = advance plain buf es s"
      using t by (auto simp: token_at_def Let_def plain_def symbols_def P [symmetric] split: if_splits)
    have "s < eq" using word lt e(2) advance_ge [of "s + 1" plain buf es] by (subst (asm) advance.simps) (simp add: e(2))
    moreover have "eq \<le> es" "eq = es \<or> \<not> plain (buf eq)" using e(2) advance_le [OF s] advance_stop [OF s] by auto
    moreover have "plain (buf i)" if "s \<le> i" "i < eq" for i using that e(2) advance_P by blast
    ultimately show ?thesis using e(1) word by (auto simp: word_at_def)
  qed
  then show "eq \<le> es" and "tok = 0 \<longleftrightarrow> buf s = 0" and "buf s \<noteq> 0 \<Longrightarrow> s < eq" and "buf s = 0 \<Longrightarrow> eq = s"
    and "tok = 97 \<Longrightarrow> word_at buf es (s, eq)" by auto
qed

lemma gettoken_props:
  assumes l: "line buf es" and s: "s \<le> es" and t: "gettoken buf es s = (tok, sp, s')"
  shows "s \<le> s'" and "s' \<le> es" and "tok \<noteq> 0 \<Longrightarrow> s < s'" and "tok = 97 \<Longrightarrow> word_at buf es sp"
proof -
  define q where "q = advance (is_in whitespace) buf es s"
  have q: "s \<le> q" "q \<le> es" "q = es \<or> \<not> is_in whitespace (buf q)"
    using s advance_ge advance_le advance_stop unfolding q_def by blast+
  have w: "\<not> is_in whitespace (buf q)" using q(3) l by (auto simp: line_def whitespace_def)
  obtain eq where e: "token_at buf es q = (tok, eq)" "sp = (q, eq)" "s' = advance (is_in whitespace) buf es eq"
    using t by (auto simp: gettoken_def Let_def q_def [symmetric] split: prod.splits)
  note tp = token_at_props [OF l q(2) w e(1)]
  have ge: "q \<le> eq" using tp(3,4) by fastforce
  show "s \<le> s'" using q(1) ge advance_ge e(3) by (metis order_trans)
  show "s' \<le> es" using tp(1) advance_le e(3) by blast
  show "s < s'" if "tok \<noteq> 0" using that tp(2,3) q(1) advance_ge [of eq "is_in whitespace" buf es] e(3) by linarith
  show "word_at buf es sp" if "tok = 97" using tp(5) [OF that] e(2) by simp
qed

lemma peek_props:
  assumes l: "line buf es" and s: "s \<le> es" and p: "peek buf es s toks = (b, s')"
  shows "s \<le> s'" and "s' \<le> es" and "b \<Longrightarrow> fst (gettoken buf es s') \<noteq> 0"
proof -
  have s': "s' = advance (is_in whitespace) buf es s" and b: "b = (buf s' \<noteq> 0 \<and> is_in toks (buf s'))"
    using p by (auto simp: peek_def Let_def)
  show "s \<le> s'" "s' \<le> es" using s' advance_ge advance_le [OF s] by auto
  have "s' = es \<or> \<not> is_in whitespace (buf s')" unfolding s' by (rule advance_stop [OF s])
  then have "\<not> is_in whitespace (buf s')" using l by (auto simp: line_def whitespace_def)
  moreover have "advance (is_in whitespace) buf es s' = s'" using calculation by (subst advance.simps) simp
  ultimately show "fst (gettoken buf es s') \<noteq> 0" if b
    using token_at_props(2) [OF l \<open>s' \<le> es\<close>, of "fst (token_at buf es s')" "snd (token_at buf es s')"] that b
    by (cases "token_at buf es s'") (simp add: gettoken_def Let_def)
qed

section \<open>Results of the parser\<close>

text \<open>Parsing did not get stuck, did not go back, and a result satisfies \<open>Q\<close>.\<close>

definition good :: "('a \<Rightarrow> bool) \<Rightarrow> nat \<Rightarrow> nat \<Rightarrow> 'a parsed \<Rightarrow> bool" where
  "good Q s es r = (case r of Ok a s' \<Rightarrow> Q a \<and> s \<le> s' \<and> s' \<le> es | Panics _ \<Rightarrow> True | Stuck \<Rightarrow> False)"

lemma good_simps [simp]: "good Q s es (Ok a s') = (Q a \<and> s \<le> s' \<and> s' \<le> es)" "good Q s es (Panics e)" "\<not> good Q s es Stuck"
  by (simp_all add: good_def)

lemma good_bind:
  assumes "good P s1 es m" and "s \<le> s1" and "\<And>a s2. P a \<Longrightarrow> s1 \<le> s2 \<Longrightarrow> s2 \<le> es \<Longrightarrow> good Q s es (f a s2)"
  shows "good Q s es (bindp m f)"
  using assms by (cases m) (auto simp: bindp_def)

lemma good_mono: "good Q s1 es r \<Longrightarrow> s \<le> s1 \<Longrightarrow> good Q s es r"
  by (cases r) auto

text \<open>The strings of a command are words of the line.\<close>

fun words_ok :: "mem \<Rightarrow> nat \<Rightarrow> cmd \<Rightarrow> bool" where
  "words_ok buf es (EXEC argv) = (length argv < MAXARGS \<and> list_all (word_at buf es) argv)"
| "words_ok buf es (REDIR c sp mode fd) = (words_ok buf es c \<and> word_at buf es sp)"
| "words_ok buf es (PIPE l r) = (words_ok buf es l \<and> words_ok buf es r)"
| "words_ok buf es (LIST l r) = (words_ok buf es l \<and> words_ok buf es r)"
| "words_ok buf es (BACK c) = words_ok buf es c"

abbreviation wraps_ok :: "mem \<Rightarrow> nat \<Rightarrow> (cmd \<Rightarrow> cmd) \<Rightarrow> bool" where
  "wraps_ok buf es wrap \<equiv> \<forall>c. words_ok buf es c \<longrightarrow> words_ok buf es (wrap c)"

text \<open>The token after a successful \<open>peek\<close> is there, so the position moves on.\<close>

lemma peek_token:
  assumes "line buf es" and "s \<le> es" and "peek buf es s toks = (b, s1)" and "gettoken buf es s1 = (tok, sp, s2)" and b
  shows "s < s2" and "s2 \<le> es"
proof -
  note p = peek_props [OF assms(1-3)]
  show "s < s2" "s2 \<le> es" using p gettoken_props [OF assms(1) p(2) assms(4)] assms(4,5) by auto
qed

lemma parseredirs_good:
  assumes l: "line buf es"
  shows "s \<le> es \<Longrightarrow> es - s < k \<Longrightarrow> wraps_ok buf es wrap \<Longrightarrow> good (wraps_ok buf es) s es (parseredirs k buf es wrap s)"
proof (induction k arbitrary: s wrap)
  case (Suc k)
  obtain b s1 where p: "peek buf es s [60, 62] = (b, s1)" by force
  obtain tok sp0 s2 where t: "gettoken buf es s1 = (tok, sp0, s2)" by (metis prod_cases3)
  obtain a sp s3 where f: "gettoken buf es s2 = (a, sp, s3)" by (metis prod_cases3)
  note pp = peek_props [OF l Suc.prems(1) p]
  show ?case
  proof (cases b)
    case False
    then show ?thesis using p pp Suc.prems by simp
  next
    case True
    note pt = peek_token [OF l Suc.prems(1) p t True]
    note g = gettoken_props [OF l pt(2) f]
    have k: "s \<le> s3" "s3 \<le> es" "es - s3 < k" using pt g Suc.prems by auto
    have rec: "good (wraps_ok buf es) s es (parseredirs k buf es w s3)" if "wraps_ok buf es w" for w
      by (rule good_mono [OF Suc.IH [OF k(2,3) that] k(1)])
    show ?thesis
    proof (cases "a = 97")
      case False
      then show ?thesis using True p t f by simp
    next
      case w: True
      have sp: "word_at buf es sp" by (rule g(4) [OF w])
      show ?thesis using True p t f w rec Suc.prems(3) sp by simp
    qed
  qed
qed simp

lemma parseargs_good:
  assumes l: "line buf es"
  shows "s \<le> es \<Longrightarrow> es - s + 1 < k \<Longrightarrow> wraps_ok buf es wrap \<Longrightarrow> words_ok buf es (EXEC argv) \<Longrightarrow>
    good (words_ok buf es) s es (parseargs k buf es argv wrap s)"
proof (induction k arbitrary: s wrap argv)
  case (Suc k)
  obtain b s1 where p: "peek buf es s [124, 41, 38, 59] = (b, s1)" by force
  obtain tok sp s2 where t: "gettoken buf es s1 = (tok, sp, s2)" by (metis prod_cases3)
  note pp = peek_props [OF l Suc.prems(1) p]
  note g = gettoken_props [OF l pp(2) t]
  show ?case
  proof (cases "b \<or> tok \<noteq> 97 \<or> MAXARGS \<le> length argv + 1")
    case True
    then show ?thesis using p t pp g Suc.prems by auto
  next
    case False
    then have s2: "s < s2" "word_at buf es sp" using g pp by auto
    have "good (words_ok buf es) s es (bindp (parseredirs k buf es wrap s2) (\<lambda>wrap s3. parseargs k buf es (argv @ [sp]) wrap s3))"
    proof (rule good_bind [OF parseredirs_good [OF l g(2) _ Suc.prems(3)]])
      show "es - s2 < k" "s \<le> s2" using s2 Suc.prems by auto
      fix w s3 assume h: "wraps_ok buf es w" "s2 \<le> s3" "s3 \<le> es"
      have "good (words_ok buf es) s3 es (parseargs k buf es (argv @ [sp]) w s3)"
        by (rule Suc.IH) (use h s2 Suc.prems False in auto)
      then show "good (words_ok buf es) s es (parseargs k buf es (argv @ [sp]) w s3)"
        by (rule good_mono) (use h s2 in simp)
    qed
    then show ?thesis using False p t by simp
  qed
qed simp

lemma parsebacks_good:
  assumes l: "line buf es"
  shows "s \<le> es \<Longrightarrow> es - s < k \<Longrightarrow> words_ok buf es c \<Longrightarrow> good (words_ok buf es) s es (parsebacks k buf es c s)"
proof (induction k arbitrary: s c)
  case (Suc k)
  obtain b s1 where p: "peek buf es s [38] = (b, s1)" by force
  obtain tok sp s2 where t: "gettoken buf es s1 = (tok, sp, s2)" by (metis prod_cases3)
  note pp = peek_props [OF l Suc.prems(1) p]
  show ?case
  proof (cases b)
    case False
    then show ?thesis using p pp Suc.prems by simp
  next
    case True
    note pt = peek_token [OF l Suc.prems(1) p t True]
    have "good (words_ok buf es) s2 es (parsebacks k buf es (BACK c) s2)" by (rule Suc.IH) (use pt Suc.prems in auto)
    then have "good (words_ok buf es) s es (parsebacks k buf es (BACK c) s2)" by (rule good_mono) (use pt in simp)
    then show ?thesis using True p t by simp
  qed
qed simp

fun need :: "level \<Rightarrow> nat" where
  "need Line = 5" | "need Pipe = 4" | "need Exec = 3" | "need Block = 2"

lemma next_token:
  assumes "line buf es" and "peek buf es s1 toks = (b, s2)" and "s1 \<le> es" and b
  shows "s1 < snd (snd (gettoken buf es s2))" and "snd (snd (gettoken buf es s2)) \<le> es"
  using peek_token [OF assms(1,3,2) _ assms(4), of "fst (gettoken buf es s2)" "fst (snd (gettoken buf es s2))"] by auto

text \<open>
  One level of the parser with fuel \<open>k + 1\<close>, given that the levels it calls are good with fuel \<open>k\<close>.
\<close>

definition parser_good :: "mem \<Rightarrow> nat \<Rightarrow> nat \<Rightarrow> bool" where
  "parser_good buf es k = (\<forall>lv s. s \<le> es \<longrightarrow> 4 * (es - s) + need lv \<le> k \<longrightarrow> good (words_ok buf es) s es (parse k buf es lv s))"

lemma parser_goodD:
  "parser_good buf es k \<Longrightarrow> s \<le> es \<Longrightarrow> 4 * (es - s) + need lv \<le> k \<Longrightarrow> good (words_ok buf es) s es (parse k buf es lv s)"
  by (simp add: parser_good_def)

text \<open>The continuation of \<open>parseline\<close> and \<open>parsepipe\<close> behind their separators.\<close>

lemma good_separator:
  assumes l: "line buf es" and g: "parser_good buf es k" and c: "words_ok buf es c" "s \<le> s1" "s1 \<le> es"
    and k: "4 * (es - s1) + need lv \<le> k + 4" and f: "\<And>d. words_ok buf es d \<Longrightarrow> words_ok buf es (f c d)"
  shows "good (words_ok buf es) s es (let (b, s2) = peek buf es s1 toks in
    if b then bindp (parse k buf es lv (snd (snd (gettoken buf es s2)))) (\<lambda>d s3. Ok (f c d) s3) else Ok c s2)"
proof -
  obtain b s2 where p: "peek buf es s1 toks = (b, s2)" by force
  note pp = peek_props [OF l c(3) p]
  define s3 where "s3 = snd (snd (gettoken buf es s2))"
  have "good (words_ok buf es) s es (bindp (parse k buf es lv s3) (\<lambda>d s4. Ok (f c d) s4))" if b
  proof -
    have s3: "s1 < s3" "s3 \<le> es" using next_token [OF l p c(3) that] by (auto simp: s3_def)
    have "good (words_ok buf es) s3 es (parse k buf es lv s3)" by (rule parser_goodD [OF g]) (use s3 k in auto)
    then show ?thesis by (rule good_bind) (use s3 c f in auto)
  qed
  then show ?thesis using p pp c by (auto simp: s3_def)
qed

lemma parseline_good:
  assumes l: "line buf es" and g: "parser_good buf es k" and s: "s \<le> es" "4 * (es - s) + need Line \<le> Suc k"
  shows "good (words_ok buf es) s es (parse (Suc k) buf es Line s)"
  unfolding parse.simps
proof (rule good_bind [OF parser_goodD [OF g s(1)]])
  fix c s1 assume c: "words_ok buf es c" "s \<le> s1" "s1 \<le> es"
  have "good (words_ok buf es) s1 es (parsebacks k buf es c s1)" by (rule parsebacks_good [OF l]) (use c s in auto)
  then show "good (words_ok buf es) s es (bindp (parsebacks k buf es c s1) (\<lambda>c s2. let (b, s3) = peek buf es s2 [59] in
      if b then bindp (parse k buf es Line (snd (snd (gettoken buf es s3)))) (\<lambda>d s4. Ok (LIST c d) s4) else Ok c s3))"
  proof (rule good_bind [OF _ c(2)])
    fix d s2 assume d: "words_ok buf es d" "s1 \<le> s2" "s2 \<le> es"
    show "good (words_ok buf es) s es (let (b, s3) = peek buf es s2 [59] in
        if b then bindp (parse k buf es Line (snd (snd (gettoken buf es s3)))) (\<lambda>e s4. Ok (LIST d e) s4) else Ok d s3)"
      by (rule good_separator [OF l g]) (use c d s in auto)
  qed
qed (use s in auto)

lemma parsepipe_good:
  assumes l: "line buf es" and g: "parser_good buf es k" and s: "s \<le> es" "4 * (es - s) + need Pipe \<le> Suc k"
  shows "good (words_ok buf es) s es (parse (Suc k) buf es Pipe s)"
  unfolding parse.simps
proof (rule good_bind [OF parser_goodD [OF g s(1)]])
  fix c s1 assume c: "words_ok buf es c" "s \<le> s1" "s1 \<le> es"
  show "good (words_ok buf es) s es (let (b, s2) = peek buf es s1 [124] in
      if b then bindp (parse k buf es Pipe (snd (snd (gettoken buf es s2)))) (\<lambda>d s3. Ok (PIPE c d) s3) else Ok c s2)"
    by (rule good_separator [OF l g]) (use c s in auto)
qed (use s in auto)

lemma parseexec_good:
  assumes l: "line buf es" and g: "parser_good buf es k" and s: "s \<le> es" "4 * (es - s) + need Exec \<le> Suc k"
  shows "good (words_ok buf es) s es (parse (Suc k) buf es Exec s)"
proof -
  obtain b s1 where p: "peek buf es s [40] = (b, s1)" by force
  note pp = peek_props [OF l s(1) p]
  have "good (words_ok buf es) s1 es (parse k buf es Block s1)"
    by (rule parser_goodD [OF g pp(2)]) (use pp s in auto)
  then have "good (words_ok buf es) s es (parse k buf es Block s1)" by (rule good_mono) (rule pp(1))
  moreover have "good (words_ok buf es) s es (bindp (parseredirs k buf es (\<lambda>c. c) s1) (\<lambda>wrap s2. parseargs k buf es [] wrap s2))"
  proof (rule good_bind [OF parseredirs_good [OF l pp(2)]])
    fix w s2 assume h: "wraps_ok buf es w" "s1 \<le> s2" "s2 \<le> es"
    have "good (words_ok buf es) s2 es (parseargs k buf es [] w s2)"
      by (rule parseargs_good [OF l]) (use h pp s in \<open>auto simp: MAXARGS_def\<close>)
    then show "good (words_ok buf es) s es (parseargs k buf es [] w s2)" by (rule good_mono) (use h pp in simp)
  qed (use pp s in auto)
  ultimately show ?thesis using p by simp
qed

lemma parseblock_good:
  assumes l: "line buf es" and g: "parser_good buf es k" and s: "s \<le> es" "4 * (es - s) + need Block \<le> Suc k"
  shows "good (words_ok buf es) s es (parse (Suc k) buf es Block s)"
proof -
  obtain b s1 where p: "peek buf es s [40] = (b, s1)" by force
  define s2 where "s2 = snd (snd (gettoken buf es s1))"
  have "good (words_ok buf es) s es (bindp (parse k buf es Line s2) (\<lambda>c s2. let (b, s3) = peek buf es s2 [41] in
      if \<not> b then Panics ''syntax - missing )''
      else bindp (parseredirs k buf es (\<lambda>c. c) (snd (snd (gettoken buf es s3)))) (\<lambda>wrap s4. Ok (wrap c) s4)))" if b
  proof -
    have s2: "s < s2" "s2 \<le> es" using next_token [OF l p s(1) that] by (auto simp: s2_def)
    have "good (words_ok buf es) s2 es (parse k buf es Line s2)" by (rule parser_goodD [OF g]) (use s2 s in auto)
    then show ?thesis
    proof (rule good_bind)
      fix c s3 assume c: "words_ok buf es c" "s2 \<le> s3" "s3 \<le> es"
      obtain b' s4 where p': "peek buf es s3 [41] = (b', s4)" by force
      define s5 where "s5 = snd (snd (gettoken buf es s4))"
      have "good (words_ok buf es) s es (bindp (parseredirs k buf es (\<lambda>c. c) s5) (\<lambda>wrap s4. Ok (wrap c) s4))" if b'
      proof -
        have s5: "s3 < s5" "s5 \<le> es" using next_token [OF l p' c(3) that] by (auto simp: s5_def)
        have "good (wraps_ok buf es) s5 es (parseredirs k buf es (\<lambda>c. c) s5)"
          by (rule parseredirs_good [OF l]) (use s5 s2 c s in auto)
        then show ?thesis by (rule good_bind) (use s5 s2 c in auto)
      qed
      then show "good (words_ok buf es) s es (let (b, s4) = peek buf es s3 [41] in
          if \<not> b then Panics ''syntax - missing )''
          else bindp (parseredirs k buf es (\<lambda>c. c) (snd (snd (gettoken buf es s4)))) (\<lambda>wrap s4. Ok (wrap c) s4))"
        using p' by (simp add: s5_def)
    qed (use s2 in simp)
  qed
  then show ?thesis using p by (simp add: s2_def)
qed

lemma parse_good: "line buf es \<Longrightarrow> parser_good buf es k"
proof (induction k)
  case 0
  have "\<not> 4 * (es - s) + need lv \<le> 0" for s lv by (cases lv) auto
  then show ?case by (simp add: parser_good_def)
next
  case (Suc k)
  show ?case unfolding parser_good_def
  proof (intro allI impI)
    fix lv s assume "s \<le> es" "4 * (es - s) + need lv \<le> Suc k"
    then show "good (words_ok buf es) s es (parse (Suc k) buf es lv s)"
      using Suc parseline_good parsepipe_good parseexec_good parseblock_good by (cases lv) blast+
  qed
qed

section \<open>The strings of a command\<close>

fun spans :: "cmd \<Rightarrow> span list" where
  "spans (EXEC argv) = argv"
| "spans (REDIR c sp mode fd) = spans c @ [sp]"
| "spans (PIPE l r) = spans l @ spans r"
| "spans (LIST l r) = spans l @ spans r"
| "spans (BACK c) = spans c"

lemma words_spans: "words_ok buf es c \<Longrightarrow> sp \<in> set (spans c) \<Longrightarrow> word_at buf es sp"
  by (induction c) (auto simp: list_all_iff)

lemma fold_nul: "fold (\<lambda>(q, eq) b. b(eq := 0)) argv buf i = (if i \<in> snd ` set argv then 0 else buf i)"
  by (induction argv arbitrary: buf) auto

lemma nulterminate_apply: "nulterminate c buf i = (if i \<in> snd ` set (spans c) then 0 else buf i)"
  by (induction c arbitrary: buf) (auto simp: fold_nul)

text \<open>The string at the start of a span is the NUL-terminated text the span had in the line.\<close>

definition string_is :: "mem \<Rightarrow> mem \<Rightarrow> span \<Rightarrow> bool" where
  "string_is buf buf' sp = (buf' (snd sp) = 0 \<and> (\<forall>i. fst sp \<le> i \<and> i < snd sp \<longrightarrow> buf' i = buf i \<and> buf i \<noteq> 0))"

lemma nulterminate_strings:
  assumes l: "line buf es" and w: "words_ok buf es c" and sp: "sp \<in> set (spans c)"
  shows "string_is buf (nulterminate c buf) sp"
proof -
  have "i \<notin> snd ` set (spans c) \<and> buf i \<noteq> 0" if "fst sp \<le> i" "i < snd sp" for i
  proof -
    have "plain (buf i)" "i < es" using words_spans [OF w sp] that by (auto simp: word_at_def)
    moreover have "snd sp' = es \<or> \<not> plain (buf (snd sp'))" if "sp' \<in> set (spans c)" for sp'
      using words_spans [OF w that] by (auto simp: word_at_def)
    ultimately show ?thesis using l by (auto simp: line_def)
  qed
  then show ?thesis using sp by (auto simp: string_is_def nulterminate_apply)
qed

text \<open>
  C20. The parser ends on every command line, with fuel linear in its length: it returns a command or
  panics with a message. In a command it returns, after \<open>nulterminate\<close> has written its NULs, every
  argument and file name is a word of the line, NUL-terminated, whole and unchanged, and no simple
  command has \<open>MAXARGS\<close> arguments or more.
\<close>

theorem parsecmd_words:
  assumes l: "line buf es" and k: "4 * es + 5 \<le> fuel"
  shows "case parsecmd fuel buf es of
      Ok (c, buf') s \<Rightarrow> s = es \<and> words_ok buf es c \<and> list_all (string_is buf buf') (spans c)
    | Panics msg \<Rightarrow> True
    | Stuck \<Rightarrow> False"
proof -
  have "good (words_ok buf es) 0 es (parse fuel buf es Line 0)"
    by (rule parser_goodD [OF parse_good [OF l]]) (use k in auto)
  then show ?thesis
    by (cases "parse fuel buf es Line 0")
      (auto simp: parsecmd_def bindp_def list_all_iff intro: nulterminate_strings [OF l] split: prod.splits)
qed

text \<open>The line \<open>ls|wc>f\<close>.\<close>

definition line0 :: mem where
  "line0 = (\<lambda>i. if i < 7 then [108, 115, 124, 119, 99, 62, 102] ! i else 0)"

theorem parsecmd_words_witness:
  "case parsecmd 33 line0 7 of
      Ok (c, buf') s \<Rightarrow> s = 7 \<and> words_ok line0 7 c \<and> list_all (string_is line0 buf') (spans c)
    | Panics msg \<Rightarrow> True
    | Stuck \<Rightarrow> False"
proof (rule parsecmd_words)
  let ?cs = "[108, 115, 124, 119, 99, 62, 102] :: u8 list"
  have "?cs ! i \<noteq> 0" if "i < 7" for i
  proof
    assume "?cs ! i = 0"
    moreover have "?cs ! i \<in> set ?cs" using that by (intro nth_mem) simp
    ultimately show False by simp
  qed
  then show "line line0 7" by (simp add: line_def line0_def)
qed simp

end
