(* ===== verification/Mkfs.thy ===== *)
theory Mkfs
  imports Block_Props
begin

text \<open>
  The host tool that builds the disk image (\<open>tools/mkfs.c\<close>). The image file is a function from sector
  numbers to blocks, so seeking, reading and writing it cannot fail here. The host's directory tree is
  an argument: what \<open>readdir\<close> enumerates, without \<open>.\<close> and \<open>..\<close>, and the contents of the files. A failed
  \<open>assert\<close> is \<open>None\<close>.
\<close>

record mkfs =
  img :: "u32 \<Rightarrow> block"
  freeblock :: u32
  usedblocks :: u32
  bitblocks :: u32
  freeinode :: u32

text \<open>The conversions to Intel byte order, on a little-endian host.\<close>

definition xshort :: "u16 \<Rightarrow> u16" where
  "xshort x = get16 (\<lambda>i. if i = 0 then ucast x else ucast (drop_bit 8 x)) 0"

definition xint :: "u32 \<Rightarrow> u32" where
  "xint x = get32 (\<lambda>i. if i = 0 then ucast x else if i = 1 then ucast (drop_bit 8 x)
     else if i = 2 then ucast (drop_bit 16 x) else ucast (drop_bit 24 x)) 0"

definition wsect :: "u32 \<Rightarrow> block \<Rightarrow> mkfs \<Rightarrow> mkfs" where
  "wsect sec buf s = s\<lparr>img := (img s)(sec := buf)\<rparr>"

definition rsect :: "u32 \<Rightarrow> mkfs \<Rightarrow> block" where
  "rsect sec s = img s sec"

text \<open>\<open>mkfs\<close>: the counters, the zeroed sectors and the super block.\<close>

definition mkfs_init :: "u32 \<Rightarrow> u32 \<Rightarrow> u32 \<Rightarrow> mkfs \<Rightarrow> mkfs option" where
  "mkfs_init nblocks ninodes sz s =
     (let bb = sz div (512 * 8) + 1; ub = ninodes div of_nat IPB + 3 + bb;
          s1 = s\<lparr>bitblocks := bb, usedblocks := ub, freeblock := ub\<rparr> in
      if nblocks + ub \<noteq> sz then None
      else
        (let s2 = fold (\<lambda>i. wsect (of_nat i) (\<lambda>_. 0)) [0..<unat (nblocks + ub)] s1 in
         Some (wsect 1 (put32 (put32 (put32 (\<lambda>_. 0) 0 (xint sz)) 4 (xint nblocks)) 8 (xint ninodes)) s2)))"

definition i2b :: "u32 \<Rightarrow> u32" where
  "i2b inum = inum div of_nat IPB + 2"

definition winode :: "u32 \<Rightarrow> dinode \<Rightarrow> mkfs \<Rightarrow> mkfs" where
  "winode inum din s = wsect (i2b inum) (put_dinode (rsect (i2b inum) s) (dip_off inum) din) s"

definition rinode :: "u32 \<Rightarrow> mkfs \<Rightarrow> dinode" where
  "rinode inum s = get_dinode (rsect (i2b inum) s) (dip_off inum)"

definition ialloc_img :: "u16 \<Rightarrow> mkfs \<Rightarrow> u32 \<times> mkfs" where
  "ialloc_img type s =
     (let inum = freeinode s; s1 = s\<lparr>freeinode := freeinode s + 1\<rparr>;
          din = \<lparr>d_type = xshort type, d_major = 0, d_minor = 0, d_nlink = xshort 1, d_size = xint 0, d_addrs = (\<lambda>_. 0)\<rparr> in
      (inum, winode inum din s1))"

text \<open>\<open>balloc\<close>: the bitmap with the first \<open>used\<close> bits set; \<open>ninodes\<close> is the global of that name.\<close>

definition balloc_img :: "u32 \<Rightarrow> int \<Rightarrow> mkfs \<Rightarrow> mkfs option" where
  "balloc_img ninodes used s =
     (if 512 * 8 \<le> used then None
      else
        (let buf = fold (\<lambda>i b. b(i div 8 := b (i div 8) OR push_bit (i mod 8) 1)) [0..<nat used] (\<lambda>_. 0) in
         Some (wsect (ninodes div of_nat IPB + 3) buf s)))"

text \<open>A new block for a slot: \<open>freeblock++\<close>, \<open>usedblocks++\<close>.\<close>

definition new_block :: "mkfs \<Rightarrow> u32 \<times> mkfs" where
  "new_block s = (freeblock s, s\<lparr>freeblock := freeblock s + 1, usedblocks := usedblocks s + 1\<rparr>)"

text \<open>The block of slot \<open>fbn\<close> of the inode, allocated when it is not there yet.\<close>

definition slot_block :: "nat \<Rightarrow> dinode \<Rightarrow> mkfs \<Rightarrow> u32 \<times> dinode \<times> mkfs" where
  "slot_block fbn din s =
     (if fbn < NDIRECT then
        (if xint (d_addrs din fbn) = 0 then
           (let (b, s1) = new_block s; din1 = din\<lparr>d_addrs := (d_addrs din)(fbn := xint b)\<rparr> in (xint (d_addrs din1 fbn), din1, s1))
         else (xint (d_addrs din fbn), din, s))
      else
        (let (din1, s1) = (if xint (d_addrs din NDIRECT) = 0 then
               (let (b, s1) = new_block s in (din\<lparr>d_addrs := (d_addrs din)(NDIRECT := xint b)\<rparr>, s1)) else (din, s));
             ia = xint (d_addrs din1 NDIRECT); indirect = rsect ia s1; o1 = 4 * (fbn - NDIRECT) in
         if get32 indirect o1 = 0 then
           (let (b, s2) = new_block s1; ind1 = put32 indirect o1 (xint b) in (xint (get32 ind1 o1), din1, wsect ia ind1 s2))
         else (xint (get32 indirect o1), din1, s1)))"

text \<open>The loop of \<open>iappend\<close> over the bytes still to be appended.\<close>

function iappend_loop :: "u8 list \<Rightarrow> nat \<Rightarrow> dinode \<Rightarrow> mkfs \<Rightarrow> (nat \<times> dinode \<times> mkfs) option" where
  "iappend_loop p off din s =
     (if p = [] then Some (off, din, s)
      else
        (let fbn = off div 512 in
         if MAXFILE \<le> fbn then None
         else
           (let (x, din1, s1) = slot_block fbn din s; n1 = min (length p) ((fbn + 1) * 512 - off); buf = rsect x s1 in
            iappend_loop (drop n1 p) (off + n1) din1
              (wsect x (\<lambda>i. if off - fbn * 512 \<le> i \<and> i < off - fbn * 512 + n1 then p ! (i - (off - fbn * 512)) else buf i) s1))))"
  by pat_completeness auto
termination
proof (relation "measure (\<lambda>(p, off, din, s). length p)")
  have off: "off < off div 512 * 512 + 512" for off :: nat
    using dividend_less_div_times [of 512 off] by simp
  show "((drop n1 p, off + n1, din1, t), p, off, din, s) \<in> measure (\<lambda>(p, off, din, s). length p)"
    if "p \<noteq> []" and "fbn = off div 512" and "n1 = min (length p) ((fbn + 1) * 512 - off)"
    for p :: "u8 list" and off fbn n1 :: nat and din1 din :: dinode and t s :: mkfs
    using that off [of off] by (simp add: algebra_simps)
qed simp

declare iappend_loop.simps [simp del]

definition iappend :: "u32 \<Rightarrow> u8 list \<Rightarrow> mkfs \<Rightarrow> mkfs option" where
  "iappend inum p s =
     (case iappend_loop p (unat (xint (d_size (rinode inum s)))) (rinode inum s) s of
        None \<Rightarrow> None
      | Some (off, din, s1) \<Rightarrow> Some (winode inum (din\<lparr>d_size := xint (of_nat off)\<rparr>) s1))"


text \<open>
  What \<open>readdir\<close> finds on the host: a file with the pieces that \<open>read\<close> returns of it, a directory (\<open>None\<close> when
  \<open>fdopendir\<close> fails), an entry that cannot be opened.
\<close>

datatype hentry = HFile "u8 list" "u8 list list" | HDir "u8 list" "hentry list option" | HBad "u8 list"

text \<open>\<open>struct dirent\<close> with the name filled up with zeros, as \<open>strncpy\<close> does.\<close>

definition dirent_bytes :: "u32 \<Rightarrow> u8 list \<Rightarrow> u8 list" where
  "dirent_bytes inum name = [ucast inum, ucast (drop_bit 8 inum)] @ take 14 (name @ replicate 14 0)"

fun append_chunks :: "u32 \<Rightarrow> u8 list list \<Rightarrow> mkfs \<Rightarrow> mkfs option" where
  "append_chunks inum [] s = Some s"
| "append_chunks inum (c # cs) s = (if c = [] then Some s else
     (case iappend inum c s of None \<Rightarrow> None | Some t \<Rightarrow> append_chunks inum cs t))"

definition fix_size :: "u32 \<Rightarrow> mkfs \<Rightarrow> mkfs" where
  "fix_size inum s = (let din = rinode inum s; off = xint (d_size din) in
     winode inum (din\<lparr>d_size := xint ((off div 512 + 1) * 512)\<rparr>) s)"

text \<open>
  \<open>add_dir\<close>, and its loop over the entries. \<open>None\<close>: a failed assertion or a return value other than 0, which
  ends \<open>main\<close> as well.
\<close>

fun add_dir :: "hentry list option \<Rightarrow> u32 \<Rightarrow> u32 \<Rightarrow> mkfs \<Rightarrow> mkfs option"
and add_entries :: "hentry list \<Rightarrow> u32 \<Rightarrow> mkfs \<Rightarrow> mkfs option" where
  "add_dir d cur parent s =
     (case iappend cur (dirent_bytes cur [46]) s of
        None \<Rightarrow> None
      | Some s1 \<Rightarrow>
          (case iappend cur (dirent_bytes parent [46, 46]) s1 of
             None \<Rightarrow> None
           | Some s2 \<Rightarrow>
               (case d of
                  None \<Rightarrow> Some s2
                | Some es \<Rightarrow> (case add_entries es cur s2 of None \<Rightarrow> None | Some s3 \<Rightarrow> Some (fix_size cur s3)))))"
| "add_entries [] cur s = Some s"
| "add_entries (HBad name # es) cur s = None"
| "add_entries (HDir name d # es) cur s =
     (let (child, s1) = ialloc_img 1 s in
      case add_dir d child cur s1 of
        None \<Rightarrow> None
      | Some s2 \<Rightarrow> (case iappend cur (dirent_bytes child name) s2 of None \<Rightarrow> None | Some s3 \<Rightarrow> add_entries es cur s3))"
| "add_entries (HFile name cs # es) cur s =
     (let (child, s1) = ialloc_img 2 s in
      case append_chunks child cs s1 of
        None \<Rightarrow> None
      | Some s2 \<Rightarrow> (case iappend cur (dirent_bytes child name) s2 of None \<Rightarrow> None | Some s3 \<Rightarrow> add_entries es cur s3))"

text \<open>\<open>main\<close> on an empty image file: 995 blocks of data, 200 inodes, 1024 sectors.\<close>

definition mkfs_start :: mkfs where
  "mkfs_start = \<lparr>img = (\<lambda>_ _. 0), freeblock = 0, usedblocks = 0, bitblocks = 0, freeinode = 1\<rparr>"

definition mkfs_main :: "hentry list option \<Rightarrow> mkfs option" where
  "mkfs_main root =
     (case mkfs_init 995 200 1024 mkfs_start of
        None \<Rightarrow> None
      | Some s1 \<Rightarrow>
          (let (ino, s2) = ialloc_img 1 s1 in
           if ino \<noteq> 1 then None
           else
             (case add_dir root ino ino s2 of
                None \<Rightarrow> None
              | Some s3 \<Rightarrow> balloc_img 200 (sint (usedblocks s3)) s3)))"


section \<open>The image as the kernel sees it\<close>

lemma xint_id [simp]: "xint x = x"
proof (rule bit_word_eqI)
  fix n
  assume "n < LENGTH(32)"
  then consider "n < 8" | "8 \<le> n" "n < 16" | "16 \<le> n" "n < 24" | "24 \<le> n" "n < 32" by fastforce
  then show "bit (xint x) n = bit x n" by cases (auto simp: xint_def get32_def bit_simps)
qed

lemma xshort_id [simp]: "xshort x = x"
  by (rule bit_word_eqI) (auto simp: xshort_def get16_def bit_simps split: if_splits)

lemma i2b_IBLOCK: "i2b i = IBLOCK i"
  by (simp add: i2b_def IBLOCK_def IPB_def)

lemma bits_eq: "(\<lambda>i b. b(i div 8 := b (i div 8) OR push_bit (i mod 8) 1)) = (\<lambda>i d. bm_set d i)"
  by (simp only: bm_set_def)

lemma bits_set: "bm_used (fold (\<lambda>i d. bm_set d i) [0..<n] d) j \<longleftrightarrow> j < n \<or> bm_used d j"
  by (induction n) (auto simp: bm_used_set)

text \<open>
  The bitmap \<open>balloc\<close> of \<open>mkfs\<close> writes is the one the kernel reads: on the image, block \<open>b\<close> is in use iff it is
  one of the first \<open>used\<close>, and every other sector is as before.
\<close>

lemma mkfs_bitmap:
  assumes b: "balloc_img (sb_ninodes (sb_of (img s))) used s = Some t" and blk: "unat b < BPB"
  shows "blk_used (img t) b \<longleftrightarrow> int (unat b) < used" and "sb_of (img t) = sb_of (img s)"
    and "n \<noteq> BBLOCK 0 (sb_ninodes (sb_of (img s))) \<Longrightarrow> img t n = img s n"
proof -
  let ?ni = "sb_ninodes (sb_of (img s))"
  have sec: "?ni div of_nat IPB + 3 = BBLOCK 0 ?ni" by (simp add: IPB_def BBLOCK_def)
  let ?bm = "fold (\<lambda>i d. bm_set d i) [0..<nat used] (\<lambda>_. 0)"
  have t: "img t = (img s)(BBLOCK 0 ?ni := ?bm)"
    using b unfolding balloc_img_def bits_eq by (auto simp: Let_def wsect_def sec split: if_splits)
  show sb: "sb_of (img t) = sb_of (img s)" by (simp add: t sb_of_def)
  have "BBLOCK b ?ni = BBLOCK 0 ?ni" using blk by (intro BBLOCK_cong) simp
  then show "blk_used (img t) b \<longleftrightarrow> int (unat b) < used"
    unfolding blk_used_def sb using blk by (simp add: t bits_set) (simp add: bm_used_def zless_nat_eq_int_zless)
  show "n \<noteq> BBLOCK 0 ?ni \<Longrightarrow> img t n = img s n" by (simp add: t)
qed

end
