(* ===== verification/Web_Request.thy ===== *)
theory Web_Request
  imports Kernel_Prelude
begin

text \<open>
  The requests of the web server (\<open>sever_client_system/request.c\<close> and \<open>getfileinfo\<close> of \<open>server.c\<close>).
  A request is answered by a routine on the text written to the connection so far; the connection takes
  every write. \<open>Panic\<close> is the exit of the whole server through \<open>unix_error\<close> of \<open>cs537.c\<close>, \<open>Undef\<close> an access
  outside a buffer. Strings are the characters before the terminating zero. What the server finds in its
  directory, and what a CGI program writes, is the argument \<open>env\<close>.
\<close>

section \<open>The C library\<close>

definition MAXLINE :: nat where "MAXLINE = 8192"
definition MAXBUF :: nat where "MAXBUF = 8192"

definition strstr :: "string \<Rightarrow> string \<Rightarrow> nat option" where
  "strstr s p = find (\<lambda>i. take (length p) (drop i s) = p) [0..<Suc (length s)]"

definition index_of :: "string \<Rightarrow> char \<Rightarrow> nat option" where
  "index_of s c = find (\<lambda>i. s ! i = c) [0..<length s]"

definition tolower :: "char \<Rightarrow> char" where
  "tolower c = (if 65 \<le> (of_char c :: nat) \<and> of_char c \<le> (90 :: nat) then char_of (of_char c + 32 :: nat) else c)"

definition strcaseeq :: "string \<Rightarrow> string \<Rightarrow> bool" where
  "strcaseeq a b \<longleftrightarrow> map tolower a = map tolower b"

definition isspace :: "char \<Rightarrow> bool" where
  "isspace c \<longleftrightarrow> c = CHR '' '' \<or> (9 \<le> (of_char c :: nat) \<and> of_char c \<le> (13 :: nat))"

text \<open>\<open>%s\<close> of \<open>sscanf\<close>: skip white space, take the word; no word leaves the variable as it was.\<close>

definition scan_word :: "string \<Rightarrow> (string \<times> string) option" where
  "scan_word s = (let r = dropWhile isspace s in
     if r = [] then None else Some (takeWhile (\<lambda>c. \<not> isspace c) r, dropWhile (\<lambda>c. \<not> isspace c) r))"

definition sscanf3 :: "string \<Rightarrow> string \<times> string \<times> string \<Rightarrow> string \<times> string \<times> string" where
  "sscanf3 s old = (case old of (a, b, c) \<Rightarrow>
     (case scan_word s of None \<Rightarrow> (a, b, c)
      | Some (w1, s1) \<Rightarrow> (case scan_word s1 of None \<Rightarrow> (w1, b, c)
        | Some (w2, s2) \<Rightarrow> (case scan_word s2 of None \<Rightarrow> (w1, w2, c)
          | Some (w3, s3) \<Rightarrow> (w1, w2, w3)))))"

text \<open>\<open>%d\<close> and \<open>%lu\<close> for a number that is not negative.\<close>

fun decimal :: "nat \<Rightarrow> string" where
  "decimal n = (if n < 10 then [char_of (48 + n)] else decimal (n div 10) @ [char_of (48 + n mod 10)])"

declare decimal.simps [simp del]

definition CRLF :: string where
  "CRLF = [char_of (13 :: nat), char_of (10 :: nat)]"

section \<open>The environment of the server\<close>

record fstat =
  st_size :: nat
  is_reg :: bool
  may_read :: bool
  may_exec :: bool

record env =
  stat_of :: "string \<Rightarrow> fstat option"
  open_ok :: "string \<Rightarrow> bool"
  file_text :: "string \<Rightarrow> string"
  cgi_text :: "string \<Rightarrow> string \<Rightarrow> string"

section \<open>request.c\<close>

definition rio_write :: "string \<Rightarrow> (string, unit) km" where
  "rio_write txt = modk (\<lambda>out. out @ txt)"

definition error_body :: "string \<Rightarrow> string \<Rightarrow> string \<Rightarrow> string \<Rightarrow> string" where
  "error_body cause errnum shortmsg longmsg =
     ''<html><title>CS537 Error</title>'' @ ''<body bgcolor=fffff>'' @ CRLF @
     errnum @ '': '' @ shortmsg @ CRLF @
     ''<p>'' @ longmsg @ '': '' @ cause @ CRLF @
     ''<hr>CS537 Web Server'' @ CRLF"

definition requestError :: "string \<Rightarrow> string \<Rightarrow> string \<Rightarrow> string \<Rightarrow> (string, unit) km" where
  "requestError cause errnum shortmsg longmsg =
     (let body = error_body cause errnum shortmsg longmsg in
      if MAXBUF \<le> length body then undef ''body''
      else
        bindk (rio_write (''HTTP/1.0 '' @ errnum @ '' '' @ shortmsg @ CRLF)) (\<lambda>_.
        bindk (rio_write (''Content-Type: text/html'' @ CRLF)) (\<lambda>_.
        bindk (rio_write (''Content-Length: '' @ decimal (length body) @ CRLF @ CRLF)) (\<lambda>_.
        rio_write body))))"

text \<open>
  \<open>requestParseURI\<close>: whether the content is static, the file name, the arguments. The caller's buffer for
  the name has \<open>MAXLINE\<close> bytes; an empty URI is read at index \<open>-1\<close>.
\<close>

definition requestParseURI :: "string \<Rightarrow> ('s, bool \<times> string \<times> string) km" where
  "requestParseURI uri =
     (if strstr uri ''cgi'' = None then
        (if uri = [] then undef ''uri''
         else
           (let filename = ''.'' @ uri @ (if last uri = CHR ''/'' then ''home.html'' else []) in
            if MAXLINE \<le> length filename then undef ''filename'' else ret (True, filename, [])))
      else
        (let (path, cgiargs) =
           (case index_of uri (CHR ''?'') of Some p \<Rightarrow> (take p uri, drop (Suc p) uri) | None \<Rightarrow> (uri, [])) in
         if MAXLINE \<le> length (''.'' @ path) then undef ''filename'' else ret (False, ''.'' @ path, cgiargs)))"

definition requestGetFiletype :: "string \<Rightarrow> string" where
  "requestGetFiletype filename =
     (if strstr filename ''.html'' \<noteq> None then ''text/html''
      else if strstr filename ''.gif'' \<noteq> None then ''image/gif''
      else if strstr filename ''.jpg'' \<noteq> None then ''image/jpeg''
      else ''text/plain'')"

text \<open>The CGI program writes to the connection itself; the server waits for its end.\<close>

definition requestServeDynamic :: "'z env_scheme \<Rightarrow> string \<Rightarrow> string \<Rightarrow> (string, unit) km" where
  "requestServeDynamic e filename cgiargs =
     bindk (rio_write (''HTTP/1.0 200 OK'' @ CRLF @ ''Server: CS537 Web Server'' @ CRLF)) (\<lambda>_.
     rio_write (cgi_text e filename cgiargs))"

text \<open>\<open>mmap\<close> refuses a length of zero, and then the wrapper \<open>Mmap\<close> ends the server.\<close>

definition requestServeStatic :: "'z env_scheme \<Rightarrow> string \<Rightarrow> nat \<Rightarrow> (string, unit) km" where
  "requestServeStatic e filename filesize =
     (if \<not> open_ok e filename then panic ''Open error''
      else if filesize = 0 then panic ''mmap error''
      else
        bindk (rio_write (''HTTP/1.0 200 OK'' @ CRLF @ ''Server: CS537 Web Server'' @ CRLF @
          ''Content-Length: '' @ decimal filesize @ CRLF @
          ''Content-Type: '' @ requestGetFiletype filename @ CRLF @ CRLF)) (\<lambda>_.
        rio_write (take filesize (file_text e filename))))"

text \<open>\<open>junk\<close> is what the uninitialised buffers of \<open>method\<close>, \<open>uri\<close> and \<open>version\<close> hold.\<close>

definition requestHandle :: "'z env_scheme \<Rightarrow> string \<times> string \<times> string \<Rightarrow> string \<Rightarrow> (string, unit) km" where
  "requestHandle e junk buf =
     (case sscanf3 buf junk of (method, uri, version) \<Rightarrow>
      if \<not> strcaseeq method ''GET'' then
        requestError method ''501'' ''Not Implemented'' ''CS537 Server does not implement this method''
      else
        bindk (requestParseURI uri) (\<lambda>(is_static, filename, cgiargs).
        case stat_of e filename of
          None \<Rightarrow> requestError filename ''404'' ''Not found'' ''CS537 Server could not find this file''
        | Some sbuf \<Rightarrow>
            if is_static then
              (if \<not> is_reg sbuf \<or> \<not> may_read sbuf then
                 requestError filename ''403'' ''Forbidden'' ''CS537 Server could not read this file''
               else requestServeStatic e filename (st_size sbuf))
            else
              (if \<not> is_reg sbuf \<or> \<not> may_exec sbuf then
                 requestError filename ''403'' ''Forbidden'' ''CS537 Server could not run this CGI program''
               else requestServeDynamic e filename cgiargs)))"

text \<open>
  \<open>getfileinfo\<close> of \<open>server.c\<close>: the size of the requested file and the length of its name. A failed \<open>stat\<close>
  leaves \<open>sbuf\<close> uninitialised; its size field is then \<open>junk_size\<close>.
\<close>

definition getfileinfo :: "'z env_scheme \<Rightarrow> string \<times> string \<times> string \<Rightarrow> int \<Rightarrow> string \<Rightarrow> ('s, int \<times> int) km" where
  "getfileinfo e junk junk_size buf =
     (case sscanf3 buf junk of (method, uri, version) \<Rightarrow>
      bindk (requestParseURI uri) (\<lambda>(is_static, filename, cgiargs).
      ret (case stat_of e filename of None \<Rightarrow> junk_size | Some sbuf \<Rightarrow> int (st_size sbuf), int (length filename))))"

end
