(* ===== verification/Rio.thy ===== *)
theory Rio
  imports Kernel_Prelude
begin

text \<open>
  The robust input and output package of the web server (\<open>sever_client_system/cs537.c\<close>). What the
  descriptor delivers is the list of the outcomes of the coming \<open>read\<close> calls: some bytes, an interrupted
  call, an error; its end is the end of the file. A read of at most \<open>n\<close> bytes leaves the rest of a longer
  piece for the next call. The lemmas show that how the bytes arrive makes no difference.
\<close>

section \<open>System calls\<close>

datatype arrival = Piece string | Interrupted | Failed

datatype 'a sysres = Bytes 'a | EINTR | EIO

fun os_read :: "nat \<Rightarrow> arrival list \<Rightarrow> string sysres \<times> arrival list" where
  "os_read n [] = (Bytes [], [])"
| "os_read n (Interrupted # r) = (EINTR, r)"
| "os_read n (Failed # r) = (EIO, r)"
| "os_read n (Piece b # r) = (if length b \<le> n then (Bytes b, r) else (Bytes (take n b), Piece (drop n b) # r))"

text \<open>The coming \<open>write\<close> calls: how many bytes are taken, at most as many as offered; at the end, all.\<close>

datatype taken = Takes nat | WInterrupted | WFailed

section \<open>The package\<close>

definition RIO_BUFSIZE :: nat where "RIO_BUFSIZE = 8192"

record rio =
  rio_cnt :: int
  rio_bufptr :: nat
  rio_buf :: "nat \<Rightarrow> char"

lemma os_read_EINTR: "os_read n src = (EINTR, r) \<Longrightarrow> length r < length src"
  by (induction n src rule: os_read.induct) (auto split: if_splits)

function rio_readn :: "nat \<Rightarrow> arrival list \<Rightarrow> (int \<times> string) \<times> arrival list" where
  "rio_readn nleft src =
     (if nleft = 0 then ((0, []), src)
      else
        (case os_read nleft src of
           (EINTR, r) \<Rightarrow> rio_readn nleft r
         | (EIO, r) \<Rightarrow> ((-1, []), r)
         | (Bytes c, r) \<Rightarrow>
             if c = [] then ((0, []), r)
             else (case rio_readn (nleft - length c) r of ((rc, bs), r') \<Rightarrow>
               ((if rc < 0 then -1 else rc + int (length c), c @ bs), r'))))"
  by pat_completeness auto
termination
  by (relation "(\<lambda>(nleft, src). nleft) <*mlex*> measure (\<lambda>(nleft, src). length src)")
    (auto simp: wf_mlex mlex_prod_def dest: os_read_EINTR [OF sym])

declare rio_readn.simps [simp del]

text \<open>\<open>rio_writen\<close>: the return value, and what was written.\<close>

function rio_writen :: "string \<Rightarrow> taken list \<Rightarrow> (bool \<times> string) \<times> taken list" where
  "rio_writen buf ws =
     (if buf = [] then ((True, []), ws)
      else
        (case ws of
           [] \<Rightarrow> ((True, buf), [])
         | WInterrupted # r \<Rightarrow> rio_writen buf r
         | WFailed # r \<Rightarrow> ((False, []), r)
         | Takes k # r \<Rightarrow>
             if k = 0 then ((False, []), r)
             else (case rio_writen (drop k buf) r of ((rc, out), r') \<Rightarrow> ((rc, take k buf @ out), r'))))"
  by pat_completeness auto
termination by (relation "measure (\<lambda>(buf, ws). length ws)") auto

declare rio_writen.simps [simp del]

text \<open>The loop of \<open>rio_read\<close> that fills the empty buffer: \<open>None\<close> goes on, \<open>Some rc\<close> returns \<open>rc\<close>.\<close>

function rio_fill :: "rio \<Rightarrow> arrival list \<Rightarrow> int option \<times> rio \<times> arrival list" where
  "rio_fill rp src =
     (if 0 < rio_cnt rp then (None, rp, src)
      else
        (case os_read RIO_BUFSIZE src of
           (EINTR, r) \<Rightarrow> rio_fill (rp\<lparr>rio_cnt := -1\<rparr>) r
         | (EIO, r) \<Rightarrow> (Some (-1), rp\<lparr>rio_cnt := -1\<rparr>, r)
         | (Bytes c, r) \<Rightarrow>
             if c = [] then (Some 0, rp\<lparr>rio_cnt := 0\<rparr>, r)
             else (None, rp\<lparr>rio_cnt := int (length c), rio_bufptr := 0,
               rio_buf := (\<lambda>i. if i < length c then c ! i else rio_buf rp i)\<rparr>, r)))"
  by pat_completeness auto
termination by (relation "measure (\<lambda>(rp, src). length src)") (auto dest: os_read_EINTR [OF sym])

declare rio_fill.simps [simp del]

definition rio_read :: "nat \<Rightarrow> rio \<Rightarrow> arrival list \<Rightarrow> (int \<times> string) \<times> rio \<times> arrival list" where
  "rio_read n rp src =
     (case rio_fill rp src of
        (Some rc, rp1, src1) \<Rightarrow> ((rc, []), rp1, src1)
      | (None, rp1, src1) \<Rightarrow>
          (let cnt = (if rio_cnt rp1 < int n then rio_cnt rp1 else int n) in
           ((cnt, map (\<lambda>i. rio_buf rp1 (rio_bufptr rp1 + i)) [0..<nat cnt]),
            rp1\<lparr>rio_bufptr := rio_bufptr rp1 + nat cnt, rio_cnt := rio_cnt rp1 - cnt\<rparr>, src1)))"

definition rio_readinitb :: "rio \<Rightarrow> rio" where
  "rio_readinitb rp = rp\<lparr>rio_cnt := 0, rio_bufptr := 0\<rparr>"

text \<open>
  \<open>rio_readnb\<close>; after an error \<open>errno\<close> is not \<open>EINTR\<close>, since \<open>rio_read\<close> retries those itself.
\<close>

function rio_readnb :: "nat \<Rightarrow> rio \<Rightarrow> arrival list \<Rightarrow> (int \<times> string) \<times> rio \<times> arrival list" where
  "rio_readnb nleft rp src =
     (if nleft = 0 then ((0, []), rp, src)
      else
        (case rio_read nleft rp src of ((nread, bs), rp1, src1) \<Rightarrow>
           if nread < 0 then ((-1, []), rp1, src1)
           else if nread = 0 then ((0, []), rp1, src1)
           else
             (case rio_readnb (nleft - nat nread) rp1 src1 of ((rc, cs), rp2, src2) \<Rightarrow>
                ((if rc < 0 then -1 else rc + nread, bs @ cs), rp2, src2))))"
  by pat_completeness auto
termination by (relation "measure (\<lambda>(nleft, rp, src). nleft)") auto

declare rio_readnb.simps [simp del]

text \<open>\<open>rio_readlineb\<close> from round \<open>n\<close> on: the return value and the characters stored.\<close>

function readline_loop :: "nat \<Rightarrow> nat \<Rightarrow> rio \<Rightarrow> arrival list \<Rightarrow> (int \<times> string) \<times> rio \<times> arrival list" where
  "readline_loop n maxlen rp src =
     (if maxlen \<le> n then ((int n, []), rp, src)
      else
        (case rio_read 1 rp src of ((rc, bs), rp1, src1) \<Rightarrow>
           if rc = 1 then
             (if hd bs = CHR 0x0A then ((int n, bs), rp1, src1)
              else (case readline_loop (Suc n) maxlen rp1 src1 of ((r, cs), rp2, src2) \<Rightarrow> ((r, bs @ cs), rp2, src2)))
           else if rc = 0 then (if n = 1 then ((0, []), rp1, src1) else ((int n, []), rp1, src1))
           else ((-1, []), rp1, src1)))"
  by pat_completeness auto
termination by (relation "measure (\<lambda>(n, maxlen, rp, src). maxlen - n)") auto

declare readline_loop.simps [simp del]

definition rio_readlineb :: "nat \<Rightarrow> rio \<Rightarrow> arrival list \<Rightarrow> (int \<times> string) \<times> rio \<times> arrival list" where
  "rio_readlineb maxlen rp src = readline_loop 1 maxlen rp src"

section \<open>The bytes of a descriptor\<close>

text \<open>
  \<open>clean src\<close>: no call fails or ends the file early. \<open>arriving\<close> are the bytes to come, \<open>pending\<close> those in the
  buffer.
\<close>

definition clean :: "arrival list \<Rightarrow> bool" where
  "clean src \<longleftrightarrow> Failed \<notin> set src \<and> Piece [] \<notin> set src"

primrec bytes_of :: "arrival \<Rightarrow> string" where
  "bytes_of (Piece b) = b"
| "bytes_of Interrupted = []"
| "bytes_of Failed = []"

definition arriving :: "arrival list \<Rightarrow> string" where
  "arriving src = concat (map bytes_of src)"

definition pending :: "rio \<Rightarrow> string" where
  "pending rp = map (\<lambda>i. rio_buf rp (rio_bufptr rp + i)) [0..<nat (rio_cnt rp)]"

lemma arriving_simps [simp]:
  "arriving [] = []" "arriving (a # r) = bytes_of a @ arriving r"
  by (simp_all add: arriving_def)

lemma clean_simps [simp]:
  "clean []" "clean (Interrupted # r) = clean r" "\<not> clean (Failed # r)" "clean (Piece b # r) = (b \<noteq> [] \<and> clean r)"
  by (auto simp: clean_def)

lemma os_read_clean:
  assumes "os_read n src = (res, r)" and "clean src" and "0 < n"
  shows "clean r \<and> (case res of Bytes c \<Rightarrow> length c \<le> n \<and> c @ arriving r = arriving src \<and> (c = [] \<longrightarrow> src = [])
    | EINTR \<Rightarrow> arriving r = arriving src | EIO \<Rightarrow> False)"
  using assms by (induction n src rule: os_read.induct) (auto split: if_splits)

lemma rio_fill_clean:
  "rio_fill rp src = (res, rp1, src1) \<Longrightarrow> clean src \<Longrightarrow>
   clean src1 \<and> pending rp1 @ arriving src1 = pending rp @ arriving src \<and>
   (if pending rp @ arriving src = [] then res = Some 0 else res = None \<and> 0 < rio_cnt rp1)"
proof (induction rp src arbitrary: res rp1 src1 rule: rio_fill.induct)
  case (1 rp src)
  obtain o1 r where o: "os_read RIO_BUFSIZE src = (o1, r)" by fastforce
  have "0 < RIO_BUFSIZE" by (simp add: RIO_BUFSIZE_def)
  note rd = os_read_clean [OF o 1(3) this]
  show ?case
  proof (cases "0 < rio_cnt rp")
    case True
    then have "pending rp \<noteq> []" by (simp add: pending_def)
    then show ?thesis using 1(2,3) True by (simp add: rio_fill.simps [of rp])
  next
    case False
    then have p: "pending rp = []" by (simp add: pending_def)
    show ?thesis
    proof (cases o1)
      case (Bytes c)
      have "map (\<lambda>i. if i < length c then c ! i else rio_buf rp i) [0..<length c] = c"
        by (rule nth_equalityI) auto
      then show ?thesis using 1(2) False Bytes o rd p
        by (cases "c = []") (auto simp: rio_fill.simps [of rp] pending_def)
    next
      case EINTR
      have q: "pending (rp\<lparr>rio_cnt := -1\<rparr>) = []" by (simp add: pending_def)
      show ?thesis using 1(1) [OF False o [unfolded EINTR, symmetric]] 1(2) False EINTR o rd p q
        by (simp add: rio_fill.simps [of rp])
    next
      case EIO
      then show ?thesis using rd by simp
    qed
  qed
qed

lemma map_upt_split: "c \<le> n \<Longrightarrow> map f [0..<c] @ map (\<lambda>i. f (c + i)) [0..<n - c] = map f [0..<n]"
  by (rule nth_equalityI) (auto simp: nth_append)

lemma rio_read_clean:
  assumes "rio_read n rp src = ((rc, bs), rp1, src1)" and "clean src" and "0 < n"
  shows "clean src1 \<and> bs @ pending rp1 @ arriving src1 = pending rp @ arriving src \<and> rc = int (length bs) \<and>
    length bs \<le> n \<and> (bs = [] \<longleftrightarrow> pending rp @ arriving src = [])"
proof -
  obtain res rp2 src2 where f: "rio_fill rp src = (res, rp2, src2)" by (metis prod_cases3)
  note fc = rio_fill_clean [OF f assms(2)]
  show ?thesis
  proof (cases "pending rp @ arriving src = []")
    case True
    then show ?thesis using assms(1) f fc by (auto simp: rio_read_def)
  next
    case False
    let ?c = "min (nat (rio_cnt rp2)) n"
    have "(if rio_cnt rp2 < int n then rio_cnt rp2 else int n) = int ?c" using fc False by auto
    then have e: "rp1 = rp2\<lparr>rio_bufptr := rio_bufptr rp2 + ?c, rio_cnt := rio_cnt rp2 - int ?c\<rparr>" "src1 = src2"
      "bs = map (\<lambda>i. rio_buf rp2 (rio_bufptr rp2 + i)) [0..<?c]" "rc = int ?c"
      using assms(1) f fc False by (auto simp: rio_read_def Let_def)
    have "nat (rio_cnt rp2 - int ?c) = nat (rio_cnt rp2) - ?c" by arith
    then have "bs @ pending rp1 = pending rp2"
      using map_upt_split [of ?c "nat (rio_cnt rp2)" "\<lambda>i. rio_buf rp2 (rio_bufptr rp2 + i)"]
      by (simp add: e pending_def add.assoc)
    then have "bs @ pending rp1 @ arriving src1 = pending rp @ arriving src" using fc e(2) by (metis append_assoc)
    moreover have "length bs = ?c" "?c \<noteq> 0" using fc False assms(3) by (auto simp: e(3))
    ultimately show ?thesis using fc False e(2,4) by auto
  qed
qed


section \<open>Lines\<close>

text \<open>The text of a line of at most \<open>k\<close> characters, its newline included.\<close>

fun first_line :: "nat \<Rightarrow> string \<Rightarrow> string" where
  "first_line 0 t = []"
| "first_line (Suc k) [] = []"
| "first_line (Suc k) (c # t) = (if c = CHR 0x0A then [c] else c # first_line k t)"

lemma readline_loop_clean:
  "readline_loop n maxlen rp src = ((rc, bs), rp1, src1) \<Longrightarrow> clean src \<Longrightarrow> 1 < n \<Longrightarrow> n \<le> maxlen \<Longrightarrow>
   t = pending rp @ arriving src \<Longrightarrow>
   bs = first_line (maxlen - n) t \<and> clean src1 \<and> bs @ pending rp1 @ arriving src1 = t \<and>
   rc = int (n + length bs) - (if bs \<noteq> [] \<and> last bs = CHR 0x0A then 1 else 0)"
proof (induction n maxlen rp src arbitrary: rc bs rp1 src1 t rule: readline_loop.induct)
  case (1 n maxlen rp src)
  show ?case
  proof (cases "maxlen \<le> n")
    case True
    then show ?thesis using 1(2-6) by (simp add: readline_loop.simps [of n])
  next
    case False
    then obtain k where k: "maxlen - n = Suc k" "maxlen - Suc n = k" by (metis Suc_diff_Suc not_le)
    obtain r b rp2 src2 where rd: "rio_read 1 rp src = ((r, b), rp2, src2)" by (metis prod_cases3 surj_pair)
    note rc = rio_read_clean [OF rd 1(3)]
    show ?thesis
    proof (cases b)
      case Nil
      then show ?thesis using 1(2-6) False rd rc k by (auto simp: readline_loop.simps [of n])
    next
      case (Cons c b')
      with rc have b: "b = [c]" "r = 1" by auto
      have t: "t = c # (pending rp2 @ arriving src2)" using rc b 1(6) by auto
      show ?thesis
      proof (cases "c = CHR 0x0A")
        case True
        then have "rc = int n" "bs = [c]" "rp1 = rp2" "src1 = src2"
          using 1(2) False rd b by (auto simp: readline_loop.simps [of n])
        then show ?thesis using True rc k unfolding t by simp
      next
        case nl: False
        obtain r3 cs rp3 src3 where l: "readline_loop (Suc n) maxlen rp2 src2 = ((r3, cs), rp3, src3)"
          by (metis prod_cases3 surj_pair)
        have p: "hd b \<noteq> CHR 0x0A" "clean src2" "1 < Suc n" "Suc n \<le> maxlen"
          using rc 1(4) False nl b by simp_all
        have ih: "cs = first_line k (pending rp2 @ arriving src2) \<and> clean src3 \<and>
            cs @ pending rp3 @ arriving src3 = pending rp2 @ arriving src2 \<and>
            r3 = int (Suc n + length cs) - (if cs \<noteq> [] \<and> last cs = CHR 0x0A then 1 else 0)"
          using 1(1) [OF False rd [symmetric] refl refl b(2) p(1) l p(2-4) refl] unfolding k(2) .
        have res: "rc = r3" "bs = c # cs" "rp1 = rp3" "src1 = src3"
          using 1(2) False rd b nl l by (auto simp: readline_loop.simps [of n])
        show ?thesis using ih nl unfolding res t k(1) by auto
      qed
    qed
  qed
qed


lemma rio_readlineb_clean:
  assumes "rio_readlineb maxlen rp src = ((rc, bs), rp1, src1)" and "clean src" and "1 < maxlen"
  shows "bs = first_line (maxlen - 1) (pending rp @ arriving src) \<and>
    bs @ pending rp1 @ arriving src1 = pending rp @ arriving src \<and> clean src1 \<and>
    rc = (if bs = [] then 0 else if last bs = CHR 0x0A then int (length bs) else int (length bs) + 1)"
proof -
  obtain k where k: "maxlen - 1 = Suc k" "maxlen - 2 = k" using assms(3) by (metis Suc_diff_Suc diff_Suc_1 numeral_2_eq_2 One_nat_def)
  obtain r b rp2 src2 where rd: "rio_read 1 rp src = ((r, b), rp2, src2)" by (metis prod_cases3 surj_pair)
  note rc = rio_read_clean [OF rd assms(2)]
  show ?thesis
  proof (cases b)
    case Nil
    then show ?thesis using assms(1,3) rd rc k by (auto simp: rio_readlineb_def readline_loop.simps [of "Suc 0"])
  next
    case (Cons c b')
    with rc have b: "b = [c]" "r = 1" by auto
    have t: "pending rp @ arriving src = c # (pending rp2 @ arriving src2)" using rc b by auto
    show ?thesis
    proof (cases "c = CHR 0x0A")
      case True
      then have "rc = 1" "bs = [c]" "rp1 = rp2" "src1 = src2"
        using assms(1,3) rd b by (auto simp: rio_readlineb_def readline_loop.simps [of "Suc 0"])
      then show ?thesis using True rc k unfolding t by simp
    next
      case False
      obtain r3 cs rp3 src3 where l: "readline_loop 2 maxlen rp2 src2 = ((r3, cs), rp3, src3)"
        by (metis prod_cases3 surj_pair)
      have "rc = r3" "bs = c # cs" "rp1 = rp3" "src1 = src3"
        using assms(1,3) rd b False l by (auto simp: rio_readlineb_def readline_loop.simps [of "Suc 0"] numeral_2_eq_2)
      then show ?thesis using readline_loop_clean [OF l _ _ _ refl] rc assms(3) False
        unfolding t k by (auto simp: k)
    qed
  qed
qed

text \<open>
  C28. However the bytes arrive (in any pieces, with interrupted calls in between, some of them already
  buffered), \<open>rio_readlineb\<close> stores the first line of the text, cut at \<open>maxlen - 1\<close> characters, and leaves the
  rest of the text to the next call. It returns 0 at the end of the text; the length of the line if it ends in
  a newline; and one more than the characters stored if the line was cut or the text ended without a newline.
\<close>

theorem rio_readlineb_line:
  assumes "clean src" and "1 < maxlen"
    and L: "L = first_line (maxlen - 1) (pending rp @ arriving src)"
  shows "\<exists>rp1 src1. rio_readlineb maxlen rp src =
      ((if L = [] then 0 else if last L = CHR 0x0A then int (length L) else int (length L) + 1, L), rp1, src1) \<and>
    clean src1 \<and> pending rp1 @ arriving src1 = drop (length L) (pending rp @ arriving src)"
proof -
  obtain rc bs rp1 src1 where e: "rio_readlineb maxlen rp src = ((rc, bs), rp1, src1)" by (metis prod_cases3 surj_pair)
  note c = rio_readlineb_clean [OF e assms(1,2)]
  then have "drop (length bs) (pending rp @ arriving src) = pending rp1 @ arriving src1" by (metis append_eq_conv_conj)
  then show ?thesis using e c L by auto
qed

text \<open>Two lines in three pieces, the first read interrupted; the second line has no newline.\<close>

definition two_lines :: "arrival list" where
  "two_lines = [Interrupted, Piece ''GE'', Piece (''T'' @ [CHR 0x0A] @ ''a''), Piece ''b'']"

definition fresh_rio :: rio where
  "fresh_rio = rio_readinitb \<lparr>rio_cnt = 7, rio_bufptr = 9, rio_buf = (\<lambda>_. CHR ''x'')\<rparr>"

lemma fresh_rio_pending: "pending fresh_rio = []" "clean two_lines"
  by (simp_all add: pending_def fresh_rio_def rio_readinitb_def two_lines_def)

theorem rio_readlineb_line_witness:
  "\<exists>rp1 src1. rio_readlineb 100 fresh_rio two_lines = ((4, ''GET'' @ [CHR 0x0A]), rp1, src1) \<and> clean src1 \<and>
    pending rp1 @ arriving src1 = ''ab''"
proof -
  have t: "arriving two_lines = ''GET'' @ [CHR 0x0A] @ ''ab''" by (simp add: two_lines_def)
  have "first_line 99 (''GET'' @ [CHR 0x0A] @ ''ab'') = ''GET'' @ [CHR 0x0A]" by (simp add: numeral_eq_Suc)
  then show ?thesis
    using rio_readlineb_line [of two_lines 100 "''GET'' @ [CHR 0x0A]" fresh_rio] by (simp add: fresh_rio_pending t)
qed

lemma first_line_ends: "CHR 0x0A \<notin> set w \<Longrightarrow> length w < k \<Longrightarrow> first_line k (w @ [CHR 0x0A]) = w @ [CHR 0x0A]"
proof (induction w arbitrary: k)
  case Nil
  then show ?case by (cases k) auto
next
  case (Cons c w)
  then show ?case by (cases k) auto
qed

lemma rio_readn_clean:
  "rio_readn n src = ((rc, bs), src1) \<Longrightarrow> clean src \<Longrightarrow>
   bs = take n (arriving src) \<and> bs @ arriving src1 = arriving src \<and> rc = int (length bs) \<and> clean src1"
proof (induction n src arbitrary: rc bs src1 rule: rio_readn.induct)
  case (1 n src)
  obtain o1 r where o: "os_read n src = (o1, r)" by fastforce
  show ?case
  proof (cases "n = 0")
    case True
    then show ?thesis using 1(3,4) by (auto simp: rio_readn.simps [of 0])
  next
    case False
    then have rd: "clean r \<and> (case o1 of Bytes c \<Rightarrow> length c \<le> n \<and> c @ arriving r = arriving src \<and> (c = [] \<longrightarrow> src = [])
      | EINTR \<Rightarrow> arriving r = arriving src | EIO \<Rightarrow> False)"
      using os_read_clean [OF o 1(4)] by simp
    show ?thesis
    proof (cases o1)
      case (Bytes c)
      show ?thesis
      proof (cases "c = []")
        case True
        then show ?thesis using 1(3) False Bytes o rd by (auto simp: rio_readn.simps [of n])
      next
        case ne: False
        obtain rc' cs src' where l: "rio_readn (n - length c) r = ((rc', cs), src')" by (metis prod_cases3 surj_pair)
        have ih: "cs = take (n - length c) (arriving r) \<and> cs @ arriving src' = arriving r \<and> rc' = int (length cs) \<and> clean src'"
          using 1(1) [OF False o [symmetric] Bytes ne l] rd by blast
        have "rc = rc' + int (length c)" "bs = c @ cs" "src1 = src'"
          using 1(3) False Bytes o ne l ih by (auto simp: rio_readn.simps [of n])
        moreover have "arriving src = c @ arriving r" "length c \<le> n" using rd Bytes by auto
        ultimately show ?thesis using ih by auto
      qed
    next
      case EINTR
      then show ?thesis using 1(2) [OF False o [symmetric] EINTR] 1(3) False o rd
        by (auto simp: rio_readn.simps [of n])
    next
      case EIO
      then show ?thesis using rd by simp
    qed
  qed
qed

lemma rio_readnb_clean:
  "rio_readnb n rp src = ((rc, bs), rp1, src1) \<Longrightarrow> clean src \<Longrightarrow>
   bs = take n (pending rp @ arriving src) \<and> bs @ pending rp1 @ arriving src1 = pending rp @ arriving src \<and>
   rc = int (length bs) \<and> clean src1"
proof (induction n rp src arbitrary: rc bs rp1 src1 rule: rio_readnb.induct)
  case (1 n rp src)
  obtain r b rp2 src2 where rd: "rio_read n rp src = ((r, b), rp2, src2)" by (metis prod_cases3 surj_pair)
  show ?case
  proof (cases "n = 0")
    case True
    then show ?thesis using 1(2,3) by (auto simp: rio_readnb.simps [of 0])
  next
    case False
    note rc = rio_read_clean [OF rd 1(3)]
    show ?thesis
    proof (cases "b = []")
      case True
      then show ?thesis using 1(2) False rd rc by (auto simp: rio_readnb.simps [of n])
    next
      case ne: False
      obtain rc' cs rp' src' where l: "rio_readnb (n - nat r) rp2 src2 = ((rc', cs), rp', src')"
        by (metis prod_cases3 surj_pair)
      have r: "r = int (length b)" "\<not> r < 0" "r \<noteq> 0" using rc False ne by auto
      have ih: "cs = take (n - length b) (pending rp2 @ arriving src2) \<and>
          cs @ pending rp' @ arriving src' = pending rp2 @ arriving src2 \<and> rc' = int (length cs) \<and> clean src'"
        using 1(1) [OF False rd [symmetric] refl refl r(2,3) l] rc False unfolding r(1) nat_int by blast
      have res: "rc = rc' + r" "bs = b @ cs" "rp1 = rp'" "src1 = src'"
        using 1(2) False rd l ih r by (auto simp: rio_readnb.simps [of n])
      have t: "pending rp @ arriving src = b @ pending rp2 @ arriving src2" "length b \<le> n" using rc False by auto
      show ?thesis using ih t(2) r(1) unfolding t(1) res by auto
    qed
  qed
qed

text \<open>\<open>rio_writen\<close> writes the whole buffer, in order, or reports an error after a prefix of it.\<close>

lemma rio_writen_all:
  "rio_writen buf ws = ((rc, out), ws1) \<Longrightarrow> (\<exists>rest. buf = out @ rest \<and> (rc \<longleftrightarrow> rest = []))"
proof (induction buf ws arbitrary: rc out ws1 rule: rio_writen.induct)
  case (1 buf ws)
  show ?case
  proof (cases "buf = [] \<or> ws = []")
    case True
    then show ?thesis using 1(3) by (cases "buf = []") (auto simp: rio_writen.simps [of buf "[]"] rio_writen.simps [of "[]"])
  next
    case False
    then obtain w r where ws: "ws = w # r" and b: "buf \<noteq> []" by (cases ws) auto
    show ?thesis
    proof (cases w)
      case (Takes k)
      show ?thesis
      proof (cases "k = 0")
        case True
        then show ?thesis using 1(3) ws b Takes by (auto simp: rio_writen.simps [of buf])
      next
        case k: False
        obtain rc' out' ws' where l: "rio_writen (drop k buf) r = ((rc', out'), ws')" by (metis prod_cases3 surj_pair)
        obtain rest where "drop k buf = out' @ rest" "rc' \<longleftrightarrow> rest = []" using 1(1) [OF b ws Takes k l] by blast
        moreover have "rc = rc'" "out = take k buf @ out'" using 1(3) ws b Takes k l by (auto simp: rio_writen.simps [of buf])
        ultimately show ?thesis by (metis append_assoc append_take_drop_id)
      qed
    next
      case WInterrupted
      then show ?thesis using 1(2) [OF b ws WInterrupted] 1(3) ws b by (auto simp: rio_writen.simps [of buf])
    next
      case WFailed
      then show ?thesis using 1(3) ws b by (auto simp: rio_writen.simps [of buf])
    qed
  qed
qed

end
