(* ===== verification/Web_Server.thy ===== *)
theory Web_Server
  imports Web_Request Rio "HOL-Library.Multiset"
begin

text \<open>
  The web server (\<open>sever_client_system/server.c\<close>, and \<open>put\<close> and \<open>get\<close> of \<open>cs537.c\<close>): the main thread accepts
  connections and puts them into a buffer, a pool of threads takes them out, the one for the smallest file
  first, and answers them. The threads are a step relation: a step is one action of one thread, so every
  interleaving is a run. \<open>pthread_cond_signal\<close> wakes some thread that waits; a waiting thread may also wake up
  without a signal, as POSIX allows.
\<close>

section \<open>The buffer of requests\<close>

text \<open>\<open>struct server_t\<close>; an element of \<open>fileinfo\<close> points to a line of \<open>fileinfo_buffer\<close> of \<open>main\<close>.\<close>

record server_t =
  buff_count :: int
  buffer :: "int list"
  buffer_sz :: int
  valid :: "int list"
  size_filename :: "int list"
  size_file :: "int list"
  fileinfo :: "nat list"

definition slots :: "server_t \<Rightarrow> nat list" where
  "slots s = [0..<nat (buffer_sz s)]"

definition put :: "int \<Rightarrow> nat \<Rightarrow> int \<Rightarrow> int \<Rightarrow> server_t \<Rightarrow> server_t" where
  "put value buff file_sz filename_sz s =
     (case find (\<lambda>i. valid s ! i = 0) (slots s) of
        None \<Rightarrow> s
      | Some i \<Rightarrow> s\<lparr>valid := (valid s)[i := 1], buffer := (buffer s)[i := value], fileinfo := (fileinfo s)[i := buff],
          size_file := (size_file s)[i := file_sz], size_filename := (size_filename s)[i := filename_sz],
          buff_count := buff_count s + 1\<rparr>)"

text \<open>The loop of \<open>get\<close>: \<open>temp_val\<close> and \<open>temp_ind\<close>.\<close>

definition get_look :: "server_t \<Rightarrow> nat \<Rightarrow> int \<times> nat \<Rightarrow> int \<times> nat" where
  "get_look s i = (\<lambda>(temp_val, temp_ind).
     if valid s ! i = 1 then
       (if temp_val = -1 then (size_file s ! i, i)
        else if size_file s ! i < temp_val then (size_file s ! i, i)
        else (temp_val, temp_ind))
     else (temp_val, temp_ind))"

definition get_scan :: "server_t \<Rightarrow> int \<times> nat" where
  "get_scan s = fold (get_look s) (slots s) (-1, 0)"

definition get :: "server_t \<Rightarrow> (int \<times> nat) \<times> server_t" where
  "get s = (let temp_ind = snd (get_scan s) in
     ((buffer s ! temp_ind, fileinfo s ! temp_ind),
      s\<lparr>valid := (valid s)[temp_ind := 0], buff_count := buff_count s - 1\<rparr>))"

section \<open>The threads\<close>

datatype thread = Main | Worker nat

text \<open>A request in the hands of the main thread: descriptor, line, size of the file, length of its name.\<close>

type_synonym job = "int \<times> nat \<times> int \<times> int"

text \<open>
  Where the main thread is: at \<open>Accept\<close>, reading the request line; at \<open>pthread_mutex_lock\<close> of \<open>producer\<close>, at
  the test of its loop, in \<open>pthread_cond_wait\<close>, woken and without the mutex, at \<open>put\<close>, at the signal, at the unlock.
\<close>

datatype ppc = PAccept | PLine int | PLock job | PTest job | PWait job | PWoken job | PPut job | PSignal | PUnlock

text \<open>Where a thread of the pool is in \<open>consumer\<close>, with the request it took.\<close>

datatype cpc = CLock | CTest | CWait | CWoken | CGet | CSignal int nat | CUnlock int nat | CHandle int nat

record web =
  sv :: server_t
  owner :: "thread option"
  ppc :: ppc
  cpcs :: "cpc list"
  lines :: "nat \<Rightarrow> string"
  slot :: nat
  exited :: bool

datatype event =
    Accepted int
  | Received int string
  | Answered int string string
  | Died
  | Spurious
  | Internal

text \<open>
  The actions. \<open>stored_line\<close> is what the line buffer holds after \<open>Rio_readlineb\<close>: nothing is stored when the
  client closes the connection without sending anything.
\<close>

definition stored_line :: "int \<Rightarrow> string \<Rightarrow> string \<Rightarrow> string" where
  "stored_line rc bs old = (if rc = 0 then old else takeWhile (\<lambda>c. c \<noteq> CHR 0x00) bs)"

inductive wstep :: "env \<Rightarrow> web \<Rightarrow> event \<Rightarrow> web \<Rightarrow> bool" for e :: env where
  accept: "ppc s = PAccept \<Longrightarrow> wstep e s (Accepted fd) (s\<lparr>ppc := PLine fd\<rparr>)"
| line: "ppc s = PLine fd \<Longrightarrow> rio_readlineb MAXLINE (rio_readinitb rp) src = ((rc, bs), rp1, src1) \<Longrightarrow> 0 \<le> rc \<Longrightarrow>
    l = stored_line rc bs (lines s (slot s)) \<Longrightarrow> getfileinfo e junk jz l () = Done (fsz, nsz) u \<Longrightarrow>
    wstep e s (Received fd l) (s\<lparr>lines := (lines s)(slot s := l), ppc := PLock (fd, slot s, fsz, nsz)\<rparr>)"
| line_error: "ppc s = PLine fd \<Longrightarrow> rio_readlineb MAXLINE (rio_readinitb rp) src = ((rc, bs), rp1, src1) \<Longrightarrow>
    rc < 0 \<or> (\<forall>r u. getfileinfo e junk jz (stored_line rc bs (lines s (slot s))) () \<noteq> Done r u) \<Longrightarrow>
    wstep e s Died (s\<lparr>exited := True\<rparr>)"
| p_lock: "ppc s = PLock j \<Longrightarrow> owner s = None \<Longrightarrow> wstep e s Internal (s\<lparr>owner := Some Main, ppc := PTest j\<rparr>)"
| p_wait: "ppc s = PTest j \<Longrightarrow> buff_count (sv s) = buffer_sz (sv s) \<Longrightarrow>
    wstep e s Internal (s\<lparr>owner := None, ppc := PWait j\<rparr>)"
| p_enter: "ppc s = PTest j \<Longrightarrow> buff_count (sv s) \<noteq> buffer_sz (sv s) \<Longrightarrow> wstep e s Internal (s\<lparr>ppc := PPut j\<rparr>)"
| p_spurious: "ppc s = PWait j \<Longrightarrow> wstep e s Spurious (s\<lparr>ppc := PWoken j\<rparr>)"
| p_relock: "ppc s = PWoken j \<Longrightarrow> owner s = None \<Longrightarrow> wstep e s Internal (s\<lparr>owner := Some Main, ppc := PTest j\<rparr>)"
| p_put: "ppc s = PPut (fd, l, fsz, nsz) \<Longrightarrow>
    wstep e s Internal (s\<lparr>sv := put fd l fsz nsz (sv s), ppc := PSignal\<rparr>)"
| p_signal: "ppc s = PSignal \<Longrightarrow> k < length (cpcs s) \<Longrightarrow> cpcs s ! k = CWait \<Longrightarrow>
    wstep e s Internal (s\<lparr>ppc := PUnlock, cpcs := (cpcs s)[k := CWoken]\<rparr>)"
| p_signal_none: "ppc s = PSignal \<Longrightarrow> CWait \<notin> set (cpcs s) \<Longrightarrow> wstep e s Internal (s\<lparr>ppc := PUnlock\<rparr>)"
| p_unlock: "ppc s = PUnlock \<Longrightarrow>
    wstep e s Internal (s\<lparr>owner := None, ppc := PAccept, slot := (slot s + 1) mod (nat (buffer_sz (sv s)) + 2)\<rparr>)"
| c_lock: "k < length (cpcs s) \<Longrightarrow> cpcs s ! k = CLock \<Longrightarrow> owner s = None \<Longrightarrow>
    wstep e s Internal (s\<lparr>owner := Some (Worker k), cpcs := (cpcs s)[k := CTest]\<rparr>)"
| c_wait: "k < length (cpcs s) \<Longrightarrow> cpcs s ! k = CTest \<Longrightarrow> buff_count (sv s) = 0 \<Longrightarrow>
    wstep e s Internal (s\<lparr>owner := None, cpcs := (cpcs s)[k := CWait]\<rparr>)"
| c_enter: "k < length (cpcs s) \<Longrightarrow> cpcs s ! k = CTest \<Longrightarrow> buff_count (sv s) \<noteq> 0 \<Longrightarrow>
    wstep e s Internal (s\<lparr>cpcs := (cpcs s)[k := CGet]\<rparr>)"
| c_spurious: "k < length (cpcs s) \<Longrightarrow> cpcs s ! k = CWait \<Longrightarrow> wstep e s Spurious (s\<lparr>cpcs := (cpcs s)[k := CWoken]\<rparr>)"
| c_relock: "k < length (cpcs s) \<Longrightarrow> cpcs s ! k = CWoken \<Longrightarrow> owner s = None \<Longrightarrow>
    wstep e s Internal (s\<lparr>owner := Some (Worker k), cpcs := (cpcs s)[k := CTest]\<rparr>)"
| c_get: "k < length (cpcs s) \<Longrightarrow> cpcs s ! k = CGet \<Longrightarrow> get (sv s) = ((fd, l), t) \<Longrightarrow>
    wstep e s Internal (s\<lparr>sv := t, cpcs := (cpcs s)[k := CSignal fd l]\<rparr>)"
| c_signal: "k < length (cpcs s) \<Longrightarrow> cpcs s ! k = CSignal fd l \<Longrightarrow> ppc s = PWait j \<Longrightarrow>
    wstep e s Internal (s\<lparr>cpcs := (cpcs s)[k := CUnlock fd l], ppc := PWoken j\<rparr>)"
| c_signal_none: "k < length (cpcs s) \<Longrightarrow> cpcs s ! k = CSignal fd l \<Longrightarrow> \<forall>j. ppc s \<noteq> PWait j \<Longrightarrow>
    wstep e s Internal (s\<lparr>cpcs := (cpcs s)[k := CUnlock fd l]\<rparr>)"
| c_unlock: "k < length (cpcs s) \<Longrightarrow> cpcs s ! k = CUnlock fd l \<Longrightarrow>
    wstep e s Internal (s\<lparr>owner := None, cpcs := (cpcs s)[k := CHandle fd l]\<rparr>)"
| c_handle: "k < length (cpcs s) \<Longrightarrow> cpcs s ! k = CHandle fd l \<Longrightarrow> requestHandle e junk (lines s l) [] = Done () out \<Longrightarrow>
    wstep e s (Answered fd (lines s l) out) (s\<lparr>cpcs := (cpcs s)[k := CLock]\<rparr>)"
| c_died: "k < length (cpcs s) \<Longrightarrow> cpcs s ! k = CHandle fd l \<Longrightarrow>
    \<forall>out. requestHandle e junk (lines s l) [] \<noteq> Done () out \<Longrightarrow> wstep e s Died (s\<lparr>exited := True\<rparr>)"

text \<open>The state in which \<open>main\<close> enters its loop: \<open>junk\<close> is what \<open>malloc\<close> returned and the line buffers hold.\<close>

definition web_init :: "nat \<Rightarrow> nat \<Rightarrow> server_t \<Rightarrow> (nat \<Rightarrow> string) \<Rightarrow> web" where
  "web_init threads sz junk txt0 =
     \<lparr>sv = junk\<lparr>buff_count := 0, buffer_sz := int sz, valid := replicate sz 0\<rparr>, owner = None, ppc = PAccept,
      cpcs = replicate threads CLock, lines = txt0, slot = 0, exited = False\<rparr>"

inductive wruns :: "env \<Rightarrow> web \<Rightarrow> event list \<Rightarrow> web \<Rightarrow> bool" for e :: env where
  wruns_refl: "wruns e s [] s"
| wruns_step: "wruns e s es t \<Longrightarrow> \<not> exited t \<Longrightarrow> wstep e t ev u \<Longrightarrow> wruns e s (es @ [ev]) u"


section \<open>The contract of the buffer\<close>

text \<open>
  A bounded buffer: a counter, a capacity and a collection of items; \<open>put\<close> needs room, \<open>get\<close> needs an item.
\<close>

locale bounded_buffer =
  fixes ok :: "'s \<Rightarrow> bool" and cnt cap :: "'s \<Rightarrow> int" and items :: "'s \<Rightarrow> 'a multiset"
    and ins :: "'j \<Rightarrow> 's \<Rightarrow> 's" and item :: "'j \<Rightarrow> 'a" and del :: "'s \<Rightarrow> 'a \<times> 's"
  assumes cnt_items: "ok s \<Longrightarrow> cnt s = int (size (items s))"
    and cnt_cap: "ok s \<Longrightarrow> cnt s \<le> cap s"
    and ins_ok: "ok s \<Longrightarrow> cnt s < cap s \<Longrightarrow> ok (ins j s) \<and> items (ins j s) = add_mset (item j) (items s) \<and> cap (ins j s) = cap s"
    and del_ok: "ok s \<Longrightarrow> 0 < cnt s \<Longrightarrow> del s = (x, t) \<Longrightarrow> ok t \<and> items s = add_mset x (items t) \<and> cap t = cap s"
begin

lemma cnt_ins: "ok s \<Longrightarrow> cnt s < cap s \<Longrightarrow> cnt (ins j s) = cnt s + 1"
  by (simp add: cnt_items ins_ok)

lemma cnt_del: "ok s \<Longrightarrow> 0 < cnt s \<Longrightarrow> del s = (x, t) \<Longrightarrow> cnt t = cnt s - 1"
  using del_ok [of s x t] cnt_items [of s] cnt_items [of t] by simp

lemma cnt_nonneg: "ok s \<Longrightarrow> 0 \<le> cnt s"
  by (simp add: cnt_items)

text \<open>Taking until the buffer is empty returns every item once.\<close>

lemma drain: "ok s \<Longrightarrow> \<exists>xs. length xs = nat (cnt s) \<and> items s = mset xs"
  by (metis cnt_items ex_mset nat_int size_mset)

end

definition used :: "server_t \<Rightarrow> nat set" where
  "used s = {i. i < nat (buffer_sz s) \<and> valid s ! i = 1}"

definition buffer_ok :: "server_t \<Rightarrow> bool" where
  "buffer_ok s \<longleftrightarrow> 0 \<le> buffer_sz s \<and> length (valid s) = nat (buffer_sz s) \<and> length (buffer s) = nat (buffer_sz s) \<and>
     length (size_file s) = nat (buffer_sz s) \<and> length (size_filename s) = nat (buffer_sz s) \<and>
     nat (buffer_sz s) \<le> length (fileinfo s) \<and> set (valid s) \<subseteq> {0, 1} \<and> buff_count s = int (card (used s))"

definition requests :: "server_t \<Rightarrow> (int \<times> nat) multiset" where
  "requests s = image_mset (\<lambda>i. (buffer s ! i, fileinfo s ! i)) (mset_set (used s))"

lemma finite_used [simp]: "finite (used s)"
  by (simp add: used_def)

lemma used_lt: "i \<in> used s \<Longrightarrow> i < nat (buffer_sz s)"
  by (simp add: used_def)

lemma card_used: "card (used s) \<le> nat (buffer_sz s)"
  using card_mono [of "{..<nat (buffer_sz s)}" "used s"] by (auto simp: used_def)

text \<open>\<open>put\<close> fills the first slot that is not in use.\<close>

lemma put_eq:
  assumes ok: "buffer_ok s" and room: "buff_count s < buffer_sz s"
  obtains i where "i < nat (buffer_sz s)" "i \<notin> used s" "\<forall>j<i. j \<in> used s"
    "put v b f n s = s\<lparr>valid := (valid s)[i := 1], buffer := (buffer s)[i := v], fileinfo := (fileinfo s)[i := b],
       size_file := (size_file s)[i := f], size_filename := (size_filename s)[i := n], buff_count := buff_count s + 1\<rparr>"
proof -
  have v: "valid s ! i = 0 \<longleftrightarrow> i \<notin> used s" if "i < nat (buffer_sz s)" for i
    using ok that nth_mem [of i "valid s"] unfolding buffer_ok_def used_def by fastforce
  have "\<not> {..<nat (buffer_sz s)} \<subseteq> used s"
    using card_mono [of "used s" "{..<nat (buffer_sz s)}"] ok room by (auto simp: buffer_ok_def)
  then obtain k where "k < nat (buffer_sz s)" "k \<notin> used s" by auto
  then have "find (\<lambda>i. valid s ! i = 0) (slots s) \<noteq> None" using v by (auto simp: find_None_iff slots_def)
  then obtain i where f: "find (\<lambda>i. valid s ! i = 0) (slots s) = Some i" by auto
  then have i: "i < nat (buffer_sz s)" "valid s ! i = 0" "\<forall>j<i. valid s ! j \<noteq> 0"
    by (auto simp: find_Some_iff slots_def)
  then show thesis using that [of i] v f by (auto simp: put_def)
qed

lemma put_ok:
  assumes ok: "buffer_ok s" and room: "buff_count s < buffer_sz s"
  shows "buffer_ok (put v b f n s) \<and> requests (put v b f n s) = add_mset (v, b) (requests s) \<and>
    buffer_sz (put v b f n s) = buffer_sz s"
proof -
  obtain i where i: "i < nat (buffer_sz s)" "i \<notin> used s"
    and p: "put v b f n s = s\<lparr>valid := (valid s)[i := 1], buffer := (buffer s)[i := v], fileinfo := (fileinfo s)[i := b],
       size_file := (size_file s)[i := f], size_filename := (size_filename s)[i := n], buff_count := buff_count s + 1\<rparr>"
    by (rule put_eq [OF ok room])
  have u: "used (put v b f n s) = insert i (used s)"
    using ok i by (auto simp: p used_def nth_list_update buffer_ok_def)
  have "set ((valid s)[i := 1]) \<subseteq> insert 1 (set (valid s))" by (rule set_update_subset_insert)
  then have "buffer_ok (put v b f n s)" using ok i u by (auto simp: p buffer_ok_def)
  moreover have "requests (put v b f n s) = add_mset (v, b) (requests s)"
    unfolding requests_def u using i ok
    by (auto simp: p nth_list_update buffer_ok_def intro!: image_mset_cong)
  ultimately show ?thesis by (simp add: p)
qed

text \<open>What the loop of \<open>get\<close> has found after the first \<open>n\<close> slots.\<close>

lemma scan_used:
  "fold (get_look s) [0..<n] (-1, 0) = (v, k) \<Longrightarrow> n \<le> nat (buffer_sz s) \<Longrightarrow>
   (if \<exists>i<n. i \<in> used s then k < n \<and> k \<in> used s \<and> v = size_file s ! k else v = -1)"
proof (induction n arbitrary: v k)
  case (Suc n)
  obtain v' k' where f: "fold (get_look s) [0..<n] (-1, 0) = (v', k')" by fastforce
  have g: "get_look s n (v', k') = (v, k)" using Suc.prems f by simp
  have n: "n \<in> used s \<longleftrightarrow> valid s ! n = 1" using Suc.prems by (simp add: used_def)
  show ?case using Suc.IH [OF f] Suc.prems(2) g n
    by (auto simp: get_look_def less_Suc_eq split: if_splits)
qed simp

lemma scan_least:
  "fold (get_look s) [0..<n] (-1, 0) = (v, k) \<Longrightarrow> n \<le> nat (buffer_sz s) \<Longrightarrow> \<forall>i\<in>used s. 0 \<le> size_file s ! i \<Longrightarrow>
   i < n \<Longrightarrow> i \<in> used s \<Longrightarrow> size_file s ! k \<le> size_file s ! i \<and> (i < k \<longrightarrow> size_file s ! k < size_file s ! i)"
proof (induction n arbitrary: v k)
  case (Suc n)
  obtain v' k' where f: "fold (get_look s) [0..<n] (-1, 0) = (v', k')" by fastforce
  note u = scan_used [OF f]
  have g: "get_look s n (v', k') = (v, k)" using Suc.prems f by simp
  have n: "n \<in> used s \<longleftrightarrow> valid s ! n = 1" using Suc.prems by (simp add: used_def)
  show ?case using Suc.IH [OF f] Suc.prems(2-5) g n u
    by (fastforce simp: get_look_def less_Suc_eq split: if_splits)
qed simp

lemma get_index:
  assumes ok: "buffer_ok s" and ne: "0 < buff_count s"
  shows "snd (get_scan s) \<in> used s"
proof -
  have "used s \<noteq> {}" using ok ne by (auto simp: buffer_ok_def)
  then have "\<exists>i<nat (buffer_sz s). i \<in> used s" by (auto simp: used_def)
  moreover obtain v k where "fold (get_look s) [0..<nat (buffer_sz s)] (-1, 0) = (v, k)" by fastforce
  ultimately show ?thesis using scan_used [of s "nat (buffer_sz s)" v k] by (simp add: get_scan_def slots_def)
qed

lemma get_ok:
  assumes ok: "buffer_ok s" and ne: "0 < buff_count s" and g: "get s = (x, t)"
  shows "buffer_ok t \<and> requests s = add_mset x (requests t) \<and> buffer_sz t = buffer_sz s"
proof -
  let ?k = "snd (get_scan s)"
  note k = get_index [OF ok ne]
  have t: "t = s\<lparr>valid := (valid s)[?k := 0], buff_count := buff_count s - 1\<rparr>" and x: "x = (buffer s ! ?k, fileinfo s ! ?k)"
    using g by (auto simp: get_def Let_def)
  have u: "used t = used s - {?k}"
    using ok k by (auto simp: t used_def nth_list_update buffer_ok_def split: if_splits)
  have "set ((valid s)[?k := 0]) \<subseteq> insert 0 (set (valid s))" by (rule set_update_subset_insert)
  then have "buffer_ok t" using ok ne k u by (auto simp: t buffer_ok_def)
  moreover have "requests s = add_mset x (requests t)"
    unfolding requests_def u x using k by (simp add: t mset_set.remove)
  ultimately show ?thesis by (simp add: t)
qed

interpretation sff: bounded_buffer buffer_ok buff_count buffer_sz requests
  "\<lambda>(v, b, f, n). put v b f n" "\<lambda>(v, b, f, n). (v, b)" get
proof
  fix s
  assume ok: "buffer_ok s"
  show "buff_count s = int (size (requests s))" using ok by (simp add: buffer_ok_def requests_def)
  show "buff_count s \<le> buffer_sz s" using ok card_used [of s] by (simp add: buffer_ok_def nat_le_iff le_nat_iff)
qed (auto dest: put_ok get_ok)

end
