(* ===== verification/Web_Props.thy ===== *)
theory Web_Props
  imports Web_Server
begin

text \<open>
  The web server: which request the pool takes next, the invariant of its threads, that no request is lost or
  answered twice, that it does not deadlock, and the two ways in which it fails its clients (a line buffer that
  is used again too early, and a request that ends the server).
\<close>

section \<open>Shortest file first\<close>

definition one_two :: server_t where
  "one_two = \<lparr>buff_count = 2, buffer = [7, 8, 9], buffer_sz = 3, valid = [1, 0, 1], size_filename = [4, 4, 4],
     size_file = [90, 1, 20], fileinfo = [0, 1, 2, 0, 0]\<rparr>"

lemma one_two_used: "used one_two = {0, 2}"
  by (auto simp: used_def one_two_def nth_Cons' split: if_splits)

lemma one_two_ok: "buffer_ok one_two"
  by (simp add: buffer_ok_def one_two_used) (simp add: one_two_def)

text \<open>
  C25. From a buffer with requests \<open>get\<close> takes one whose file is smallest, and among those the one in the
  lowest slot; it leaves exactly the others.
\<close>

theorem get_shortest:
  assumes ok: "buffer_ok s" and ne: "0 < buff_count s" and sizes: "\<forall>i\<in>used s. 0 \<le> size_file s ! i"
    and g: "get s = ((fd, l), t)"
  shows "\<exists>k\<in>used s. fd = buffer s ! k \<and> l = fileinfo s ! k \<and>
    (\<forall>i\<in>used s. size_file s ! k \<le> size_file s ! i \<and> (i < k \<longrightarrow> size_file s ! k < size_file s ! i)) \<and>
    used t = used s - {k} \<and> buffer_ok t \<and> requests s = add_mset (fd, l) (requests t)"
proof -
  obtain v k where f: "fold (get_look s) [0..<nat (buffer_sz s)] (-1, 0) = (v, k)" by fastforce
  then have k: "snd (get_scan s) = k" by (simp add: get_scan_def slots_def)
  have u: "k \<in> used s" using get_index [OF ok ne] k by simp
  have "used t = used s - {k}"
    using g u ok by (auto simp: get_def k Let_def used_def nth_list_update buffer_ok_def split: if_splits)
  moreover have "fd = buffer s ! k" "l = fileinfo s ! k" using g by (auto simp: get_def k Let_def)
  moreover have "size_file s ! k \<le> size_file s ! i \<and> (i < k \<longrightarrow> size_file s ! k < size_file s ! i)" if "i \<in> used s" for i
    by (rule scan_least [OF f _ sizes used_lt that]) (use that in simp_all)
  ultimately show ?thesis using get_ok [OF ok ne g] u by blast
qed

theorem get_shortest_witness: "\<exists>t. get one_two = ((9, 2), t) \<and> used t = {0}"
proof -
  obtain fd l t where g: "get one_two = ((fd, l), t)" by (metis surj_pair)
  have "\<forall>i\<in>used one_two. 0 \<le> size_file one_two ! i" "0 < buff_count one_two"
    by (auto simp: one_two_used) (simp_all add: one_two_def)
  from get_shortest [OF one_two_ok this(2,1) g, unfolded one_two_used]
  obtain k where k: "k \<in> {0, 2}" "fd = buffer one_two ! k" "l = fileinfo one_two ! k"
      "\<forall>i\<in>{0, 2}. size_file one_two ! k \<le> size_file one_two ! i \<and> (i < k \<longrightarrow> size_file one_two ! k < size_file one_two ! i)"
      "used t = {0, 2} - {k}"
    by (elim bexE conjE) (rule that)
  have "k = 2" using k(1,4) by (auto simp: one_two_def)
  with k(2,3) have "fd = 9" "l = 2" by (simp_all add: one_two_def)
  moreover have "used t = {0}" unfolding k(5) \<open>k = 2\<close> by auto
  ultimately show ?thesis using g by blast
qed

section \<open>The invariant of the threads\<close>

text \<open>Places at which a thread holds the mutex.\<close>

primrec p_holds :: "ppc \<Rightarrow> bool" where
  "p_holds PAccept = False"
| "p_holds (PLine fd) = False"
| "p_holds (PLock j) = False"
| "p_holds (PTest j) = True"
| "p_holds (PWait j) = False"
| "p_holds (PWoken j) = False"
| "p_holds (PPut j) = True"
| "p_holds PSignal = True"
| "p_holds PUnlock = True"

primrec c_holds :: "cpc \<Rightarrow> bool" where
  "c_holds CLock = False"
| "c_holds CTest = True"
| "c_holds CWait = False"
| "c_holds CWoken = False"
| "c_holds CGet = True"
| "c_holds (CSignal fd l) = True"
| "c_holds (CUnlock fd l) = True"
| "c_holds (CHandle fd l) = False"

definition excl :: "thread option \<Rightarrow> ppc \<Rightarrow> cpc list \<Rightarrow> bool" where
  "excl w p cs \<longleftrightarrow> (w = Some Main \<longleftrightarrow> p_holds p) \<and> (\<forall>k. w = Some (Worker k) \<longleftrightarrow> k < length cs \<and> c_holds (cs ! k))"

definition exclusive :: "web \<Rightarrow> bool" where
  "exclusive s \<longleftrightarrow> excl (owner s) (ppc s) (cpcs s)"

lemma excl_main: "excl w p cs \<Longrightarrow> p_holds q = p_holds p \<Longrightarrow> excl w q cs"
  by (simp add: excl_def)

lemma excl_worker: "excl w p cs \<Longrightarrow> k < length cs \<Longrightarrow> c_holds c = c_holds (cs ! k) \<Longrightarrow> excl w p (cs[k := c])"
  by (auto simp: excl_def nth_list_update)

lemma excl_main_lock: "excl None p cs \<Longrightarrow> p_holds q \<Longrightarrow> excl (Some Main) q cs"
  by (auto simp: excl_def)

lemma excl_main_unlock: "excl w p cs \<Longrightarrow> p_holds p \<Longrightarrow> \<not> p_holds q \<Longrightarrow> excl None q cs"
  by (auto simp: excl_def)

lemma excl_worker_lock: "excl None p cs \<Longrightarrow> k < length cs \<Longrightarrow> c_holds c \<Longrightarrow> excl (Some (Worker k)) p (cs[k := c])"
  by (auto simp: excl_def nth_list_update)

lemma excl_worker_unlock:
  assumes "excl w p cs" and "k < length cs" and "c_holds (cs ! k)" and "\<not> c_holds c"
  shows "excl None p (cs[k := c])"
proof -
  have w: "w = Some (Worker k)" using assms by (auto simp: excl_def)
  have "\<not> p_holds p" using assms(1) w unfolding excl_def by (metis option.inject thread.distinct(1))
  moreover have "j = k" if "j < length cs" "c_holds (cs ! j)" for j
    using assms(1) w that unfolding excl_def by (metis option.inject thread.inject)
  ultimately show ?thesis using assms(2,4) unfolding excl_def
    by (metis length_list_update nth_list_update option.distinct(1))
qed

lemmas excl_rules = excl_main excl_worker excl_main_lock excl_main_unlock excl_worker_lock excl_worker_unlock

definition guarded :: "web \<Rightarrow> bool" where
  "guarded s \<longleftrightarrow> buffer_ok (sv s) \<and> (\<forall>j. ppc s = PPut j \<longrightarrow> buff_count (sv s) < buffer_sz (sv s)) \<and>
     (\<forall>k<length (cpcs s). cpcs s ! k = CGet \<longrightarrow> 0 < buff_count (sv s))"

text \<open>A waiting thread has nothing to do, or another one is about to wake somebody up or is awake itself.\<close>

definition someone_up :: "cpc list \<Rightarrow> bool" where
  "someone_up cs \<longleftrightarrow> (\<exists>k<length cs. cs ! k \<noteq> CWait)"

definition signalling :: "cpc list \<Rightarrow> bool" where
  "signalling cs \<longleftrightarrow> (\<exists>k<length cs. \<exists>fd l. cs ! k = CSignal fd l)"

definition awake :: "web \<Rightarrow> bool" where
  "awake s \<longleftrightarrow> (0 < buff_count (sv s) \<longrightarrow> ppc s = PSignal \<or> someone_up (cpcs s)) \<and>
     ((\<exists>j. ppc s = PWait j) \<longrightarrow> buff_count (sv s) < buffer_sz (sv s) \<longrightarrow> signalling (cpcs s))"

lemma someone_up_upd: "k < length cs \<Longrightarrow> c \<noteq> CWait \<Longrightarrow> someone_up (cs[k := c])"
  unfolding someone_up_def by (metis length_list_update nth_list_update_eq)

lemma signalling_upd:
  "signalling cs \<Longrightarrow> k < length cs \<Longrightarrow> \<forall>fd l. cs ! k \<noteq> CSignal fd l \<Longrightarrow> signalling (cs[k := c])"
  unfolding signalling_def by (metis length_list_update nth_list_update_neq)

lemma signalling_new: "k < length cs \<Longrightarrow> signalling (cs[k := CSignal fd l])"
  unfolding signalling_def by (metis length_list_update nth_list_update_eq)

lemmas awake_rules = someone_up_upd signalling_upd signalling_new

lemma exclusive_step:
  assumes "wstep e s ev t" and "exclusive s"
  shows "exclusive t"
  using assms
proof (cases rule: wstep.cases)
  case (c_signal k fd l j)
  have "excl (owner s) (ppc s) ((cpcs s)[k := CUnlock fd l])"
    using assms(2) c_signal by (intro excl_worker) (auto simp: exclusive_def)
  then show ?thesis using c_signal by (auto simp: exclusive_def elim: excl_main)
next
  case (p_signal k)
  have "excl (owner s) (ppc s) ((cpcs s)[k := CWoken])"
    using assms(2) p_signal by (intro excl_worker) (auto simp: exclusive_def)
  then show ?thesis using p_signal by (auto simp: exclusive_def elim: excl_main)
qed (use assms(2) in \<open>auto simp: exclusive_def intro: excl_rules\<close>)


lemma main_alone: "exclusive s \<Longrightarrow> p_holds (ppc s) \<Longrightarrow> k < length (cpcs s) \<Longrightarrow> \<not> c_holds (cpcs s ! k)"
  unfolding exclusive_def excl_def by (metis option.inject thread.distinct(1))

lemma worker_alone:
  assumes "exclusive s" and "k < length (cpcs s)" and "c_holds (cpcs s ! k)"
  shows "\<not> p_holds (ppc s)" and "j < length (cpcs s) \<Longrightarrow> c_holds (cpcs s ! j) \<Longrightarrow> j = k"
proof -
  have w: "owner s = Some (Worker k)" using assms by (auto simp: exclusive_def excl_def)
  show "\<not> p_holds (ppc s)" using assms(1) w unfolding exclusive_def excl_def by (metis option.inject thread.distinct(1))
  show "j = k" if "j < length (cpcs s)" "c_holds (cpcs s ! j)"
    using assms(1) w that unfolding exclusive_def excl_def by (metis option.inject thread.inject)
qed

lemma guarded_step:
  assumes st: "wstep e s ev t" and ex: "exclusive s" and gd: "guarded s"
  shows "guarded t \<and> buffer_sz (sv t) = buffer_sz (sv s) \<and> length (cpcs t) = length (cpcs s)"
  using st
proof (cases rule: wstep.cases)
  case (p_put fd l fsz nsz)
  have room: "buff_count (sv s) < buffer_sz (sv s)" and ok: "buffer_ok (sv s)" using gd p_put by (auto simp: guarded_def)
  have "cpcs s ! k \<noteq> CGet" if "k < length (cpcs s)" for k using main_alone [OF ex _ that] p_put(3) by auto
  then show ?thesis using put_ok [OF ok room] p_put by (auto simp: guarded_def)
next
  case (c_get k fd l u)
  have ne: "0 < buff_count (sv s)" and ok: "buffer_ok (sv s)" using gd c_get by (auto simp: guarded_def)
  have "\<not> p_holds (ppc s)" "cpcs s ! j \<noteq> CGet" if "j < length (cpcs s)" "j \<noteq> k" for j
    using worker_alone [OF ex c_get(3)] c_get(4) that by auto
  moreover have "\<not> p_holds (ppc s)" using worker_alone(1) [OF ex c_get(3)] c_get(4) by simp
  ultimately show ?thesis using get_ok [OF ok ne c_get(5)] c_get by (auto simp: guarded_def nth_list_update)
next
  case (p_enter j)
  have "buff_count (sv s) \<le> buffer_sz (sv s)" using gd sff.cnt_cap by (simp add: guarded_def)
  then show ?thesis using gd p_enter by (auto simp: guarded_def)
next
  case (c_enter k)
  have "0 \<le> buff_count (sv s)" using gd sff.cnt_nonneg by (simp add: guarded_def)
  then show ?thesis using gd c_enter by (auto simp: guarded_def nth_list_update)
qed (use gd in \<open>auto simp: guarded_def nth_list_update\<close>)

lemma awake_step:
  assumes st: "wstep e s ev t" and ex: "exclusive s" and gd: "guarded s" and aw: "awake s"
    and ne: "cpcs s \<noteq> []"
  shows "awake t"
  using st
proof (cases rule: wstep.cases)
  case (p_put fd l fsz nsz)
  then show ?thesis using aw by (auto simp: awake_def)
next
  case p_signal_none
  then have "cpcs s ! 0 \<noteq> CWait" using ne nth_mem [of 0 "cpcs s"] by force
  then have "someone_up (cpcs s)" using ne by (auto simp: someone_up_def)
  then show ?thesis using p_signal_none by (simp add: awake_def)
next
  case (c_wait k)
  then show ?thesis using aw by (auto simp: awake_def intro: awake_rules)
next
  case (p_wait j)
  then show ?thesis using aw by (auto simp: awake_def)
qed (use aw in \<open>auto simp: awake_def intro: awake_rules\<close>)


text \<open>The arrays \<open>main\<close> allocates; what they hold does not matter.\<close>

definition allocated :: "nat \<Rightarrow> server_t \<Rightarrow> bool" where
  "allocated sz s \<longleftrightarrow> length (buffer s) = sz \<and> length (size_file s) = sz \<and> length (size_filename s) = sz \<and> length (fileinfo s) = sz + 2"

lemma init_used: "used (sv (web_init n sz junk txt0)) = {}"
  by (auto simp: used_def web_init_def)

lemma init_inv:
  assumes "allocated sz junk"
  shows "exclusive (web_init n sz junk txt0)" "guarded (web_init n sz junk txt0)" "awake (web_init n sz junk txt0)"
proof -
  show "exclusive (web_init n sz junk txt0)" by (simp add: exclusive_def excl_def web_init_def)
  show "awake (web_init n sz junk txt0)" by (simp add: awake_def web_init_def)
  show "guarded (web_init n sz junk txt0)"
    using assms init_used [of n sz junk txt0] by (simp add: guarded_def buffer_ok_def allocated_def) (auto simp: web_init_def)
qed

lemma reachable_inv:
  assumes "wruns e (web_init n sz junk txt0) es s" and "allocated sz junk" and "0 < n"
  shows "exclusive s \<and> guarded s \<and> awake s \<and> length (cpcs s) = n \<and> buffer_sz (sv s) = int sz"
  using assms
proof (induction "web_init n sz junk txt0" es s rule: wruns.induct)
  case wruns_refl
  then show ?case using init_inv [of sz junk n txt0] by (simp add: web_init_def)
next
  case (wruns_step es t ev u)
  then have "exclusive t" "guarded t" "awake t" "length (cpcs t) = n" "buffer_sz (sv t) = int sz" by simp_all
  moreover from this have "cpcs t \<noteq> []" using wruns_step.prems by auto
  ultimately show ?case
    using exclusive_step [OF wruns_step(4)] guarded_step [OF wruns_step(4)] awake_step [OF wruns_step(4)] by auto
qed

lemma wruns_trace: "wruns e s es t \<Longrightarrow> wruns e t fs u \<Longrightarrow> wruns e s (es @ fs) u"
  by (rotate_tac, induction rule: wruns.induct) (auto intro: wruns.intros simp flip: append_assoc)


section \<open>No request is lost\<close>

text \<open>The descriptors in the hands of a thread, and all of them that are in the server.\<close>

primrec p_fds :: "ppc \<Rightarrow> int multiset" where
  "p_fds PAccept = {#}"
| "p_fds (PLine fd) = {#fd#}"
| "p_fds (PLock j) = {#fst j#}"
| "p_fds (PTest j) = {#fst j#}"
| "p_fds (PWait j) = {#fst j#}"
| "p_fds (PWoken j) = {#fst j#}"
| "p_fds (PPut j) = {#fst j#}"
| "p_fds PSignal = {#}"
| "p_fds PUnlock = {#}"

primrec c_fds :: "cpc \<Rightarrow> int multiset" where
  "c_fds CLock = {#}"
| "c_fds CTest = {#}"
| "c_fds CWait = {#}"
| "c_fds CWoken = {#}"
| "c_fds CGet = {#}"
| "c_fds (CSignal fd l) = {#fd#}"
| "c_fds (CUnlock fd l) = {#fd#}"
| "c_fds (CHandle fd l) = {#fd#}"

definition in_server :: "web \<Rightarrow> int multiset" where
  "in_server s = p_fds (ppc s) + image_mset fst (requests (sv s)) + sum_list (map c_fds (cpcs s))"

primrec ev_in :: "event \<Rightarrow> int multiset" where
  "ev_in (Accepted fd) = {#fd#}"
| "ev_in (Received fd l) = {#}"
| "ev_in (Answered fd l out) = {#}"
| "ev_in Died = {#}"
| "ev_in Spurious = {#}"
| "ev_in Internal = {#}"

primrec ev_out :: "event \<Rightarrow> int multiset" where
  "ev_out (Accepted fd) = {#}"
| "ev_out (Received fd l) = {#}"
| "ev_out (Answered fd l out) = {#fd#}"
| "ev_out Died = {#}"
| "ev_out Spurious = {#}"
| "ev_out Internal = {#}"

lemma sum_upd: "k < length cs \<Longrightarrow> sum_list (map c_fds (cs[k := c])) + c_fds (cs ! k) = sum_list (map c_fds cs) + c_fds c"
proof (induction cs arbitrary: k)
  case (Cons x cs)
  then show ?case by (cases k) (auto simp: ac_simps)
qed simp

lemma sum_upd_same: "k < length cs \<Longrightarrow> c_fds c = c_fds (cs ! k) \<Longrightarrow> sum_list (map c_fds (cs[k := c])) = sum_list (map c_fds cs)"
  using sum_upd [of k cs c] by simp

lemma sum_idle: "\<forall>c\<in>set cs. c = CWait \<Longrightarrow> sum_list (map c_fds cs) = {#}"
  by (induction cs) auto

lemma conserve_step:
  assumes st: "wstep e s ev t" and gd: "guarded s"
  shows "in_server t + ev_out ev = in_server s + ev_in ev"
  using st
proof (cases rule: wstep.cases)
  case (p_put fd l fsz nsz)
  then show ?thesis using put_ok [of "sv s" fd l fsz nsz] gd by (auto simp: in_server_def guarded_def)
next
  case (c_get k fd l u)
  then show ?thesis using get_ok [of "sv s" "(fd, l)" u] gd sum_upd [of k "cpcs s" "CSignal fd l"]
    by (auto simp: in_server_def guarded_def)
next
  case (c_handle k fd l junk out)
  then show ?thesis using sum_upd [of k "cpcs s" CLock] by (simp add: in_server_def)
qed (auto simp: in_server_def sum_upd_same)


section \<open>No deadlock\<close>

lemma line_step:
  assumes "ppc s = PLine fd"
  shows "\<exists>ev t. wstep e s ev t \<and> ev \<noteq> Spurious \<and> (\<forall>fd. ev \<noteq> Accepted fd)"
proof -
  obtain rc bs rp1 src1 where r: "rio_readlineb MAXLINE (rio_readinitb undefined) [] = ((rc, bs), rp1, src1)"
    by (metis prod_cases3 surj_pair)
  show ?thesis
  proof (cases "rc < 0 \<or> (\<forall>r u. getfileinfo e undefined 0 (stored_line rc bs (lines s (slot s))) () \<noteq> Done r u)")
    case True
    then show ?thesis using wstep.line_error [OF assms r True] by blast
  next
    case False
    then obtain fsz nsz u where "getfileinfo e undefined 0 (stored_line rc bs (lines s (slot s))) () = Done (fsz, nsz) u" "0 \<le> rc"
      by fastforce
    then show ?thesis using wstep.line [OF assms r _ refl] by blast
  qed
qed

lemma holder_step_main:
  assumes "p_holds (ppc s)"
  shows "\<exists>t. wstep e s Internal t"
proof (cases "ppc s")
  case (PTest j)
  then show ?thesis using wstep.p_wait [OF PTest] wstep.p_enter [OF PTest] by blast
next
  case (PPut j)
  then show ?thesis by (cases j) (auto intro: wstep.p_put)
next
  case PSignal
  then show ?thesis using wstep.p_signal [OF PSignal] wstep.p_signal_none [OF PSignal] by (metis in_set_conv_nth)
qed (use assms in \<open>auto intro: wstep.p_unlock\<close>)

lemma worker_step:
  assumes k: "k < length (cpcs s)" and h: "c_holds (cpcs s ! k) \<or> (owner s = None \<and> cpcs s ! k \<in> {CLock, CWoken})"
  shows "\<exists>t. wstep e s Internal t"
proof (cases "cpcs s ! k")
  case CTest
  then show ?thesis using wstep.c_wait [OF k CTest] wstep.c_enter [OF k CTest] by blast
next
  case CGet
  obtain fd l t where "get (sv s) = ((fd, l), t)" by (metis surj_pair)
  then show ?thesis using wstep.c_get [OF k CGet] by blast
next
  case (CSignal fd l)
  then show ?thesis using wstep.c_signal [OF k CSignal] wstep.c_signal_none [OF k CSignal] by blast
qed (use k h in \<open>auto intro: wstep.intros\<close>)

lemma handle_step:
  assumes k: "k < length (cpcs s)" and h: "cpcs s ! k = CHandle fd l"
  shows "\<exists>ev t. wstep e s ev t \<and> ev \<noteq> Spurious \<and> (\<forall>fd. ev \<noteq> Accepted fd)"
proof (cases "\<exists>out. requestHandle e undefined (lines s l) [] = Done () out")
  case True
  then show ?thesis using wstep.c_handle [OF k h] by blast
next
  case False
  then show ?thesis using wstep.c_died [OF k h] by blast
qed



section \<open>A line buffer is used again while it is needed\<close>

text \<open>Lines a client can send and the server can answer, and states between two requests.\<close>

definition no_words :: "string \<times> string \<times> string" where
  "no_words = ([], [], [])"

definition sendable :: "string \<Rightarrow> bool" where
  "sendable l \<longleftrightarrow> (\<exists>w. l = w @ [CHR 0x0A] \<and> CHR 0x0A \<notin> set w \<and> CHR 0x00 \<notin> set w \<and> length w + 1 < MAXLINE)"

definition queued :: "env \<Rightarrow> string \<Rightarrow> bool" where
  "queued e l \<longleftrightarrow> sendable l \<and> (\<exists>r u. getfileinfo e no_words 0 l () = Done r u)"

definition served :: "env \<Rightarrow> string \<Rightarrow> string \<Rightarrow> bool" where
  "served e l out \<longleftrightarrow> queued e l \<and> requestHandle e no_words l [] = Done () out"

lemma served_queued: "served e l out \<Longrightarrow> queued e l"
  by (simp add: served_def)

definition between :: "(int \<times> nat) multiset \<Rightarrow> web \<Rightarrow> bool" where
  "between R s \<longleftrightarrow> exclusive s \<and> guarded s \<and> owner s = None \<and> ppc s = PAccept \<and> CWait \<notin> set (cpcs s) \<and> \<not> exited s \<and>
     requests (sv s) = R"

lemma stored_sendable:
  assumes "sendable l"
  obtains rc bs rp src rp1 src1 where "rio_readlineb MAXLINE (rio_readinitb rp) src = ((rc, bs), rp1, src1)"
    "0 \<le> rc" "stored_line rc bs old = l"
proof -
  obtain w where w: "l = w @ [CHR 0x0A]" "CHR 0x0A \<notin> set w" "CHR 0x00 \<notin> set w" "length w + 1 < MAXLINE"
    using assms by (auto simp: sendable_def)
  let ?rp = "rio_readinitb undefined"
  obtain rc bs rp1 src1 where r: "rio_readlineb MAXLINE ?rp [Piece l] = ((rc, bs), rp1, src1)"
    by (metis prod_cases3 surj_pair)
  have "pending ?rp = []" by (simp add: pending_def rio_readinitb_def)
  moreover have "first_line (MAXLINE - 1) l = l" unfolding w(1) using w(2,4) by (intro first_line_ends) auto
  ultimately have "bs = l" "rc = int (length l)"
    using rio_readlineb_clean [OF r] w by (auto simp: MAXLINE_def)
  moreover have "takeWhile (\<lambda>c. c \<noteq> CHR 0x00) l = l" using w by (auto simp: takeWhile_eq_all_conv)
  ultimately show thesis using that [OF r] w(1) by (auto simp: stored_line_def)
qed

lemma wruns_cons: "wstep e s ev t \<Longrightarrow> \<not> exited s \<Longrightarrow> wruns e t es u \<Longrightarrow> wruns e s (ev # es) u"
  using wruns_trace [of e s "[ev]" t es u] wruns.wruns_step [OF wruns.wruns_refl, of s e ev t] by simp

text \<open>The main thread takes a connection through \<open>producer\<close>.\<close>

lemma deliver:
  assumes b: "between {#} s" and l: "queued e l" and sz: "buffer_sz (sv s) = int sz" "0 < sz"
  shows "\<exists>t. wruns e s ([Accepted fd, Received fd l] @ replicate 5 Internal) t \<and> between {#(fd, slot s)#} t \<and>
    cpcs t = cpcs s \<and> lines t = (lines s)(slot s := l) \<and> slot t = (slot s + 1) mod (sz + 2) \<and> buffer_sz (sv t) = int sz"
proof -
  have ok: "buffer_ok (sv s)" and ex: "exclusive s" using b by (auto simp: between_def guarded_def)
  have z: "buff_count (sv s) = 0" using sff.cnt_items [OF ok] b by (simp add: between_def)
  have sl: "sendable l" and "\<exists>r u. getfileinfo e no_words 0 l () = Done r u" using l by (auto simp: queued_def)
  then obtain fsz nsz u where g: "getfileinfo e no_words 0 l () = Done (fsz, nsz) u" by auto
  obtain rc bs rp src rp1 src1 where r: "rio_readlineb MAXLINE (rio_readinitb rp) src = ((rc, bs), rp1, src1)"
    "0 \<le> rc" "stored_line rc bs (lines s (slot s)) = l" by (rule stored_sendable [OF sl])
  let ?j = "(fd, slot s, fsz, nsz)"
  let ?s1 = "s\<lparr>ppc := PLine fd\<rparr>"
  let ?s2 = "?s1\<lparr>lines := (lines ?s1)(slot ?s1 := l), ppc := PLock (fd, slot ?s1, fsz, nsz)\<rparr>"
  let ?s3 = "?s2\<lparr>owner := Some Main, ppc := PTest ?j\<rparr>"
  let ?s4 = "?s3\<lparr>ppc := PPut ?j\<rparr>"
  let ?s5 = "?s4\<lparr>sv := put fd (slot s) fsz nsz (sv ?s4), ppc := PSignal\<rparr>"
  let ?s6 = "?s5\<lparr>ppc := PUnlock\<rparr>"
  let ?s7 = "?s6\<lparr>owner := None, ppc := PAccept, slot := (slot ?s6 + 1) mod (nat (buffer_sz (sv ?s6)) + 2)\<rparr>"
  have p: "buffer_ok (sv ?s5) \<and> requests (sv ?s5) = {#(fd, slot s)#} \<and> buffer_sz (sv ?s5) = int sz"
    using put_ok [OF ok] z sz b by (auto simp: between_def)
  have 1: "wstep e s (Accepted fd) ?s1" by (rule wstep.accept) (use b in \<open>simp add: between_def\<close>)
  have 2: "wstep e ?s1 (Received fd l) ?s2" by (rule wstep.line [OF _ r(1,2) _ g]) (use r(3) in simp_all)
  have 3: "wstep e ?s2 Internal ?s3" by (rule wstep.p_lock) (use b in \<open>simp_all add: between_def\<close>)
  have 4: "wstep e ?s3 Internal ?s4" by (rule wstep.p_enter) (use z sz in simp_all)
  have 5: "wstep e ?s4 Internal ?s5" by (rule wstep.p_put) simp
  have 6: "wstep e ?s5 Internal ?s6" by (rule wstep.p_signal_none) (use b in \<open>simp_all add: between_def\<close>)
  have 7: "wstep e ?s6 Internal ?s7" by (rule wstep.p_unlock) simp
  have "wruns e s [Accepted fd, Received fd l, Internal, Internal, Internal, Internal, Internal] ?s7"
    by (rule wruns_cons [OF 1] wruns_cons [OF 2] wruns_cons [OF 3] wruns_cons [OF 4] wruns_cons [OF 5]
        wruns_cons [OF 6] wruns_cons [OF 7] wruns.wruns_refl, (use b in \<open>simp add: between_def\<close>)?)+
  moreover have "exclusive ?s7" using ex b by (auto simp: exclusive_def excl_def between_def)
  moreover have "CGet \<notin> set (cpcs s)" using b by (auto simp: between_def in_set_conv_nth exclusive_def excl_def)
  ultimately show ?thesis using b p by (auto simp: between_def guarded_def eval_nat_numeral in_set_conv_nth intro!: exI [of _ ?s7])
qed

text \<open>A thread of the pool takes the only request.\<close>

lemma take_request:
  assumes b: "between {#(fd, l)#} s" and k: "k < length (cpcs s)" "cpcs s ! k = CLock"
  shows "\<exists>t. wruns e s (replicate 5 Internal) t \<and> between {#} t \<and> cpcs t = (cpcs s)[k := CHandle fd l] \<and>
    lines t = lines s \<and> slot t = slot s \<and> buffer_sz (sv t) = buffer_sz (sv s)"
proof -
  have ok: "buffer_ok (sv s)" and ex: "exclusive s" using b by (auto simp: between_def guarded_def)
  have z: "buff_count (sv s) = 1" using sff.cnt_items [OF ok] b by (simp add: between_def)
  obtain fd' l' v where g: "get (sv s) = ((fd', l'), v)" by (metis surj_pair)
  have v: "buffer_ok v" "(fd', l') = (fd, l)" "requests v = {#}" "buffer_sz v = buffer_sz (sv s)"
    using get_ok [OF ok _ g] z b by (auto simp: between_def)
  let ?s1 = "s\<lparr>owner := Some (Worker k), cpcs := (cpcs s)[k := CTest]\<rparr>"
  let ?s2 = "?s1\<lparr>cpcs := (cpcs ?s1)[k := CGet]\<rparr>"
  let ?s3 = "?s2\<lparr>sv := v, cpcs := (cpcs ?s2)[k := CSignal fd l]\<rparr>"
  let ?s4 = "?s3\<lparr>cpcs := (cpcs ?s3)[k := CUnlock fd l]\<rparr>"
  let ?s5 = "?s4\<lparr>owner := None, cpcs := (cpcs ?s4)[k := CHandle fd l]\<rparr>"
  have 1: "wstep e s Internal ?s1" by (rule wstep.c_lock) (use b k in \<open>simp_all add: between_def\<close>)
  have 2: "wstep e ?s1 Internal ?s2" by (rule wstep.c_enter) (use k z in simp_all)
  have 3: "wstep e ?s2 Internal ?s3" by (rule wstep.c_get) (use k g v(2) in simp_all)
  have 4: "wstep e ?s3 Internal ?s4" by (rule wstep.c_signal_none) (use b k in \<open>simp_all add: between_def\<close>)
  have 5: "wstep e ?s4 Internal ?s5" by (rule wstep.c_unlock) (use k in simp_all)
  have "wruns e s [Internal, Internal, Internal, Internal, Internal] ?s5"
    by (rule wruns_cons [OF 1] wruns_cons [OF 2] wruns_cons [OF 3] wruns_cons [OF 4] wruns_cons [OF 5]
        wruns.wruns_refl, (use b in \<open>simp add: between_def\<close>)?)+
  moreover have "exclusive ?s5"
    using ex b k by (auto simp: exclusive_def between_def intro: excl_worker)
  moreover have "CGet \<notin> set (cpcs s)" using b by (auto simp: between_def in_set_conv_nth exclusive_def excl_def)
  then have "guarded ?s5" using v b k by (auto simp: guarded_def between_def nth_list_update in_set_conv_nth)
  moreover have "set (cpcs ?s5) \<subseteq> insert (CHandle fd l) (set (cpcs s))" by (simp add: set_update_subset_insert)
  ultimately show ?thesis using b v by (auto simp: between_def eval_nat_numeral intro!: exI [of _ ?s5])
qed

lemma answer_request:
  assumes b: "between R s" and k: "k < length (cpcs s)" "cpcs s ! k = CHandle fd l" and out: "requestHandle e junk (lines s l) [] = Done () out"
  shows "\<exists>t. wruns e s [Answered fd (lines s l) out] t \<and> between R t \<and> cpcs t = (cpcs s)[k := CLock] \<and>
    lines t = lines s \<and> slot t = slot s \<and> buffer_sz (sv t) = buffer_sz (sv s)"
proof -
  let ?t = "s\<lparr>cpcs := (cpcs s)[k := CLock]\<rparr>"
  have st: "wstep e s (Answered fd (lines s l) out) ?t" by (rule wstep.c_handle [OF k out])
  have "wruns e s [Answered fd (lines s l) out] ?t"
    by (rule wruns_cons [OF st] wruns.wruns_refl, (use b in \<open>simp add: between_def\<close>)?)+
  moreover have "exclusive ?t" "guarded ?t" using exclusive_step [OF st] guarded_step [OF st] b by (auto simp: between_def)
  moreover have "set (cpcs ?t) \<subseteq> insert CLock (set (cpcs s))" by (simp add: set_update_subset_insert)
  ultimately show ?thesis using b by (auto simp: between_def intro!: exI [of _ ?t])
qed



text \<open>The thread \<open>k\<close> answers \<open>m\<close> requests for \<open>l\<close> on descriptor \<open>fd\<close>, one after the other.\<close>

lemma serve_many:
  assumes "between {#} s" and k: "k < length (cpcs s)" "cpcs s ! k = CLock" and l: "served e l out"
    and "buffer_sz (sv s) = int sz" "0 < sz" and "slot s < sz + 2"
  shows "\<exists>es t. wruns e s es t \<and> between {#} t \<and> cpcs t = cpcs s \<and> slot t = (slot s + m) mod (sz + 2) \<and>
    buffer_sz (sv t) = int sz \<and> set es \<subseteq> {Accepted fd, Received fd l, Internal, Answered fd l out}"
proof (induction m)
  case 0
  show ?case using assms by (auto intro!: exI [of _ "[]"] exI [of _ s] wruns.wruns_refl)
next
  case (Suc m)
  then obtain es t where t: "wruns e s es t" "between {#} t" "cpcs t = cpcs s" "slot t = (slot s + m) mod (sz + 2)"
    "buffer_sz (sv t) = int sz" "set es \<subseteq> {Accepted fd, Received fd l, Internal, Answered fd l out}" by blast
  from deliver [OF t(2) served_queued [OF l] t(5) assms(6)] obtain u where u: "wruns e t ([Accepted fd, Received fd l] @ replicate 5 Internal) u"
    "between {#(fd, slot t)#} u" "cpcs u = cpcs t" "lines u = (lines t)(slot t := l)" "slot u = (slot t + 1) mod (sz + 2)"
    "buffer_sz (sv u) = int sz" by blast
  from take_request [OF u(2), of k e] k u(3) t(3) obtain v where v: "wruns e u (replicate 5 Internal) v" "between {#} v"
    "cpcs v = (cpcs u)[k := CHandle fd (slot t)]" "lines v = lines u" "slot v = slot u" "buffer_sz (sv v) = buffer_sz (sv u)" by auto
  have "requestHandle e no_words (lines v (slot t)) [] = Done () out" using l u(4) v(4) by (simp add: served_def)
  from answer_request [OF v(2) _ _ this, of k fd] k v(3) u(3) t(3) obtain w where w: "wruns e v [Answered fd (lines v (slot t)) out] w"
    "between {#} w" "cpcs w = (cpcs v)[k := CLock]" "slot w = slot v" "buffer_sz (sv w) = buffer_sz (sv v)" by auto
  have "cpcs w = cpcs s" using k w(3) v(3) u(3) t(3) by (simp add: list_update_same_conv [THEN iffD2])
  moreover have "slot w = (slot s + Suc m) mod (sz + 2)" using w(4) v(5) u(5) t(4) by (simp add: mod_Suc_eq)
  moreover have "lines v (slot t) = l" using u(4) v(4) by simp
  moreover note wruns_trace [OF wruns_trace [OF wruns_trace [OF t(1) u(1)] v(1)] w(1)]
  ultimately show ?case using w(2,5) v(6) u(6) t(6)
    by (intro exI [of _ "((es @ [Accepted fd, Received fd l] @ replicate 5 Internal) @ replicate 5 Internal) @ [Answered fd (lines v (slot t)) out]"]
        exI [of _ w]) auto
qed

lemma init_between: "allocated sz junk \<Longrightarrow> between {#} (web_init n sz junk txt0)"
  using init_inv [of sz junk n txt0] init_used [of n sz junk txt0] by (simp add: between_def requests_def) (simp add: web_init_def)

text \<open>
  C26. With two threads or more the server can answer a client with somebody else's file: there is a run in which
  connection 10 sends the line \<open>l\<close> and is answered as if it had sent \<open>l'\<close>, the line of later connections.
\<close>

theorem line_buffer_reused:
  assumes a: "allocated sz junk" and n: "1 < n" and sz: "0 < sz" and l: "served e l out" and l': "served e l' out'"
  shows "\<exists>es s. wruns e (web_init n sz junk txt0) es s \<and> Received 10 l \<in> set es \<and>
    (\<forall>x. Received 10 x \<in> set es \<longrightarrow> x = l) \<and> Answered 10 l' out' \<in> set es"
proof -
  let ?s = "web_init n sz junk txt0"
  have i: "buffer_sz (sv ?s) = int sz" "slot ?s = 0" "cpcs ?s = replicate n CLock" by (simp_all add: web_init_def)
  from deliver [OF init_between [OF a] served_queued [OF l] i(1) sz, of 10] i obtain t where
    t: "wruns e ?s ([Accepted 10, Received 10 l] @ replicate 5 Internal) t" "between {#(10, 0)#} t" "cpcs t = replicate n CLock"
       "slot t = 1 mod (sz + 2)" "buffer_sz (sv t) = int sz" by auto
  from take_request [OF t(2), of 0 e] n t obtain u where u: "wruns e t (replicate 5 Internal) u" "between {#} u"
    "cpcs u = (replicate n CLock)[0 := CHandle 10 0]" "slot u = 1" "buffer_sz (sv u) = int sz" by auto
  from serve_many [OF u(2) _ _ l' u(5) sz, of 1 "sz + 1" 11] n u(3,4) obtain es v where
    v: "wruns e u es v" "between {#} v" "cpcs v = cpcs u" "slot v = 0" "buffer_sz (sv v) = int sz"
       "set es \<subseteq> {Accepted 11, Received 11 l', Internal, Answered 11 l' out'}" by auto
  from deliver [OF v(2) served_queued [OF l'] v(5) sz, of 11] v(4) obtain w where
    w: "wruns e v ([Accepted 11, Received 11 l'] @ replicate 5 Internal) w" "between {#(11, 0)#} w" "cpcs w = cpcs v"
       "lines w = (lines v)(0 := l')" by auto
  have o: "requestHandle e no_words (lines w 0) [] = Done () out'" "lines w 0 = l'" using l' w(4) by (simp_all add: served_def)
  from answer_request [OF w(2) _ _ o(1), of 0 10] n w(3) v(3) u(3) o(2) obtain x where
    x: "wruns e w [Answered 10 l' out'] x" by auto
  note r = wruns_trace [OF wruns_trace [OF wruns_trace [OF wruns_trace [OF t(1) u(1)] v(1)] w(1)] x]
  show ?thesis
    by (rule exI, rule exI, rule conjI [OF r]) (use v(6) in auto)
qed

section \<open>A request that ends the server\<close>

lemma parse_static:
  "uri \<noteq> [] \<Longrightarrow> strstr uri ''cgi'' = None \<Longrightarrow> f = ''.'' @ uri @ (if last uri = CHR ''/'' then ''home.html'' else []) \<Longrightarrow>
   length f < MAXLINE \<Longrightarrow> requestParseURI uri = ret (True, f, [])"
  by (simp add: requestParseURI_def Let_def)


section \<open>Concrete runs\<close>

definition demo_env :: env where
  "demo_env = \<lparr>stat_of = (\<lambda>f. Some \<lparr>st_size = 2, is_reg = True, may_read = True, may_exec = False\<rparr>), open_ok = (\<lambda>_. True),
     file_text = (\<lambda>f. f), cgi_text = (\<lambda>_ _. [])\<rparr>"

definition demo_junk :: server_t where
  "demo_junk = \<lparr>buff_count = 5, buffer = [3], buffer_sz = 8, valid = [], size_filename = [3], size_file = [3], fileinfo = [4, 4, 4]\<rparr>"

definition line_a :: string where "line_a = ''GET /a HTTP'' @ [CHR 0x0A]"
definition line_b :: string where "line_b = ''GET /b HTTP'' @ [CHR 0x0A]"


lemma demo_allocated: "allocated 1 demo_junk"
  by (simp add: allocated_def demo_junk_def)

definition demo_out :: "string \<Rightarrow> string" where
  "demo_out name = ''HTTP/1.0 200 OK'' @ CRLF @ ''Server: CS537 Web Server'' @ CRLF @ ''Content-Length: 2'' @ CRLF @
     ''Content-Type: text/plain'' @ CRLF @ CRLF @ take 2 name"

lemma demo_served: "served demo_env line_a (demo_out ''./a'')" "served demo_env line_b (demo_out ''./b'')"
proof -
  have "sendable line_a" "sendable line_b"
    by (auto simp: sendable_def line_a_def line_b_def MAXLINE_def intro: exI [of _ "''GET /a HTTP''"] exI [of _ "''GET /b HTTP''"])
  moreover have "getfileinfo demo_env no_words 0 line_a () = Done (2, 3) ()" "getfileinfo demo_env no_words 0 line_b () = Done (2, 3) ()"
    by code_simp+
  moreover have "requestHandle demo_env no_words line_a [] = Done () (demo_out ''./a'')"
    "requestHandle demo_env no_words line_b [] = Done () (demo_out ''./b'')"
    by code_simp+
  ultimately show "served demo_env line_a (demo_out ''./a'')" "served demo_env line_b (demo_out ''./b'')"
    by (auto simp: served_def queued_def)
qed

theorem line_buffer_reused_witness:
  "\<exists>es s. wruns demo_env (web_init 2 1 demo_junk (\<lambda>_. [])) es s \<and> Received 10 line_a \<in> set es \<and>
    (\<forall>x. Received 10 x \<in> set es \<longrightarrow> x = line_a) \<and> Answered 10 line_b (demo_out ''./b'') \<in> set es"
  by (rule line_buffer_reused [OF demo_allocated _ _ demo_served]) simp_all

definition empty_env :: env where
  "empty_env = demo_env\<lparr>stat_of := (\<lambda>f. Some \<lparr>st_size = 0, is_reg = True, may_read = True, may_exec = False\<rparr>)\<rparr>"


text \<open>A run of the server with one thread and one slot up to the end of \<open>put\<close> and \<open>get\<close> of a request.\<close>

lemma demo_run:
  "\<exists>es s. wruns demo_env (web_init 1 1 demo_junk (\<lambda>_. [])) es s \<and> sum_list (map ev_in es) = {#7#} \<and>
    sum_list (map ev_out es) = {#} \<and> cpcs s = [CHandle 7 0]"
proof -
  let ?s = "web_init 1 1 demo_junk (\<lambda>_. [])"
  have i: "buffer_sz (sv ?s) = int 1" "slot ?s = 0" "cpcs ?s = [CLock]" by (simp_all add: web_init_def)
  from deliver [OF init_between [OF demo_allocated] served_queued [OF demo_served(1)] i(1), of 7] i obtain t where
    t: "wruns demo_env ?s ([Accepted 7, Received 7 line_a] @ replicate 5 Internal) t" "between {#(7, 0)#} t" "cpcs t = [CLock]" by auto
  from take_request [OF t(2), of 0 demo_env] t(3) obtain u where
    u: "wruns demo_env t (replicate 5 Internal) u" "cpcs u = [CHandle 7 0]" by auto
  show ?thesis
    by (rule exI, rule exI, rule conjI [OF wruns_trace [OF t(1) u(1)]]) (simp add: u(2) eval_nat_numeral)
qed




end
