(* ===== verification/Mysh.thy ===== *)
theory Mysh
  imports Web_Request
begin

text \<open>
  The host shell (\<open>simple shell/mysh.c\<close>): what it does with one line of input. The array \<open>argv\<close> keeps its
  contents from line to line, and \<open>cmd1\<close> and \<open>cmd2\<close> are uninitialised; \<open>None\<close> is a null pointer. The result
  says which system calls the shell or its child makes; passing a null pointer to \<open>strcmp\<close> is a crash.
\<close>

type_synonym args = "nat \<Rightarrow> string option"

datatype child =
    Exec "string list"
  | ExecTo "string option" bool "string list"
  | ExecPipe "string list" "string list"
  | ChildCrash

datatype action = NoAction | ExitShell | ErrorMessage | Chdir "string option" | Getcwd | Fork child | ShellCrash

definition MAX_ARGV :: nat where "MAX_ARGV = 1024"

text \<open>\<open>strtok\<close> with the separators \<open>token\<close>.\<close>

definition is_sep :: "char \<Rightarrow> bool" where
  "is_sep c \<longleftrightarrow> c = CHR '' '' \<or> c = CHR 0x09 \<or> c = CHR 0x0A"

function strtok_all :: "string \<Rightarrow> string list" where
  "strtok_all s = (let r = dropWhile is_sep s in
     if r = [] then [] else takeWhile (\<lambda>c. \<not> is_sep c) r # strtok_all (dropWhile (\<lambda>c. \<not> is_sep c) r))"
  by pat_completeness auto
termination
proof (relation "measure length")
  fix s r :: string
  assume "r = dropWhile is_sep s" "r \<noteq> []"
  then obtain c r' where r: "r = c # r'" "\<not> is_sep c" by (metis hd_dropWhile list.exhaust_sel)
  have "length (dropWhile (\<lambda>c. \<not> is_sep c) r) < length r" using r length_dropWhile_le [of "\<lambda>c. \<not> is_sep c" r'] by simp
  also have "length r \<le> length s" using \<open>r = dropWhile is_sep s\<close> length_dropWhile_le by simp
  finally show "(dropWhile (\<lambda>c. \<not> is_sep c) r, s) \<in> measure length" by simp
qed simp

declare strtok_all.simps [simp del]

text \<open>The loop that fills \<open>argv\<close> up to and including the null pointer.\<close>

definition load_argv :: "string list \<Rightarrow> args \<Rightarrow> args" where
  "load_argv ws a = (\<lambda>i. if i < min (length ws) MAX_ARGV then Some (ws ! i)
     else if i = length ws \<and> i < MAX_ARGV then None else a i)"

text \<open>What \<open>execvp\<close> reads: the arguments up to the first null pointer.\<close>

definition args_list :: "args \<Rightarrow> string list" where
  "args_list a = map the (takeWhile (\<lambda>x. x \<noteq> None) (map a [0..<MAX_ARGV]))"

text \<open>The loops that look for an operator: its index, or \<open>None\<close> when they run into a null pointer.\<close>

fun find_op :: "string \<Rightarrow> args \<Rightarrow> nat list \<Rightarrow> nat option" where
  "find_op w a [] = None"
| "find_op w a (i # is) = (case a i of None \<Rightarrow> None | Some v \<Rightarrow> if v = w then Some i else find_op w a is)"

text \<open>The three moves before a redirected command is run.\<close>

definition shift_args :: "nat \<Rightarrow> args \<Rightarrow> args" where
  "shift_args i a = (let a1 = a(i := a (i + 2)); a2 = a1(i + 2 := a1 (i + 1)) in a2(i + 1 := None))"

definition redirected :: "string \<Rightarrow> bool \<Rightarrow> args \<Rightarrow> child" where
  "redirected op app a =
     (case find_op op a [0..<MAX_ARGV] of
        None \<Rightarrow> ChildCrash
      | Some i \<Rightarrow> (let b = shift_args i a in ExecTo (b (i + 2)) app (args_list b)))"

text \<open>The child after \<open>fork\<close>; \<open>junk1\<close> and \<open>junk2\<close> are what \<open>cmd1\<close> and \<open>cmd2\<close> held before.\<close>

definition child_of :: "bool \<Rightarrow> bool \<Rightarrow> bool \<Rightarrow> args \<Rightarrow> args \<Rightarrow> args \<Rightarrow> child" where
  "child_of outr ar piped a cmd1 cmd2 =
     (if \<not> outr \<and> \<not> ar \<and> \<not> piped then Exec (args_list a)
      else if outr \<and> \<not> ar then redirected ''>'' False a
      else if ar then redirected ''>>'' True a
      else ExecPipe (args_list cmd1) (args_list cmd2))"

text \<open>One turn of the loop of \<open>main\<close>: the action and the new contents of \<open>argv\<close>.\<close>

definition mysh_line :: "args \<Rightarrow> args \<Rightarrow> args \<Rightarrow> string \<Rightarrow> action \<times> args" where
  "mysh_line argv junk1 junk2 input =
     (if input = [CHR 0x0A] then (NoAction, argv)
      else
        (let ar = (strstr input ''>>'' \<noteq> None); outr = (strstr input ''>'' \<noteq> None); piped = (strstr input ''|'' \<noteq> None);
             a = load_argv (strtok_all input) argv;
             bar = (if piped then find_op ''|'' a [0..<MAX_ARGV] else Some 0) in
         case bar of
           None \<Rightarrow> (ShellCrash, a)
         | Some k \<Rightarrow>
             (let cmd1 = (\<lambda>i. if piped \<and> i < k then a i else junk1 i);
                  cmd2 = (\<lambda>i. if piped \<and> i = 0 then a (k + 1) else junk2 i) in
              case a 0 of
                None \<Rightarrow> (ShellCrash, a)
              | Some w \<Rightarrow>
                  if w = ''exit'' then (if a 1 \<noteq> None then (ErrorMessage, a) else (ExitShell, a))
                  else if w = ''cd'' then (Chdir (a 1), a)
                  else if w = ''pwd'' then (Getcwd, a)
                  else (Fork (child_of outr ar piped a cmd1 cmd2), a))))"


section \<open>What the commands do\<close>

lemma args_list_eq:
  assumes "\<And>i. i < length ws \<Longrightarrow> a i = Some (ws ! i)" and "a (length ws) = None" and "length ws < MAX_ARGV"
  shows "args_list a = ws"
proof -
  have "map a [0..<MAX_ARGV] = map Some ws @ None # map a [Suc (length ws)..<MAX_ARGV]"
    using assms by (intro nth_equalityI) (auto simp: nth_append nth_Cons' less_Suc_eq not_less)
  moreover have "takeWhile (\<lambda>x. x \<noteq> None) (map Some ws @ None # r) = map Some ws" for r by (induction ws) auto
  ultimately show ?thesis by (simp add: args_list_def comp_def)
qed

lemma load_argv_sel:
  assumes "length ws < MAX_ARGV"
  shows "i < length ws \<Longrightarrow> load_argv ws a i = Some (ws ! i)" "load_argv ws a (length ws) = None"
  using assms by (auto simp: load_argv_def)

lemma args_list_load: "length ws < MAX_ARGV \<Longrightarrow> args_list (load_argv ws a) = ws"
  by (rule args_list_eq) (simp_all add: load_argv_sel)

lemma find_op_first:
  assumes "length ws < MAX_ARGV" and "k < length ws" and "ws ! k = w" and "\<forall>i<k. ws ! i \<noteq> w"
  shows "find_op w (load_argv ws a) [0..<MAX_ARGV] = Some k"
proof -
  have "find_op w (load_argv ws a) [m..<MAX_ARGV] = Some k" if "m \<le> k" for m
    using that
  proof (induction "k - m" arbitrary: m)
    case 0
    then have "m = k" by simp
    then show ?case using assms by (simp add: upt_conv_Cons load_argv_sel)
  next
    case (Suc d)
    then have "m < k" by simp
    then show ?case using Suc(1) [of "Suc m"] Suc(2) assms by (simp add: upt_conv_Cons load_argv_sel)
  qed
  from this [of 0] show ?thesis by simp
qed

lemma shift_args_list:
  assumes "length (cmd @ [w, f] @ rest) < MAX_ARGV"
  shows "args_list (shift_args (length cmd) (load_argv (cmd @ [w, f] @ rest) a)) = cmd @ take 1 rest"
    and "shift_args (length cmd) (load_argv (cmd @ [w, f] @ rest) a) (length cmd + 2) = Some f"
proof -
  let ?ws = "cmd @ [w, f] @ rest"
  note sel = load_argv_sel [OF assms]
  have last: "load_argv ?ws a (length cmd + 2) = (case rest of [] \<Rightarrow> None | x # _ \<Rightarrow> Some x)"
    using sel by (cases rest) (auto simp: nth_append)
  show "args_list (shift_args (length cmd) (load_argv ?ws a)) = cmd @ take 1 rest"
    using assms sel last
    by (intro args_list_eq) (auto simp: shift_args_def Let_def nth_append less_Suc_eq split: list.splits)
  show "shift_args (length cmd) (load_argv ?ws a) (length cmd + 2) = Some f"
    using sel(1) [of "length cmd + 1" a] by (simp add: shift_args_def Let_def nth_append)
qed

definition builtin :: "string \<Rightarrow> bool" where
  "builtin w \<longleftrightarrow> w = ''exit'' \<or> w = ''cd'' \<or> w = ''pwd''"

lemma load_argv_0: "ws \<noteq> [] \<Longrightarrow> load_argv ws a 0 = Some (hd ws)"
  by (simp add: load_argv_def MAX_ARGV_def hd_conv_nth)

text \<open>
  A line without operators whose first word is not built in runs that program in a child, with exactly
  the words of the line as its arguments.
\<close>

theorem mysh_simple:
  assumes ws: "strtok_all input = ws" "ws \<noteq> []" "length ws < MAX_ARGV" and b: "\<not> builtin (hd ws)"
    and ops: "strstr input ''>'' = None" "strstr input ''>>'' = None" "strstr input ''|'' = None"
  shows "fst (mysh_line argv junk1 junk2 input) = Fork (Exec ws)"
proof -
  have "input \<noteq> [CHR 0x0A]" using ws by (auto simp: strtok_all.simps is_sep_def)
  then show ?thesis using assms load_argv_0 [OF ws(2)]
    by (simp add: mysh_line_def Let_def builtin_def child_of_def args_list_load)
qed

text \<open>
  \<open>cmd > f\<close> runs the command with its output to the file, which is emptied first, and \<open>cmd >> f\<close> with its output
  appended to the file; of the words after the file name the first becomes an argument and the others are lost.
\<close>

theorem mysh_redirect:
  assumes ws: "strtok_all input = cmd @ [op, f] @ rest" "cmd \<noteq> []" "length (cmd @ [op, f] @ rest) < MAX_ARGV"
    and op: "op = ''>'' \<and> strstr input ''>>'' = None \<or> op = ''>>'' \<and> strstr input ''>>'' \<noteq> None" "op \<notin> set cmd"
    and b: "\<not> builtin (hd cmd)" and line: "strstr input ''>'' \<noteq> None" "strstr input ''|'' = None"
  shows "fst (mysh_line argv junk1 junk2 input) = Fork (ExecTo (Some f) (op = ''>>'') (cmd @ take 1 rest))"
proof -
  have "input \<noteq> [CHR 0x0A]" using ws by (auto simp: strtok_all.simps is_sep_def)
  moreover have "load_argv (cmd @ [op, f] @ rest) argv 0 = Some (hd cmd)" using load_argv_0 [of "cmd @ [op, f] @ rest"] ws(2) by simp
  moreover have "find_op op (load_argv (cmd @ [op, f] @ rest) argv) [0..<MAX_ARGV] = Some (length cmd)"
    using ws(3) op(2) by (intro find_op_first) (auto simp: nth_append in_set_conv_nth)
  then have "redirected op app (load_argv (cmd @ [op, f] @ rest) argv) = ExecTo (Some f) app (cmd @ take 1 rest)" for app
    using shift_args_list [OF ws(3), of argv] by (simp add: redirected_def Let_def)
  ultimately show ?thesis using ws(1) op b line
    by (auto simp: mysh_line_def Let_def builtin_def child_of_def)
qed

text \<open>
  C32. A line of blanks, or one with a bar that is not a word of its own, crashes the shell itself.
\<close>

theorem mysh_crash:
  assumes "input \<noteq> [CHR 0x0A]" and "strtok_all input = [] \<or> strstr input ''|'' \<noteq> None \<and> ''|'' \<notin> set (strtok_all input)"
    and "length (strtok_all input) < MAX_ARGV"
  shows "fst (mysh_line argv junk1 junk2 input) = ShellCrash"
proof -
  let ?ws = "strtok_all input"
  have no: "find_op ''|'' (load_argv ?ws argv) [m..<MAX_ARGV] = None" if "''|'' \<notin> set ?ws" "m \<le> length ?ws" for m
    using that(2)
  proof (induction "length ?ws - m" arbitrary: m)
    case 0
    then have "m = length ?ws" by simp
    then show ?case using assms(3) by (simp add: upt_conv_Cons load_argv_sel)
  next
    case (Suc d)
    then have "m < length ?ws" by simp
    moreover from this have "?ws ! m \<noteq> ''|''" using that(1) nth_mem by metis
    ultimately show ?case using Suc(1) [of "Suc m"] Suc(2) assms(3) by (simp add: upt_conv_Cons load_argv_sel)
  qed
  show ?thesis
  proof (cases "?ws = []")
    case True
    have "load_argv [] argv 0 = None" by (simp add: load_argv_def MAX_ARGV_def)
    then show ?thesis using assms(1) no [of 0] True by (simp add: mysh_line_def Let_def)
  next
    case False
    then show ?thesis using assms no [of 0] by (simp add: mysh_line_def Let_def)
  qed
qed


text \<open>
  In a pipe the second command loses its arguments, and both argument lists go on with what the
  uninitialised arrays happen to hold.
\<close>

lemma mysh_pipe:
  assumes ws: "strtok_all input = cmd @ [''|'', w] @ rest" "cmd \<noteq> []" "length (cmd @ [''|'', w] @ rest) < MAX_ARGV"
    and op: "''|'' \<notin> set cmd" and b: "\<not> builtin (hd cmd)"
    and line: "strstr input ''|'' \<noteq> None" "strstr input ''>'' = None" "strstr input ''>>'' = None"
  shows "fst (mysh_line argv junk1 junk2 input) =
    Fork (ExecPipe (args_list (\<lambda>i. if i < length cmd then Some (cmd ! i) else junk1 i)) (args_list (junk2(0 := Some w))))"
proof -
  let ?a = "load_argv (cmd @ ''|'' # w # rest) argv"
  have len: "length (cmd @ ''|'' # w # rest) < MAX_ARGV" using ws(3) by simp
  have "input \<noteq> [CHR 0x0A]" using ws by (auto simp: strtok_all.simps is_sep_def)
  moreover have "?a 0 = Some (hd cmd)" using load_argv_0 [of "cmd @ ''|'' # w # rest"] ws(2) by simp
  moreover have "find_op ''|'' ?a [0..<MAX_ARGV] = Some (length cmd)"
    using len op by (intro find_op_first) (auto simp: nth_append in_set_conv_nth)
  moreover have "(\<lambda>i. if i < length cmd then ?a i else junk1 i) = (\<lambda>i. if i < length cmd then Some (cmd ! i) else junk1 i)"
    using load_argv_sel(1) [OF len] by (auto simp: nth_append)
  moreover have "(\<lambda>i. if i = 0 then ?a (length cmd + 1) else junk2 i) = junk2(0 := Some w)"
    using load_argv_sel(1) [OF len, of "length cmd + 1"] by (auto simp: nth_append)
  ultimately show ?thesis using ws(1) b line by (simp add: mysh_line_def Let_def builtin_def child_of_def)
qed

section \<open>Concrete lines\<close>

theorem mysh_simple_witness:
  "fst (mysh_line (\<lambda>_. None) (\<lambda>_. None) (\<lambda>_. None) (''ls  -l'' @ [CHR 0x0A])) = Fork (Exec [''ls'', ''-l''])"
proof (rule mysh_simple)
  show "strtok_all (''ls  -l'' @ [CHR 0x0A]) = [''ls'', ''-l'']" by (simp add: strtok_all.simps is_sep_def)
qed (simp_all add: MAX_ARGV_def builtin_def strstr_def)

theorem mysh_redirect_witness:
  "fst (mysh_line (\<lambda>_. None) (\<lambda>_. None) (\<lambda>_. None) (''ls >> f x y'' @ [CHR 0x0A])) = Fork (ExecTo (Some ''f'') True [''ls'', ''x''])"
proof -
  have "strtok_all (''ls >> f x y'' @ [CHR 0x0A]) = [''ls''] @ [''>>'', ''f''] @ [''x'', ''y'']"
    by (simp add: strtok_all.simps is_sep_def)
  moreover have "strstr (''ls >> f x y'' @ [CHR 0x0A]) ''>>'' \<noteq> None" "strstr (''ls >> f x y'' @ [CHR 0x0A]) ''>'' \<noteq> None"
    "strstr (''ls >> f x y'' @ [CHR 0x0A]) ''|'' = None" by code_simp+
  ultimately show ?thesis
    using mysh_redirect [of "''ls >> f x y'' @ [CHR 0x0A]" "[''ls'']" "''>>''" "''f''" "[''x'', ''y'']"]
    by (simp add: MAX_ARGV_def builtin_def)
qed

theorem mysh_crash_witness:
  "fst (mysh_line (\<lambda>_. None) (\<lambda>_. None) (\<lambda>_. None) ('' '' @ [CHR 0x0A])) = ShellCrash"
  by (rule mysh_crash) (simp_all add: strtok_all.simps is_sep_def MAX_ARGV_def)

end
