(* ===== verification/Paradox.thy ===== *)
theory Paradox
  imports Kernel_Prelude Complex_Main
begin

text \<open>
  The birthday simulation (\<open>C practice and xv6 intro/paradox.c\<close>). The first number \<open>rand()\<close> returns after
  \<open>srand(seed)\<close> is the argument \<open>r\<close>, a function of the seed. Writing outside the arrays of 1000 elements is
  \<open>None\<close>.
\<close>

definition draw :: "(nat \<Rightarrow> nat) \<Rightarrow> nat \<Rightarrow> nat \<Rightarrow> nat" where
  "draw r trial individual = r (trial + individual) mod 364 + 1"

text \<open>The loop over the persons of one trial: the days drawn so far and the flag \<open>p_trial\<close>.\<close>

function persons :: "(nat \<Rightarrow> nat) \<Rightarrow> nat \<Rightarrow> int \<Rightarrow> nat \<Rightarrow> nat list \<Rightarrow> bool \<Rightarrow> bool" where
  "persons r trial n individual b p_trial =
     (if int individual < n then
        (let d = draw r trial individual; b1 = b @ [d];
             p1 = fold (\<lambda>m p. if b1 ! m = b1 ! individual \<and> m \<noteq> individual then True else p) [0..<individual] p_trial in
         persons r trial n (individual + 1) b1 p1)
      else p_trial)"
  by pat_completeness auto
termination by (relation "measure (\<lambda>(r, t, n, i, b, p). nat n - i)") auto

declare persons.simps [simp del]

text \<open>The loop over the trials.\<close>

definition num_pt :: "(nat \<Rightarrow> nat) \<Rightarrow> int \<Rightarrow> nat" where
  "num_pt r n = fold (\<lambda>trial k. if persons r trial n 0 [] False then k + 1 else k) [0..<1000] 0"

definition estimate :: "(nat \<Rightarrow> nat) \<Rightarrow> int \<Rightarrow> real option" where
  "estimate r n = (if 1000 < n then None else Some (real (num_pt r n) / 1000))"

text \<open>
  The loop over the file. After the last number the end of the file has been seen only if nothing follows
  it; otherwise \<open>fscanf\<close> fails once more and the loop works on what \<open>N[line]\<close> held before.
\<close>

fun estimates :: "(nat \<Rightarrow> nat) \<Rightarrow> int list \<Rightarrow> real list option" where
  "estimates r [] = Some []"
| "estimates r (n # ns) =
     (case estimate r n of None \<Rightarrow> None | Some p \<Rightarrow> (case estimates r ns of None \<Rightarrow> None | Some ps \<Rightarrow> Some (p # ps)))"

definition read_lines :: "int list \<Rightarrow> bool \<Rightarrow> int \<Rightarrow> int list" where
  "read_lines ns newline junk = (if newline \<or> ns = [] then ns @ [junk] else ns)"

text \<open>What is written with \<open>-i\<close> before \<open>-o\<close>: the first \<open>line - 1\<close> results.\<close>

definition paradox :: "(nat \<Rightarrow> nat) \<Rightarrow> int list \<Rightarrow> bool \<Rightarrow> int \<Rightarrow> real list option" where
  "paradox r ns newline junk =
     (let ls = read_lines ns newline junk in
      if 1000 < length ls then None
      else (case estimates r ls of None \<Rightarrow> None | Some ms \<Rightarrow> Some (take (length ls - 1) ms)))"

section \<open>What a trial decides\<close>

lemma persons_iff:
  "b = map (draw r t) [0..<i] \<Longrightarrow> int i \<le> n \<Longrightarrow> p = (\<not> distinct b) \<Longrightarrow>
   persons r t n i b p \<longleftrightarrow> \<not> distinct (map (draw r t) [0..<nat n])"
proof (induction r t n i b p rule: persons.induct)
  case (1 r t n i b p)
  show ?case
  proof (cases "int i < n")
    case True
    let ?b = "map (draw r t) [0..<i]"
    have f: "fold (\<lambda>m p. if (?b @ [draw r t i]) ! m = (?b @ [draw r t i]) ! i \<and> m \<noteq> i then True else p) [0..<k] q =
        (q \<or> (\<exists>m<k. ?b ! m = draw r t i))" if "k \<le> i" for k q
      using that by (induction k) (auto simp: nth_append less_Suc_eq)
    have e: "(\<exists>m<i. ?b ! m = draw r t i) \<longleftrightarrow> draw r t i \<in> set ?b" unfolding in_set_conv_nth by simp
    have "persons r t n i b p = persons r t n (i + 1) (?b @ [draw r t i]) (\<not> distinct (?b @ [draw r t i]))"
      using True 1(2,4) f [of i] e by (subst persons.simps) (auto simp: Let_def)
    also have "\<dots> \<longleftrightarrow> \<not> distinct (map (draw r t) [0..<nat n])"
      using 1(1) [OF True refl refl refl] 1(2,4) True f [of i] e by (auto simp: Let_def)
    finally show ?thesis .
  next
    case False
    then have "nat n = i" using 1(3) by simp
    then show ?thesis using False 1(2,4) by (simp add: persons.simps [of r t n])
  qed
qed

lemma num_pt_all: "\<forall>t<1000. persons r t n 0 [] False \<Longrightarrow> num_pt r n = 1000"
proof -
  assume a: "\<forall>t<1000. persons r t n 0 [] False"
  have "fold (\<lambda>trial k. if persons r trial n 0 [] False then k + 1 else k) [0..<m] 0 = m" if "m \<le> 1000" for m
    using that a by (induction m) auto
  from this [of 1000] show ?thesis by (simp add: num_pt_def)
qed

text \<open>
  For 365 persons or more every estimate is 1, whatever the random numbers are: the program draws only 364
  different days.
\<close>

theorem estimate_certain:
  assumes "365 \<le> n" and "n \<le> 1000"
  shows "estimate r n = Some 1"
proof -
  have "persons r t n 0 [] False" for t
  proof -
    have "set (map (draw r t) [0..<nat n]) \<subseteq> {1..364}" by (auto simp: draw_def Suc_le_eq)
    from card_mono [OF _ this] have "card (set (map (draw r t) [0..<nat n])) < length (map (draw r t) [0..<nat n])"
      using assms by simp
    then show ?thesis using persons_iff [of "[]" r t 0 n False] assms distinct_card by fastforce
  qed
  then show ?thesis using assms num_pt_all [of r n] by (simp add: estimate_def)
qed

theorem estimate_certain_witness: "estimate (\<lambda>s. s * s) 400 = Some 1"
  by (rule estimate_certain) simp_all

text \<open>The last result is lost unless the file ends in a newline.\<close>

lemma paradox_output:
  assumes "estimates r ns = Some ms" and "length ns < 1000" and "junk \<le> 1000" and "ns \<noteq> []"
  shows "paradox r ns True junk = Some ms" and "paradox r ns False junk = Some (butlast ms)"
proof -
  have len: "length xs = length ys" if "estimates r ys = Some xs" for xs ys
    using that by (induction ys arbitrary: xs) (auto split: option.splits)
  have "estimates r (ys @ [junk]) = Some (xs @ [real (num_pt r junk) / 1000])" if "estimates r ys = Some xs" for xs ys
    using that assms(3) by (induction ys arbitrary: xs) (auto simp: estimate_def split: option.splits if_splits)
  from this [OF assms(1)] len [OF assms(1)] show "paradox r ns True junk = Some ms"
    using assms(2) by (simp add: paradox_def read_lines_def)
  show "paradox r ns False junk = Some (butlast ms)"
    using assms len [OF assms(1)] by (simp add: paradox_def read_lines_def butlast_conv_take)
qed

end
