(* ===== verification/Random_Streams.thy ===== *)
theory Random_Streams
  imports Main Complex_Main
begin

text \<open>
  The random number generator behind the system calls of \<open>kernel/random.c\<close>: 100 streams of a multiplicative
  congruential generator with modulus \<open>2^31 - 1\<close>, computed in 32 bits by splitting the product. A \<open>long\<close> is an
  \<open>int\<close> here; \<open>step_in_range\<close> shows that no intermediate value leaves 32 bits. The \<open>float\<close> is a real number.
  What \<open>argint\<close> fetched is an argument, \<open>None\<close> when it failed; \<open>None\<close> as a result is an access outside the
  table.
\<close>

unbundle bit_operations_syntax

definition MODLUS :: int where "MODLUS = 2147483647"
definition MULTONE :: int where "MULTONE = 24112"
definition MULTTWO :: int where "MULTTWO = 26143"

record rng =
  randomValue :: real
  seed :: int
  zrng :: "int list"

definition zrng0 :: "int list" where
  "zrng0 =
    [0, 1973272912, 281629770, 20006270, 1280689831, 2096730329, 1933576050, 913566091,
     246780520, 1363774876, 604901985, 1511192140, 1259851944, 824064364, 150493284, 242708531,
     75253171, 1964472944, 1202299975, 233217322, 1911216000, 726370533, 403498145, 993232223,
     1103205531, 762430696, 1922803170, 1385516923, 76271663, 413682397, 726466604, 336157058,
     1432650381, 1120463904, 595778810, 877722890, 1046574445, 68911991, 2088367019, 748545416,
     622401386, 2122378830, 640690903, 1774806513, 2132545692, 2079249579, 78130110, 852776735,
     1187867272, 1351423507, 1645973084, 1997049139, 922510944, 2045512870, 898585771, 243649545,
     1004818771, 773686062, 403188473, 372279877, 1901633463, 498067494, 2087759558, 493157915,
     597104727, 1530940798, 1814496276, 536444882, 1663153658, 855503735, 67784357, 1432404475,
     619691088, 119025595, 880802310, 176192644, 1116780070, 277854671, 1366580350, 1142483975,
     2026948561, 1053920743, 786262391, 1792203830, 1494667770, 1923011392, 1433700034, 1244184613,
     1147297105, 539712780, 1545929719, 190641742, 1645390429, 264907697, 620389253, 1502074852,
     927711160, 364849192, 2049576050, 638580085, 547070247]"

text \<open>One multiplication, as the four statements write it.\<close>

definition lowprd :: "int \<Rightarrow> int \<Rightarrow> int" where
  "lowprd mult zi = (zi AND 65535) * mult"

definition hi3l :: "int \<Rightarrow> int \<Rightarrow> int" where
  "hi3l mult zi = drop_bit 16 zi * mult + drop_bit 16 (lowprd mult zi)"

definition mult_step :: "int \<Rightarrow> int \<Rightarrow> int" where
  "mult_step mult zi =
     (let z = ((lowprd mult zi AND 65535) - MODLUS) + push_bit 16 (hi3l mult zi AND 32767) + drop_bit 15 (hi3l mult zi) in
      if z < 0 then z + MODLUS else z)"

text \<open>The body shared by \<open>sys_random\<close> and \<open>sys_random_set\<close>, for a stream in range.\<close>

definition next_random :: "rng \<Rightarrow> rng" where
  "next_random g =
     (let zi = mult_step MULTTWO (mult_step MULTONE (zrng g ! nat (seed g))) in
      g\<lparr>zrng := (zrng g)[nat (seed g) := zi], randomValue := of_int ((drop_bit 7 zi OR 1) + 1) / 1667772116\<rparr>)"

definition sys_random :: "rng \<Rightarrow> real \<times> rng" where
  "sys_random g =
     (let g1 = (if seed g \<le> 0 then g\<lparr>seed := 0\<rparr> else g);
          g2 = (if 0 < seed g1 \<and> seed g1 < 101 then next_random g1 else g1) in
      (randomValue g2, g2))"

definition sys_random_set :: "int option \<Rightarrow> rng \<Rightarrow> int \<times> rng" where
  "sys_random_set arg g =
     (case arg of
        None \<Rightarrow> (-1, g)
      | Some n \<Rightarrow>
          (let g1 = g\<lparr>seed := n\<rparr> in
           if 0 < n \<and> n < 101 then (0, next_random g1) else (-1, g1)))"

definition sys_change_seed :: "int option \<Rightarrow> int option \<Rightarrow> rng \<Rightarrow> (int \<times> rng) option" where
  "sys_change_seed arg0 arg1 g =
     (case (arg0, arg1) of
        (Some stream, Some v) \<Rightarrow>
          if 0 \<le> stream \<and> stream < int (length (zrng g)) then Some (0, g\<lparr>zrng := (zrng g)[nat stream := v]\<rparr>) else None
      | _ \<Rightarrow> Some (-1, g))"

definition sys_actual_seed :: "int option \<Rightarrow> rng \<Rightarrow> int option" where
  "sys_actual_seed arg g =
     (case arg of
        None \<Rightarrow> Some (-1)
      | Some stream \<Rightarrow> if 0 \<le> stream \<and> stream < int (length (zrng g)) then Some (zrng g ! nat stream) else None)"

section \<open>The split product is the product modulo \<open>2^31 - 1\<close>\<close>

lemma and_mod: "(x :: int) AND 65535 = x mod 65536" "(x :: int) AND 32767 = x mod 32768"
  using take_bit_eq_mask [of 16 x] take_bit_eq_mask [of 15 x] by (simp_all add: take_bit_eq_mod mask_eq_exp_minus_1)

lemma shift_div: "drop_bit 16 (x :: int) = x div 65536" "drop_bit 15 (x :: int) = x div 32768" "push_bit 16 (x :: int) = x * 65536"
  by (simp_all add: drop_bit_eq_div push_bit_eq_mult)

lemmas step_arith = lowprd_def hi3l_def and_mod shift_div

lemma product_split: "zi * mult = lowprd mult zi mod 65536 + 65536 * hi3l mult zi"
proof -
  have "zi * mult = (zi mod 65536) * mult + 65536 * (zi div 65536 * mult)"
    using mult_div_mod_eq [of 65536 zi] by (metis add.commute distrib_right mult.assoc)
  also have "(zi mod 65536) * mult = lowprd mult zi mod 65536 + 65536 * (lowprd mult zi div 65536)"
    by (simp add: lowprd_def and_mod)
  finally show ?thesis by (simp add: hi3l_def shift_div algebra_simps)
qed

text \<open>Every intermediate value of a multiplication fits into 32 bits with sign.\<close>

lemma step_in_range:
  assumes "0 \<le> zi" "zi < MODLUS" "0 < mult" "mult < 32768"
  shows "0 \<le> lowprd mult zi" "lowprd mult zi < 2 ^ 31" "0 \<le> hi3l mult zi" "hi3l mult zi < 2 ^ 31"
proof -
  have "(zi mod 65536) * mult \<le> 65535 * 32767" using assms by (intro mult_mono) auto
  then show l: "0 \<le> lowprd mult zi" "lowprd mult zi < 2 ^ 31" using assms by (auto simp: lowprd_def and_mod)
  have "zi div 65536 \<le> 32767" using assms(2) by (simp add: MODLUS_def)
  then have "zi div 65536 * mult \<le> 32767 * 32767" using assms by (intro mult_mono) auto
  then show "0 \<le> hi3l mult zi" "hi3l mult zi < 2 ^ 31" using l assms by (auto simp: hi3l_def shift_div)
qed

lemma mod_once: "(m :: int) \<le> x \<Longrightarrow> x < 2 * m \<Longrightarrow> x mod m = x - m"
  using mod_add_self2 [of "x - m" m] mod_pos_pos_trivial [of "x - m" m] by simp

lemma mult_step_mod:
  assumes "0 \<le> zi" "zi < MODLUS" "0 < mult" "mult < 32768"
  shows "mult_step mult zi = zi * mult mod MODLUS"
proof -
  let ?l = "lowprd mult zi mod 65536" and ?h = "hi3l mult zi mod 32768" and ?g = "hi3l mult zi div 32768"
  note r = step_in_range [OF assms]
  have "zi * mult = (?l + 65536 * ?h + ?g) + MODLUS * ?g"
    using product_split [of zi mult] mult_div_mod_eq [of 32768 "hi3l mult zi"] unfolding MODLUS_def by linarith
  then have m: "zi * mult mod MODLUS = (?l + 65536 * ?h + ?g) mod MODLUS" by simp
  have b: "0 \<le> ?l" "?l < 65536" "0 \<le> ?h" "?h < 32768" "0 \<le> ?g" "?g < 65536" using r by auto
  then have s: "0 \<le> ?l + 65536 * ?h + ?g" "?l + 65536 * ?h + ?g < 2 * MODLUS" by (auto simp: MODLUS_def)
  have z: "mult_step mult zi = (let z = ?l + 65536 * ?h + ?g - MODLUS in if z < 0 then z + MODLUS else z)"
    by (simp add: mult_step_def and_mod shift_div algebra_simps)
  show ?thesis
  proof (cases "?l + 65536 * ?h + ?g < MODLUS")
    case True
    then show ?thesis using s(1) by (simp add: z m)
  next
    case False
    then have "(?l + 65536 * ?h + ?g) mod MODLUS = ?l + 65536 * ?h + ?g - MODLUS"
      using s(2) by (intro mod_once) (simp_all add: not_less)
    then show ?thesis using False by (simp add: z m)
  qed
qed


lemma zrng0_ok: "length zrng0 = 101" "\<forall>z\<in>set zrng0. 0 \<le> z \<and> z < MODLUS"
  by (simp_all add: zrng0_def MODLUS_def)


end
