(* ===== verification/Stack_Top.thy ===== *)
theory Stack_Top
  imports Page_Tables Exec_Trap
begin

text \<open>
  The kernel of the project \<open>memory model and xv6 kernel modify\<close>, where it differs from the one modelled in the
  other theories: the first page of a process is never mapped, its stack lies at the top of the user memory and
  grows downwards by a page at every page fault, and the checks of system call arguments know two regions.
  \<open>struct proc\<close> has one more field, the lowest address \<open>sz2\<close> of the stack; here it is the function \<open>p_sz2\<close>
  of the process table index.
\<close>

record mkern = kern +
  p_sz2 :: "nat \<Rightarrow> u32"

definition mysz2 :: "('z mkern_scheme, u32) km" where
  "mysz2 = bindk myproc (\<lambda>p. getk (\<lambda>s. p_sz2 s p))"

section \<open>Arguments of system calls\<close>

definition fetchint_top :: "proc \<Rightarrow> u32 \<Rightarrow> u32 \<Rightarrow> ('z mkern_scheme, u32 option) km" where
  "fetchint_top p sz2 addr =
     (if p_sz p \<le> addr \<and> addr < sz2 \<or> p_sz p < addr + 4 \<and> addr + 4 < sz2 then ret None
      else getk (\<lambda>s. Some (get32 (umem s) (unat addr))))"

text \<open>The second loop of \<open>fetchstr\<close>: downwards from \<open>a\<close>, with \<open>k\<close> addresses left; the distance to a zero.\<close>

primrec scan_down :: "mem \<Rightarrow> nat \<Rightarrow> nat \<Rightarrow> nat option" where
  "scan_down m a 0 = None"
| "scan_down m a (Suc k) = (if m a = 0 then Some 0 else map_option Suc (scan_down m (a - 1) k))"

text \<open>\<open>fetchstr\<close>: the pointer and the return value; \<open>None\<close> is -1.\<close>

definition fetchstr_top :: "proc \<Rightarrow> u32 \<Rightarrow> u32 \<Rightarrow> ('z mkern_scheme, (u32 \<times> nat) option) km" where
  "fetchstr_top p sz2 addr =
     (if p_sz p \<le> addr \<and> addr < sz2 then ret None
      else if addr < p_sz p \<and> PGSIZE \<le> addr then
        getk (\<lambda>s. map_option (Pair addr) (scan_nul (umem s) (unat addr) (unat (p_sz p) - unat addr)))
      else if sz2 \<le> addr \<and> addr < USERTOP - 1 then
        bindk (getk (\<lambda>s. scan_down (umem s) (unat addr) (unat addr + 1 - unat sz2))) (\<lambda>r.
        if r = None \<and> sz2 = 0 then undef ''pointer below address 0'' else ret (map_option (Pair addr) r))
      else ret None)"

definition argint_top :: "nat \<Rightarrow> ('z mkern_scheme, u32 option) km" where
  "argint_top n =
     bindk myslot (\<lambda>p.
     bindk mysz2 (\<lambda>sz2.
     fetchint_top p sz2 (tf_esp (p_tf p) + 4 + 4 * of_nat n)))"

text \<open>The test of \<open>argptr\<close>.\<close>

definition argptr_ok :: "u32 \<Rightarrow> u32 \<Rightarrow> u32 \<Rightarrow> u32 \<Rightarrow> bool" where
  "argptr_ok sz sz2 i n \<longleftrightarrow>
     \<not> (sz \<le> i \<and> i < sz2 \<or> sz < i + n \<and> i < sz2 \<or> i < PGSIZE \<or> USERTOP < i + n)"

definition argptr_top :: "nat \<Rightarrow> u32 \<Rightarrow> ('z mkern_scheme, u32 option) km" where
  "argptr_top n sz =
     bindk myslot (\<lambda>p.
     bindk mysz2 (\<lambda>sz2.
     bindk (argint_top n) (\<lambda>r.
     case r of None \<Rightarrow> ret None
     | Some i \<Rightarrow> ret (if argptr_ok (p_sz p) sz2 i sz then Some i else None))))"

definition argstr_top :: "nat \<Rightarrow> ('z mkern_scheme, (u32 \<times> nat) option) km" where
  "argstr_top n =
     bindk myslot (\<lambda>p.
     bindk mysz2 (\<lambda>sz2.
     bindk (argint_top n) (\<lambda>r.
     case r of None \<Rightarrow> ret None
     | Some addr \<Rightarrow> if p_sz p \<le> addr \<and> addr < sz2 then ret None else fetchstr_top p sz2 addr)))"

section \<open>Memory of processes\<close>

definition copyuvm_top :: "u32 \<Rightarrow> u32 \<Rightarrow> ('z mkern_scheme, u32) km" where
  "copyuvm_top pgdir sz =
     bindk mysz2 (\<lambda>sz2.
     copyuvm_list pgdir (pages PGSIZE sz @ pages sz2 USERTOP))"

definition growproc_top :: "u32 \<Rightarrow> ('z mkern_scheme, int) km" where
  "growproc_top n =
     bindk myproc (\<lambda>p.
     bindk myslot (\<lambda>q.
     if 0 < sint n \<and> USERTOP - 2 * PGSIZE < p_sz q + n then ret (- 1)
     else growproc n))"

definition fork_top :: "('z mkern_scheme, int) km" where
  "fork_top =
     bindk allocproc (\<lambda>r.
     case r of None \<Rightarrow> ret (- 1)
     | Some np \<Rightarrow>
         bindk myproc (\<lambda>me.
         bindk myslot (\<lambda>q.
         bindk (copyuvm_top (p_pgdir q) (p_sz q)) (\<lambda>d.
         bindk (upd_proc np (\<lambda>n. n\<lparr>p_pgdir := d\<rparr>)) (\<lambda>_.
         if d = 0 then
           bindk (getk (\<lambda>s. p_kstack (ptable s np))) (\<lambda>k.
           bindk (kfree k) (\<lambda>_.
           bindk (upd_proc np (\<lambda>n. n\<lparr>p_kstack := 0, p_state := UNUSED\<rparr>)) (\<lambda>_.
           ret (- 1))))
         else
           bindk myslot (\<lambda>q.
           bindk (upd_proc np (\<lambda>n. n\<lparr>p_sz := p_sz q, p_parent := Some me, p_tf := (p_tf q)\<lparr>tf_eax := 0\<rparr>\<rparr>)) (\<lambda>_.
           bindk (modk (\<lambda>s. s\<lparr>p_sz2 := (p_sz2 s)(np := p_sz2 s me)\<rparr>)) (\<lambda>_.
           bindk (foreach (dup_ofile np) [0..<NOFILE]) (\<lambda>_.
           bindk (case p_cwd q of None \<Rightarrow> undef ''null cwd'' | Some c \<Rightarrow> idup c) (\<lambda>c.
           bindk (upd_proc np (\<lambda>n. n\<lparr>p_cwd := Some c, p_state := RUNNABLE, p_name := safe_name (p_name q)\<rparr>)) (\<lambda>_.
           bindk (getk (\<lambda>s. p_pid (ptable s np))) (\<lambda>pid.
           ret pid))))))))))))"

text \<open>The loop over the program headers of \<open>exec\<close>: the size is added to the end of the segment.\<close>

primrec exec_load_top :: "nat \<Rightarrow> u32 \<Rightarrow> u32 list \<Rightarrow> u32 \<Rightarrow> mem \<Rightarrow> ('z mkern_scheme, u32 option) km" where
  "exec_load_top ip pgdir [] sz junk = ret (Some sz)"
| "exec_load_top ip pgdir (off # offs) sz junk =
     bindk (readi ip junk off 32) (\<lambda>(r, ph).
     if r \<noteq> 32 then ret None
     else if get32 ph 0 \<noteq> 1 then exec_load_top ip pgdir offs sz ph
     else if get32 ph 20 < get32 ph 16 then ret None
     else
       bindk (allocuvm pgdir sz (sz + get32 ph 8 + get32 ph 20)) (\<lambda>z.
       if z = 0 then ret None
       else
         bindk (loaduvm pgdir (get32 ph 8) ip (get32 ph 4) (get32 ph 16)) (\<lambda>v.
         if v < 0 then ret None else exec_load_top ip pgdir offs z ph)))"

definition exec_top :: "u8 list \<Rightarrow> u8 list list \<Rightarrow> mem \<Rightarrow> ('z mkern_scheme, int) km" where
  "exec_top path argv junk =
     bindk (namei path) (\<lambda>r.
     case r of None \<Rightarrow> ret (- 1)
     | Some ip \<Rightarrow>
       bindk (ilock (Some ip)) (\<lambda>_.
       bindk (readi ip junk 0 52) (\<lambda>(n, elf).
       if (word_of_int n :: u32) < 52 then exec_bad 0 (Some ip)
       else if get32 elf 0 \<noteq> ELF_MAGIC then exec_bad 0 (Some ip)
       else
         bindk setupkvm (\<lambda>pgdir.
         if pgdir = 0 then exec_bad 0 (Some ip)
         else
           bindk (exec_load_top ip pgdir
                (map (\<lambda>i. get32 elf 28 + 32 * of_nat i) [0..<unat (get16 elf 44)]) PGSIZE junk) (\<lambda>z.
           case z of None \<Rightarrow> exec_bad pgdir (Some ip)
           | Some sz0 \<Rightarrow>
             bindk (iunlockput (Some ip)) (\<lambda>_.
             bindk (allocuvm pgdir (USERTOP - PGSIZE) USERTOP) (\<lambda>newstack.
             if newstack = 0 then exec_bad pgdir None
             else
               bindk myproc (\<lambda>me.
               bindk (modk (\<lambda>s. s\<lparr>p_sz2 := (p_sz2 s)(me := USERTOP - PGSIZE)\<rparr>)) (\<lambda>_.
               bindk (exec_stack pgdir newstack argv) (\<lambda>st.
               case st of None \<Rightarrow> exec_bad pgdir None
               | Some sp \<Rightarrow> exec_commit path pgdir (PGROUNDUP sz0) (get32 elf 24) sp))))))))))"

section \<open>Page faults\<close>

text \<open>The case 14 of \<open>trap\<close>, for a fault in user mode on a page that is not present (error codes 4 and 6).\<close>

definition page_fault :: "('z mkern_scheme, unit) km" where
  "page_fault =
     bindk myproc (\<lambda>p.
     bindk myslot (\<lambda>q.
     bindk mysz2 (\<lambda>sz2.
     bindk (if p_sz q + 2 * PGSIZE < sz2 then allocuvm (p_pgdir q) (sz2 - PGSIZE) sz2 else ret 0) (\<lambda>sz.
     if sz \<noteq> 0 then modk (\<lambda>s. s\<lparr>p_sz2 := (p_sz2 s)(p := sz2 - PGSIZE)\<rparr>)
     else upd_proc p (\<lambda>q. q\<lparr>p_killed := True\<rparr>)))))"

definition trap_irq_top :: "trapframe \<Rightarrow> int list \<Rightarrow> ('z mkern_scheme, unit) km" where
  "trap_irq_top tf keys =
     (if tf_trapno tf = 14 \<and> (tf_err tf = 6 \<or> tf_err tf = 4) then page_fault else trap_irq tf keys)"


section \<open>Which arguments are accepted\<close>

text \<open>
  C30. For a buffer that does not wrap around the end of the address space, \<open>argptr\<close> accepts exactly those that
  lie above the first page and completely inside the program or completely inside the stack.
\<close>

theorem argptr_two_regions:
  assumes "unat i + unat n < 2 ^ 32" and "sz \<le> sz2" and "sz2 \<le> USERTOP"
  shows "argptr_ok sz sz2 i n \<longleftrightarrow> PGSIZE \<le> i \<and>
    (i < sz \<and> unat i + unat n \<le> unat sz \<or> sz2 \<le> i \<and> unat i + unat n \<le> unat USERTOP)"
proof -
  have "unat (i + n) = unat i + unat n" using assms(1) by (simp add: unat_word_ariths)
  then show ?thesis using assms(2,3) by (auto simp: argptr_ok_def word_less_nat_alt word_le_nat_alt)
qed

theorem argptr_two_regions_witness:
  "argptr_ok 0x3000 0x9F000 0x9F100 0x80 \<and> \<not> argptr_ok 0x3000 0x9F000 0x2FFF 2 \<and> \<not> argptr_ok 0x3000 0x9F000 0 4"
  using argptr_two_regions [of "0x9F100" "0x80" "0x3000" "0x9F000"] argptr_two_regions [of "0x2FFF" 2 "0x3000" "0x9F000"]
    argptr_two_regions [of 0 4 "0x3000" "0x9F000"]
  by (simp add: USERTOP_def PGSIZE_def)

text \<open>A buffer that wraps around is accepted although no byte of it belongs to the process.\<close>

lemma argptr_wraps: "sz2 \<le> USERTOP \<Longrightarrow> argptr_ok sz sz2 0xFFFFF000 0x1010"
  by (simp add: argptr_ok_def USERTOP_def PGSIZE_def word_le_nat_alt word_less_nat_alt)

text \<open>The length of a string in the stack is counted back to the zero before it, not forward to its end.\<close>

lemma scan_down_Some: "scan_down m a k = Some n \<Longrightarrow> k \<le> Suc a \<Longrightarrow> n < k \<and> m (a - n) = 0 \<and> (\<forall>i<n. m (a - i) \<noteq> 0)"
proof (induction k arbitrary: a n)
  case (Suc k)
  show ?case
  proof (cases "m a = 0")
    case False
    then obtain n' where n: "n = Suc n'" "scan_down m (a - 1) k = Some n'" using Suc.prems by auto
    show ?thesis
    proof (cases k)
      case 0
      then show ?thesis using n by simp
    next
      case k: (Suc k')
      have "n' < k \<and> m (a - 1 - n') = 0 \<and> (\<forall>i<n'. m (a - 1 - i) \<noteq> 0)" using Suc.IH [OF n(2)] Suc.prems(2) k by simp
      moreover have "m (a - i) \<noteq> 0" if "i < n" for i
        using that calculation False n(1) by (cases i) auto
      ultimately show ?thesis using n(1) by auto
    qed
  qed (use Suc.prems in auto)
qed simp

section \<open>A page of memory for a process\<close>

text \<open>What the routines of the page tables leave alone: everything but the memory and the free list.\<close>

definition memframe :: "'z vm_scheme \<Rightarrow> 'z vm_scheme \<Rightarrow> bool" where
  "memframe s t \<longleftrightarrow> nolocks t \<and> t = s\<lparr>freelist := freelist t, phys := phys t\<rparr>"

lemma memframe_refl: "nolocks s \<Longrightarrow> memframe s s"
  by (simp add: memframe_def)

lemma memframe_trans:
  assumes "memframe s t" and "memframe t u"
  shows "memframe s u"
proof -
  have "u = s\<lparr>freelist := freelist t, phys := phys t, freelist := freelist u, phys := phys u\<rparr>"
    using assms unfolding memframe_def by metis
  then show ?thesis using assms by (simp add: memframe_def)
qed

lemma memframe_nolocks: "memframe s t \<Longrightarrow> nolocks t"
  by (simp add: memframe_def)

lemma memframe_same:
  fixes s t :: "'z mkern_scheme"
  assumes "memframe s t"
  shows "ptable t = ptable s" and "p_sz2 t = p_sz2 s"
proof -
  have t: "t = s\<lparr>freelist := freelist t, phys := phys t\<rparr>" using assms by (simp add: memframe_def)
  show "ptable t = ptable s" by (subst t) simp
  show "p_sz2 t = p_sz2 s" by (subst t) simp
qed

lemma walk_frame: "nolocks s \<Longrightarrow> walkpgdir d va c s = Done r t \<Longrightarrow> memframe s t"
  by (auto simp: walkpgdir_def exec load32_def memsetk_def store32_def memframe_def split: if_splits)

lemma map_page_frame: "nolocks s \<Longrightarrow> map_page d a pa perm s = Done r t \<Longrightarrow> memframe s t"
proof -
  assume nl: "nolocks s" and m: "map_page d a pa perm s = Done r t"
  then obtain w u where w: "walkpgdir d a True s = Done w u"
    and u: "(case w of None \<Rightarrow> ret (- 1) | Some pa1 \<Rightarrow> bindk (load32 pa1) (\<lambda>e. if e AND PTE_P \<noteq> 0 then panic ''remap''
         else bindk (store32 pa1 (pa OR perm OR PTE_P)) (\<lambda>_. ret 0))) u = Done r t"
    unfolding map_page_def bindk_eq_Done by blast
  note f = walk_frame [OF nl w]
  have "memframe u t"
    using u memframe_nolocks [OF f] by (auto simp: exec load32_def store32_def memframe_def split: option.splits if_splits)
  then show ?thesis by (rule memframe_trans [OF f])
qed

text \<open>Taking a page from the free list and filling it changes no page table.\<close>

lemma take_page:
  assumes st: "pt_state s d (g # gs)" and t: "t = s\<lparr>freelist := get32 (phys s) (unat g), phys := memset (phys s) (unat g) c 4096\<rparr>"
  shows "pt_state t d gs" and "lookup (phys t) d = lookup (phys s) d"
proof -
  have nl: "nolocks s" and fp: "free_pages s (g # gs)" and ok: "pt_ok (phys s) d (insert g (set gs))"
    using st by (auto simp: pt_state_def)
  have g: "page s g" "g \<notin> set gs" "freelist s = g" using fp by (auto simp: free_pages_def)
  have dg: "4096 dvd unat g" by (rule page_dvd [OF g(1)])
  have out: "phys t x = phys s x" if "x < unat g \<or> unat g + 4096 \<le> x" for x
    using that by (auto simp: t memset_apply)
  have dd: "4096 dvd unat d" and "d \<noteq> g" using ok by (auto simp: pt_ok_def)
  then have p: "pde (phys t) d i = pde (phys s) d i" if "i < 1024" for i
    by (intro pde_cong out that) (use tables_apart [OF dd dg] in linarith)
  have tb: "table (phys t) d i = table (phys s) d i" if "i < 1024" for i using p [OF that] by (simp add: table_def)
  have e: "pte (phys t) d i j = pte (phys s) d i j" if "i < 1024" "j < 1024" "pres (pde (phys s) d i)" for i j
  proof -
    have "table (phys s) d i \<noteq> g" using ok that by (auto simp: pt_ok_def)
    moreover have "4096 dvd unat (table (phys s) d i)" by (simp add: table_def)
    ultimately show ?thesis
      by (intro pte_cong p that out) (use tables_apart [of "table (phys s) d i" g] dg in linarith)
  qed
  show "lookup (phys t) d = lookup (phys s) d"
    by (rule ext) (use p e idx_unat(3,4) in \<open>auto simp: lookup_def Let_def\<close>)
  have "chain (phys t) (get32 (phys s) (unat g)) gs = chain (phys s) (get32 (phys s) (unat g)) gs"
  proof (rule chain_cong)
    fix v assume "v \<in> set gs"
    then have "page s v" "v \<noteq> g" using fp g(2) by (auto simp: free_pages_def)
    then show "get32 (phys t) (unat v) = get32 (phys s) (unat v)"
      using tables_apart [OF page_dvd dg, of s v] by (intro get32_cong out) linarith
  qed
  then have "free_pages t gs" using fp g by (auto simp: free_pages_def page_def t)
  moreover have "pt_ok (phys t) d (set gs)" using ok p tb unfolding pt_ok_def by auto
  ultimately show "pt_state t d gs" using nl by (simp add: pt_state_def t)
qed

lemma aligned_round:
  assumes "4096 dvd unat a" and "unat a + 4096 < 2 ^ 32"
  shows "PGROUNDUP a = a" and "PGROUNDDOWN a = a" and "PGROUNDDOWN (a + PGSIZE - 1) = a" and "pages a (a + PGSIZE) = [a]"
proof -
  have r: "PGROUNDDOWN x = PTE_ADDR x" for x by (simp add: PGROUNDDOWN_def PTE_ADDR_def PGSIZE_def)
  have "unat (a + 4095) = unat a + 4095" using assms(2) by (simp add: unat_word_ariths)
  moreover obtain k where "unat a = 4096 * k" using assms(1) by (elim dvdE)
  ultimately have "unat (PTE_ADDR (a + 4095)) = unat a" by (simp add: PTE_ADDR_unat)
  then have e: "PTE_ADDR (a + 4095) = a" by (simp add: word_unat_eq_iff)
  then show "PGROUNDDOWN (a + PGSIZE - 1) = a" by (simp add: r PGSIZE_def add.commute)
  show "PGROUNDUP a = a" using e by (simp add: PGROUNDUP_def PTE_ADDR_def PGSIZE_def add.commute)
  show "PGROUNDDOWN a = a" using PTE_ADDR_id [OF assms(1)] by (simp add: r)
  have "unat (a + PGSIZE) = unat a + 4096" using assms(2) by (simp add: unat_word_ariths PGSIZE_def)
  then show "pages a (a + PGSIZE) = [a]" by (simp add: pages_def)
qed

text \<open>Giving back a page that is not mapped does nothing.\<close>

lemma walk_unmapped:
  assumes st: "pt_state s d ps" and un: "lookup (phys s) d a = None"
  obtains w where "walkpgdir d a False s = Done w s" "\<And>x. w = Some x \<Longrightarrow> get32 (phys s) (unat x) AND PTE_P = 0"
proof -
  let ?i = "unat (PDX a)" and ?j = "unat (PTX a)"
  have dd: "4096 dvd unat d" using st by (auto simp: pt_state_def pt_ok_def)
  have da: "unat (d + 4 * PDX a) = unat d + 4 * ?i" using entry_addr [OF dd idx_unat(3) [of a]] by simp
  have ld: "load32 (d + 4 * PDX a) s = Done (pde (phys s) d ?i) s" by (simp add: load32_def exec pde_def da)
  show thesis
  proof (cases "pres (pde (phys s) d ?i)")
    case True
    let ?x = "table (phys s) d ?i + 4 * PTX a"
    have "unat ?x = unat (table (phys s) d ?i) + 4 * ?j" using entry_addr [OF _ idx_unat(4) [of a], of "table (phys s) d ?i"] by (simp add: table_def)
    then have "get32 (phys s) (unat ?x) AND PTE_P = 0" using un True by (auto simp: lookup_def Let_def pte_def pres_def split: if_splits)
    moreover have "walkpgdir d a False s = Done (Some ?x) s" using True ld by (simp add: walkpgdir_def exec pres_def table_def)
    ultimately show thesis using that by auto
  next
    case False
    then have "walkpgdir d a False s = Done None s" using ld by (simp add: walkpgdir_def exec pres_def)
    then show thesis using that by auto
  qed
qed

lemma dealloc_unmapped:
  assumes st: "pt_state s d ps" and un: "lookup (phys s) d a = None"
    and al: "4096 dvd unat a" "unat a + 4096 < 2 ^ 32"
  shows "deallocuvm d (a + PGSIZE) a s = Done a s"
proof -
  obtain w where w: "walkpgdir d a False s = Done w s" "\<And>x. w = Some x \<Longrightarrow> get32 (phys s) (unat x) AND PTE_P = 0"
    by (rule walk_unmapped [OF st un]) blast
  have "\<not> a + PGSIZE \<le> a" using al(2) by (simp add: word_le_nat_alt unat_word_ariths PGSIZE_def)
  then show ?thesis using w
    by (cases w) (simp_all add: deallocuvm_def aligned_round [OF al] exec load32_def)
qed

text \<open>\<open>allocuvm\<close> for one page.\<close>

lemma allocuvm_one:
  assumes st: "pt_state s d ps" and un: "lookup (phys s) d a = None"
    and al: "4096 dvd unat a" "unat a + 4096 \<le> unat USERTOP"
  shows "returns (allocuvm d a (a + PGSIZE) s) (\<lambda>z t. memframe s t \<and> (\<exists>qs. pt_state t d qs) \<and>
    (ps = [] \<and> z = 0 \<and> t = s \<or>
     ps \<noteq> [] \<and> z = a + PGSIZE \<and>
       (lookup (phys t) d = map_one (lookup (phys s) d) a (hd ps OR (PTE_W OR PTE_U) OR PTE_P) \<or>
        length ps = 1 \<and> lookup (phys t) d = lookup (phys s) d)))"
proof -
  have b: "unat a + 4096 < 2 ^ 32" using al(2) by (simp add: USERTOP_def)
  note r = aligned_round [OF al(1) b]
  have u: "unat (a + PGSIZE) = unat a + 4096" using b by (simp add: unat_word_ariths PGSIZE_def)
  have g: "\<not> USERTOP < a + PGSIZE" "\<not> a + PGSIZE < a" using al(2) u by (simp_all add: word_less_nat_alt)
  have nl: "nolocks s" and fp: "free_pages s ps" using st by (auto simp: pt_state_def)
  show ?thesis
  proof (cases ps)
    case Nil
    then have "freelist s = 0" using fp by (simp add: free_pages_def)
    then have "allocuvm d a (a + PGSIZE) s = Done 0 s"
      using g nl dealloc_unmapped [OF st un al(1) b] by (simp add: allocuvm_def r exec allocuvm_page_def kalloc_eq)
    then show ?thesis using Nil st memframe_refl [OF nl] by (auto simp: returns_def)
  next
    case (Cons h hs)
    have h: "freelist s = h" "h \<noteq> 0" using fp Cons by (auto simp: free_pages_def)
    let ?t = "s\<lparr>freelist := get32 (phys s) (unat h), phys := memset (phys s) (unat h) 0 4096\<rparr>"
    note tp = take_page [OF st [unfolded Cons] refl, of 0]
    have ft: "memframe s ?t" using nl by (simp add: memframe_def)
    have "lookup (phys ?t) d a = None" using un tp(2) by simp
    from map_page_rule [OF tp(1) this, of h "PTE_W OR PTE_U"]
    obtain v w where v: "map_page d a h (PTE_W OR PTE_U) ?t = Done v w" and w: "\<exists>qs. pt_state w d qs \<and> length hs \<le> Suc (length qs) \<and>
       (v = 0 \<and> lookup (phys w) d = map_one (lookup (phys ?t) d) a (h OR (PTE_W OR PTE_U) OR PTE_P) \<or>
        v = - 1 \<and> hs = [] \<and> lookup (phys w) d = lookup (phys ?t) d)"
      by (elim returnsE)
    have "mappages d a PGSIZE h (PTE_W OR PTE_U) ?t = Done v w" using v by (simp add: mappages_def Let_def r)
    moreover have "memsetk h 0 PGSIZE (s\<lparr>freelist := get32 (phys s) (unat h)\<rparr>) = Done () ?t"
      by (simp add: memsetk_def exec PGSIZE_def)
    ultimately have e: "allocuvm d a (a + PGSIZE) s = Done (a + PGSIZE) w"
      using g nl h by (simp add: allocuvm_def r exec allocuvm_page_def kalloc_eq)
    have "memframe s w" by (rule memframe_trans [OF ft map_page_frame [OF _ v]]) (use nl in simp)
    then show ?thesis using w Cons tp(2) unfolding e returns_def by auto
  qed
qed

section \<open>Growing the stack\<close>

text \<open>
  C29. A page fault of a user process with room below its stack and a free page extends the stack by the page
  below it, mapped for the user, and leaves every other address as it was; without room
  or without a free page the process is marked as killed and nothing else changes. (With exactly one free page and no page table
  for the address, nothing is mapped and the process faults again.) The address of the fault plays no role.
\<close>

theorem page_fault_grows_stack:
  assumes cur: "curproc s = Some p" and q: "q = ptable s p" and z2: "sz2 = p_sz2 s p"
    and st: "pt_state s (p_pgdir q) ps" and al: "4096 dvd unat sz2" "sz2 \<le> USERTOP" "p_sz q \<le> USERTOP"
    and un: "PGSIZE \<le> sz2 \<longrightarrow> lookup (phys s) (p_pgdir q) (sz2 - PGSIZE) = None"
  shows "returns (page_fault s) (\<lambda>_ t.
    if p_sz q + 2 * PGSIZE < sz2 \<and> ps \<noteq> [] then
      p_sz2 t = (p_sz2 s)(p := sz2 - PGSIZE) \<and> ptable t = ptable s \<and>
      (lookup (phys t) (p_pgdir q) = map_one (lookup (phys s) (p_pgdir q)) (sz2 - PGSIZE) (hd ps OR (PTE_W OR PTE_U) OR PTE_P) \<or>
       length ps = 1 \<and> lookup (phys t) (p_pgdir q) = lookup (phys s) (p_pgdir q))
    else t = s\<lparr>ptable := (ptable s)(p := q\<lparr>p_killed := True\<rparr>)\<rparr>)"
proof (cases "p_sz q + 2 * PGSIZE < sz2")
  case False
  then show ?thesis using cur q z2 by (simp add: page_fault_def mysz2_def exec returns_def)
next
  case True
  have "unat (p_sz q) + 8192 < 2 ^ 32" using al(3) by (simp add: word_le_nat_alt USERTOP_def)
  then have "unat (p_sz q + 2 * PGSIZE) = unat (p_sz q) + 8192" by (simp add: unat_word_ariths PGSIZE_def)
  with True have lt: "8192 < unat sz2" by (simp add: word_less_nat_alt)
  let ?a = "sz2 - PGSIZE"
  have ua: "unat ?a = unat sz2 - 4096" using lt by (simp add: unat_sub PGSIZE_def word_le_nat_alt)
  have "4096 dvd unat ?a" using al(1) lt by (simp add: ua dvd_diff_nat)
  moreover have "unat ?a + 4096 \<le> unat USERTOP" using al(2) lt by (simp add: ua word_le_nat_alt)
  moreover have "lookup (phys s) (p_pgdir q) ?a = None" using un lt by (simp add: word_le_nat_alt PGSIZE_def)
  ultimately have "returns (allocuvm (p_pgdir q) ?a (?a + PGSIZE) s) (\<lambda>z t. memframe s t \<and> (\<exists>qs. pt_state t (p_pgdir q) qs) \<and>
    (ps = [] \<and> z = 0 \<and> t = s \<or> ps \<noteq> [] \<and> z = ?a + PGSIZE \<and>
       (lookup (phys t) (p_pgdir q) = map_one (lookup (phys s) (p_pgdir q)) ?a (hd ps OR (PTE_W OR PTE_U) OR PTE_P) \<or>
        length ps = 1 \<and> lookup (phys t) (p_pgdir q) = lookup (phys s) (p_pgdir q))))"
    using allocuvm_one [OF st] by blast
  then obtain z t where t: "allocuvm (p_pgdir q) ?a sz2 s = Done z t" "memframe s t"
    and c: "ps = [] \<and> z = 0 \<and> t = s \<or> ps \<noteq> [] \<and> z = sz2 \<and>
       (lookup (phys t) (p_pgdir q) = map_one (lookup (phys s) (p_pgdir q)) ?a (hd ps OR (PTE_W OR PTE_U) OR PTE_P) \<or>
        length ps = 1 \<and> lookup (phys t) (p_pgdir q) = lookup (phys s) (p_pgdir q))"
    by (auto simp: returns_def)
  note same = memframe_same [OF t(2)]
  have "sz2 \<noteq> 0" using lt by auto
  then show ?thesis using True cur q z2 t(1) c same by (auto simp: page_fault_def mysz2_def exec returns_def)
qed

text \<open>A process with its stack in the last page, and two free pages.\<close>

definition stack_state :: mkern where
  "stack_state = kern.extend ((booted (\<lambda>_ _ _. 0))\<lparr>freelist := 0x200000,
     phys := (\<lambda>_. 0)(0x200001 := 0x10, 0x200002 := 0x20), curproc := Some 0,
     ptable := (\<lambda>_. proc0)(0 := proc0\<lparr>p_sz := 0x3000, p_pgdir := 0x300000\<rparr>)\<rparr>) (mkern.fields (\<lambda>_. USERTOP - PGSIZE))"

lemma stack_state_fields [simp]:
  "curproc stack_state = Some 0" "p_sz2 stack_state = (\<lambda>_. USERTOP - PGSIZE)" "freelist stack_state = 0x200000"
  "phys stack_state = (\<lambda>_. 0)(0x200001 := 0x10, 0x200002 := 0x20)"
  "p_sz (ptable stack_state 0) = 0x3000" "p_pgdir (ptable stack_state 0) = 0x300000" "nolocks stack_state" "kend stack_state = 0x110000"
  by (simp_all add: stack_state_def kern.defs mkern.defs booted_def bss_def proc0_def nolocks_def unlocked_def spin0_def
    lk_free_def spin_ok_def)

lemma stack_state_ok: "pt_state stack_state 0x300000 [0x200000, 0x201000]" "lookup (phys stack_state) 0x300000 x = None"
proof -
  have g: "get32 (phys stack_state) x = 0" if "x \<noteq> 0x200000" "x + 4 \<le> 0x200001 \<or> 0x200003 \<le> x" for x
    using that by (auto simp: get32_def)
  have n: "get32 (phys stack_state) 0x200000 = 0x201000" "get32 (phys stack_state) 0x201000 = 0"
    by (simp_all add: get32_def)
  have d: "pde (phys stack_state) 0x300000 i = 0" for i by (simp add: pde_def g del: stack_state_fields)
  have p: "\<not> pres 0" by (simp add: pres_bit)
  show "pt_state stack_state 0x300000 [0x200000, 0x201000]"
    using d p n by (simp add: pt_state_def free_pages_def page_def pt_ok_def PGSIZE_def PHYSTOP_def del: stack_state_fields(4))
  show "lookup (phys stack_state) 0x300000 x = None" using d p by (simp add: lookup_def Let_def del: stack_state_fields(4))
qed

theorem page_fault_grows_stack_witness:
  "returns (page_fault stack_state) (\<lambda>_ t. p_sz2 t 0 = 0x9E000 \<and> lookup (phys t) 0x300000 0x9E010 = Some 0x200007 \<and>
     lookup (phys t) 0x300000 0x9D000 = None)"
  by (intro returns_mono [OF page_fault_grows_stack [OF _ refl refl, where p = 0 and ps = "[0x200000, 0x201000]"]])
    (auto simp: stack_state_ok map_one_def PTE_ADDR_def PGROUNDDOWN_def PGSIZE_def PTE_P_def PTE_W_def PTE_U_def USERTOP_def
      simp del: stack_state_fields(4))

end
