(* ===== verification/Keyboard.thy ===== *)
theory Keyboard
  imports Console
begin

unbundle bit_operations_syntax

text \<open>
  The keyboard driver (\<open>kernel/kbd.c\<close>, \<open>kernel/kbd.h\<close>): from scan codes to characters. What the controller's
  status and data ports hold is an argument; the static variable \<open>shift\<close> is passed in and out.
\<close>

definition SHIFT :: u32 where "SHIFT = 1"
definition CTL :: u32 where "CTL = 2"
definition ALT :: u32 where "ALT = 4"
definition CAPSLOCK :: u32 where "CAPSLOCK = 8"
definition NUMLOCK :: u32 where "NUMLOCK = 16"
definition SCROLLLOCK :: u32 where "SCROLLLOCK = 32"
definition E0ESC :: u32 where "E0ESC = 64"

lemmas mod_bits = SHIFT_def CTL_def ALT_def CAPSLOCK_def NUMLOCK_def SCROLLLOCK_def E0ESC_def

text \<open>A table of 256 bytes: the first ones in order, then those given by their index, the others 0.\<close>

definition table256 :: "u8 list \<Rightarrow> (nat \<times> u8) list \<Rightarrow> u8 list" where
  "table256 first desig = fold (\<lambda>(i, v) t. t[i := v]) desig (first @ replicate (256 - length first) 0)"

abbreviation chars :: "string \<Rightarrow> u8 list" where
  "chars \<equiv> map of_char"

definition shiftcode :: "u8 list" where
  "shiftcode = table256 [] [(0x1D, 2), (0x2A, 1), (0x36, 1), (0x38, 4), (0x9D, 2), (0xB8, 4)]"

definition togglecode :: "u8 list" where
  "togglecode = table256 [] [(0x3A, 8), (0x45, 16), (0x46, 32)]"

definition special_keys :: "(nat \<times> u8) list" where
  "special_keys = [(0xC8, 0xE2), (0xD0, 0xE3), (0xC9, 0xE6), (0xD1, 0xE7), (0xCB, 0xE4), (0xCD, 0xE5),
     (0x97, 0xE0), (0xCF, 0xE1), (0xD2, 0xE8), (0xD3, 0xE9)]"

definition keypad :: "u8 list" where
  "keypad = [0] @ chars '' '' @ replicate 13 0 @ chars ''789-456+1230.'' @ [0, 0, 0, 0]"

definition normalmap :: "u8 list" where
  "normalmap = table256 ([0, 0x1B] @ chars ''1234567890-='' @ [8, 9] @ chars ''qwertyuiop[]'' @ [10, 0] @
     chars ''asdfghjkl;'' @ [39, 96, 0, 92] @ chars ''zxcvbnm,./'' @ [0] @ chars ''*'' @ keypad)
     ([(0x9C, 10), (0xB5, 47)] @ special_keys)"

definition shiftmap :: "u8 list" where
  "shiftmap = table256 ([0, 0x1B] @ chars ''!@#$%^&*()_+'' @ [8, 9] @ chars ''QWERTYUIOP{}'' @ [10, 0] @
     chars ''ASDFGHJKL:'' @ [34, 126, 0, 124] @ chars ''ZXCVBNM<>?'' @ [0] @ chars ''*'' @ keypad)
     ([(0x9C, 10), (0xB5, 47)] @ special_keys)"

definition C_key :: "u8 \<Rightarrow> u8" where
  "C_key x = x - 64"

definition ctlmap :: "u8 list" where
  "ctlmap = table256 (replicate 16 0 @ map C_key (chars ''QWERTYUIOP'') @ [0, 0, 13, 0] @
     map C_key (chars ''ASDFGHJKL'') @ [0, 0, 0, 0, C_key 92] @ map C_key (chars ''ZXCVBNM'') @ [0, 0, C_key 47, 0, 0])
     ([(0x9C, 13), (0xB5, C_key 47)] @ special_keys)"

definition charcode :: "u8 list list" where
  "charcode = [normalmap, shiftmap, ctlmap, ctlmap]"

definition capslock :: "u8 \<Rightarrow> u8" where
  "capslock c =
     (if 97 \<le> c \<and> c \<le> 122 then c + (65 - 97)
      else if 65 \<le> c \<and> c \<le> 90 then c + (97 - 65) else c)"

text \<open>The end of \<open>kbdgetc\<close>, from the update of \<open>shift\<close> on.\<close>

definition kbd_press :: "u8 \<Rightarrow> u32 \<Rightarrow> int \<times> u32" where
  "kbd_press data shift =
     (let shift = (shift OR ucast (shiftcode ! unat data)) XOR ucast (togglecode ! unat data);
          c = charcode ! unat (shift AND (CTL OR SHIFT)) ! unat data
      in (int (unat (if shift AND CAPSLOCK \<noteq> 0 then capslock c else c)), shift))"

definition kbdgetc :: "u8 \<Rightarrow> u8 \<Rightarrow> u32 \<Rightarrow> int \<times> u32" where
  "kbdgetc st data shift =
     (if st AND 1 = 0 then (- 1, shift)
      else if data = 0xE0 then (0, shift OR E0ESC)
      else if data AND 0x80 \<noteq> 0 then
        (let data = (if shift AND E0ESC \<noteq> 0 then data else data AND 0x7F) in
         (0, shift AND NOT (ucast (shiftcode ! unat data) OR E0ESC)))
      else if shift AND E0ESC \<noteq> 0 then kbd_press (data OR 0x80) (shift AND NOT E0ESC)
      else kbd_press data shift)"

text \<open>\<open>kbdintr\<close>, when the controller delivers \<open>codes\<close> before its buffer is empty; returns the new \<open>shift\<close>.\<close>

fun kbd_keys :: "u8 list \<Rightarrow> u32 \<Rightarrow> int list \<times> u32" where
  "kbd_keys [] shift = ([fst (kbdgetc 0 0 shift)], snd (kbdgetc 0 0 shift))"
| "kbd_keys (d # codes) shift =
     (let (c, shift) = kbdgetc 1 d shift; (cs, shift) = kbd_keys codes shift in (c # cs, shift))"

definition kbdintr :: "u8 list \<Rightarrow> u32 \<Rightarrow> ('z console_scheme, u32) km" where
  "kbdintr codes shift =
     bindk (consoleintr (fst (kbd_keys codes shift))) (\<lambda>_.
     ret (snd (kbd_keys codes shift)))"

section \<open>The tables\<close>

lemma table256_length [simp]: "length first \<le> 256 \<Longrightarrow> length (table256 first desig) = 256"
proof -
  have "length (fold (\<lambda>(i, v) t. t[i := v]) desig t) = length t" for t :: "u8 list"
    by (induction desig arbitrary: t) auto
  moreover assume "length first \<le> 256"
  ultimately show ?thesis by (simp add: table256_def)
qed

lemma list_all_update: "list_all P t \<Longrightarrow> P v \<Longrightarrow> list_all P (t[i := v])"
  by (auto simp: list_all_iff dest!: set_update_subset_insert [THEN subsetD])

lemma table256_all:
  assumes "list_all P first" and "list_all (\<lambda>p. P (snd p)) desig" and "P 0"
  shows "list_all P (table256 first desig)"
proof -
  have "list_all P (fold (\<lambda>(i, v) t. t[i := v]) desig t)" if "list_all P t" for t
    using that assms(2) by (induction desig arbitrary: t) (auto simp: list_all_update)
  moreover have "list_all P (first @ replicate (256 - length first) 0)" using assms(1,3) by (auto simp: list_all_iff)
  ultimately show ?thesis by (simp add: table256_def)
qed

lemma tables_length:
  "length shiftcode = 256" "length togglecode = 256" "length normalmap = 256" "length shiftmap = 256" "length ctlmap = 256"
  by (simp_all add: shiftcode_def togglecode_def normalmap_def shiftmap_def ctlmap_def keypad_def)

lemma modifier_bits: "list_all (\<lambda>x. x < 128) shiftcode" "list_all (\<lambda>x. x < 128) togglecode"
  and no_escape: "list_all (\<lambda>x. (ucast x :: u32) AND E0ESC = 0) shiftcode"
  unfolding shiftcode_def togglecode_def by (rule table256_all; code_simp)+

definition key_value :: "u8 \<Rightarrow> bool" where
  "key_value c \<longleftrightarrow> c < 128 \<or> 0xE0 \<le> c \<and> c \<le> 0xE9 \<or> c = 0xEF"

lemma map_values: "list_all key_value normalmap" "list_all key_value shiftmap" "list_all key_value ctlmap"
  unfolding normalmap_def shiftmap_def ctlmap_def by (rule table256_all; code_simp)+

lemma capslock_unat:
  "unat (capslock c) =
     (if 97 \<le> unat c \<and> unat c \<le> 122 then unat c - 32 else if 65 \<le> unat c \<and> unat c \<le> 90 then unat c + 32 else unat c)"
proof -
  have "unat (c - 32) = unat c - 32" if "97 \<le> unat c" using that by (simp add: unat_sub word_le_nat_alt)
  moreover have "unat (c + 32) = unat c + 32" if "unat c \<le> 90" using that by (simp add: unat_word_ariths)
  ultimately show ?thesis by (simp add: capslock_def word_le_nat_alt)
qed

lemma capslock_value:
  assumes "key_value c"
  shows "key_value (capslock c)"
proof -
  have k: "key_value d \<longleftrightarrow> unat d < 128 \<or> 224 \<le> unat d \<and> unat d \<le> 233 \<or> unat d = 239" for d
    by (simp add: key_value_def word_less_nat_alt word_le_nat_alt word_unat_eq_iff)
  show ?thesis using assms unfolding k capslock_unat by auto
qed

lemma capslock_letter:
  assumes "97 \<le> c" and "c \<le> 122"
  shows "capslock c = c - 32" and "capslock (c - 32) = c" and "capslock (c - 96) = c - 96"
proof -
  have "unat (c - 32) = unat c - 32" "unat (c - 96) = unat c - 96"
    using assms by (simp_all add: unat_sub word_le_nat_alt)
  then show "capslock c = c - 32" and "capslock (c - 32) = c" and "capslock (c - 96) = c - 96"
    using assms by (auto simp: word_unat_eq_iff capslock_unat word_le_nat_alt)
qed

text \<open>The three maps agree on which keys are letters.\<close>

definition letter_row :: "u8 \<times> u8 \<times> u8 \<times> u8 \<times> u8 \<Rightarrow> bool" where
  "letter_row = (\<lambda>(c, u, k, m, g). 97 \<le> c \<and> c \<le> 122 \<longrightarrow> u = c - 32 \<and> k = c - 96 \<and> m = 0 \<and> g = 0)"

lemma letter_rows: "list_all letter_row (zip normalmap (zip shiftmap (zip ctlmap (zip shiftcode togglecode))))"
  by code_simp

lemma letter_keys:
  fixes d :: u8
  assumes "97 \<le> normalmap ! unat d" and "normalmap ! unat d \<le> 122"
  shows "shiftmap ! unat d = normalmap ! unat d - 32" and "ctlmap ! unat d = normalmap ! unat d - 96"
    and "shiftcode ! unat d = 0" and "togglecode ! unat d = 0"
  using letter_rows assms unat_lt2p [of d] by (simp_all add: list_all_length tables_length letter_row_def)

section \<open>Characters and modifiers\<close>

text \<open>The modifiers are seven bits.\<close>

definition kbd_wf :: "u32 \<Rightarrow> bool" where
  "kbd_wf shift \<longleftrightarrow> drop_bit 7 shift = 0"

lemma modifier_small:
  fixes t :: "u8 list"
  assumes "list_all (\<lambda>x. x < 128) t" and "length t = 256"
  shows "drop_bit 7 (ucast (t ! unat (d :: u8)) :: u32) = 0"
proof -
  have "unat d < length t" using unat_lt2p [of d] assms(2) by simp
  then have "t ! unat d < 128" using assms(1) by (simp add: list_all_length)
  then have "unat (ucast (t ! unat d) :: u32) < 128" by (simp add: word_less_nat_alt unsigned_ucast_eq take_bit_nat_eq_self)
  then have "unat (drop_bit 7 (ucast (t ! unat d) :: u32)) = 0" by (simp add: unat_drop_bit_eq) (simp add: drop_bit_eq_div)
  then show ?thesis by (simp add: unat_eq_0)
qed

lemma shiftcode_small: "drop_bit 7 (ucast (shiftcode ! unat (d :: u8)) :: u32) = 0"
  and togglecode_small: "drop_bit 7 (ucast (togglecode ! unat d) :: u32) = 0"
  using modifier_small modifier_bits tables_length by blast+

lemma map_index: "unat (shift AND (CTL OR SHIFT)) < 4" for shift :: u32
proof -
  have "shift AND (CTL OR SHIFT) = take_bit 2 shift" by (simp add: mod_bits take_bit_eq_mask mask_numeral)
  then show ?thesis using take_bit_nat_less_exp [of 2 "unat shift"] by (simp add: unsigned_take_bit_eq)
qed

lemma map_index_bits:
  "unat (shift AND (CTL OR SHIFT)) = (if shift AND CTL \<noteq> 0 then 2 else 0) + (if shift AND SHIFT \<noteq> 0 then 1 else 0)"
  for shift :: u32
proof -
  have "shift AND (CTL OR SHIFT) = take_bit 2 shift" by (simp add: mod_bits take_bit_eq_mask mask_numeral)
  moreover have "take_bit 2 n = 2 * of_bool (bit n 1) + of_bool (bit n 0)" for n :: nat
    using take_bit_Suc_from_most [of 1 n] take_bit_Suc_from_most [of 0 n] by (simp add: numeral_2_eq_2)
  ultimately have "unat (shift AND (CTL OR SHIFT)) = 2 * of_bool (bit shift 1) + of_bool (bit shift 0)"
    by (simp add: unsigned_take_bit_eq bit_unsigned_iff)
  moreover have "shift AND CTL = 0 \<longleftrightarrow> \<not> bit shift 1" "shift AND SHIFT = 0 \<longleftrightarrow> \<not> bit shift 0"
    using and_exp_eq_0_iff_not_bit [of shift 1] and_exp_eq_0_iff_not_bit [of shift 0] by (simp_all add: mod_bits)
  ultimately show ?thesis by simp
qed

lemma charcode_value: "key_value (charcode ! unat (shift AND (CTL OR SHIFT)) ! unat (d :: u8))" for shift :: u32
proof -
  have d: "unat d < 256" using unat_lt2p [of d] by simp
  have "unat (shift AND (CTL OR SHIFT)) \<in> {0, 1, 2, 3}" using map_index [of shift] by auto
  then show ?thesis using map_values d tables_length by (auto simp: charcode_def list_all_length)
qed

lemma kbd_press_wf:
  assumes "kbd_wf shift"
  shows "kbd_wf (snd (kbd_press data shift))" and "\<exists>c. key_value c \<and> fst (kbd_press data shift) = int (unat c)"
proof -
  let ?s = "(shift OR ucast (shiftcode ! unat data)) XOR ucast (togglecode ! unat data)"
  let ?c = "charcode ! unat (?s AND (CTL OR SHIFT)) ! unat data"
  show "kbd_wf (snd (kbd_press data shift))"
    using assms shiftcode_small togglecode_small by (simp add: kbd_press_def kbd_wf_def Let_def)
  have "key_value ?c" by (rule charcode_value)
  then show "\<exists>c. key_value c \<and> fst (kbd_press data shift) = int (unat c)"
    using capslock_value [of ?c] by (auto simp: kbd_press_def Let_def)
qed



text \<open>
  Pressing a letter key gives the control character when Control is held, and otherwise the letter, upper
  case when exactly one of Shift and Caps Lock is on; the modifiers stay as they are.
\<close>

theorem kbd_letter:
  assumes k: "data AND 0x80 = 0" and l: "97 \<le> normalmap ! unat data" "normalmap ! unat data \<le> 122" and e: "shift AND E0ESC = 0"
  defines "c \<equiv> normalmap ! unat data"
  shows "kbdgetc 1 data shift =
    (int (unat (if shift AND CTL \<noteq> 0 then c - 96
                else if (shift AND SHIFT \<noteq> 0) \<noteq> (shift AND CAPSLOCK \<noteq> 0) then c - 32 else c)), shift)"
proof -
  have t: "shiftmap ! unat data = c - 32" "ctlmap ! unat data = c - 96" "shiftcode ! unat data = 0" "togglecode ! unat data = 0"
    using letter_keys [OF l] by (simp_all add: c_def)
  have cl: "capslock c = c - 32" "capslock (c - 32) = c" "capslock (c - 96) = c - 96"
    using capslock_letter l by (simp_all add: c_def)
  have n: "data \<noteq> 0xE0" using k by auto
  let ?i = "unat (shift AND (CTL OR SHIFT))"
  note i = map_index_bits [of shift]
  have "charcode ! ?i ! unat data = (if shift AND CTL \<noteq> 0 then c - 96 else if shift AND SHIFT \<noteq> 0 then c - 32 else c)"
    unfolding i using t by (simp add: charcode_def c_def numeral_2_eq_2)
  then show ?thesis using k n t cl e by (simp add: kbdgetc_def kbd_press_def Let_def)
qed

theorem kbd_letter_witness: "kbdgetc 1 0x1E (SHIFT OR CAPSLOCK) = (97, 9) \<and> kbdgetc 1 0x2E CTL = (3, 2)"
proof -
  have "normalmap ! 0x1E = 97" "normalmap ! 0x2E = 99" by code_simp+
  then show ?thesis using kbd_letter [of "0x1E" "SHIFT OR CAPSLOCK"] kbd_letter [of "0x2E" CTL]
    by (simp add: mod_bits)
qed

text \<open>A press and a release of a key that is not a lock leave the modifiers as they were, if it was not held.\<close>

lemma set_then_clear: "s AND m = 0 \<Longrightarrow> (s OR n) AND NOT m = s" if "n AND m = n" for s m n :: u32
proof (rule bit_word_eqI)
  fix k assume s: "s AND m = 0" and k: "k < LENGTH(32)"
  have "bit (s AND m) k = False" "bit (n AND m) k = bit n k" using s that by simp_all
  then show "bit ((s OR n) AND NOT m) k = bit s k" using k by (auto simp: bit_simps)
qed

lemma kbd_press_release:
  assumes r: "code AND 0x80 \<noteq> 0" "code \<noteq> 0xE0" "data = code AND 0x7F" and t: "togglecode ! unat data = 0"
    and s: "shift AND (ucast (shiftcode ! unat data) OR E0ESC) = 0"
  shows "snd (kbdgetc 1 code (snd (kbdgetc 1 data shift))) = shift"
proof -
  let ?m = "ucast (shiftcode ! unat data) :: u32"
  have d: "data AND 0x80 = 0" by (simp add: r(3) and.assoc)
  then have n: "data \<noteq> 0xE0" by auto
  have me: "?m AND E0ESC = 0" using no_escape unat_lt2p [of data] tables_length by (simp add: list_all_length)
  have e: "shift AND E0ESC = 0"
  proof -
    have "(shift AND (?m OR E0ESC)) AND E0ESC = shift AND E0ESC" by (simp add: and.assoc bit.conj_disj_distrib2)
    then show ?thesis using s by simp
  qed
  have f: "(shift OR ?m) AND E0ESC = 0" using e me by (simp add: bit.conj_disj_distrib2)
  have "?m AND (?m OR E0ESC) = ?m" by simp
  from set_then_clear [OF this s] show ?thesis using r d n t e f
    by (auto simp: kbdgetc_def kbd_press_def Let_def)
qed

end
