(* ===== verification/User_Text.thy ===== *)
theory User_Text
  imports Console
begin

text \<open>
  Formatted output of user programs (\<open>user/printf.c\<close>) and the word counter (\<open>user/wc.c\<close>). The output is the
  list of bytes handed to \<open>write\<close> one by one. A conversion without an argument, or with an argument of the
  other kind, is \<open>None\<close>, as for \<open>cprintf\<close>.
\<close>

section \<open>printf\<close>

definition udigit :: "nat \<Rightarrow> u8" where
  "udigit k = of_nat (if k < 10 then 48 + k else 55 + k)"

text \<open>The digits as the loop of \<open>printint\<close> stores them in \<open>buf\<close>, least significant first; bases below 2 do not occur.\<close>

function udigits :: "nat \<Rightarrow> nat \<Rightarrow> u8 list" where
  "udigits base x =
     (if base < 2 then [udigit 0]
      else udigit (x mod base) # (if x div base = 0 then [] else udigits base (x div base)))"
  by pat_completeness auto
termination
  by (relation "measure snd") (auto intro!: div_less_dividend gr0I)

declare udigits.simps [simp del]

definition uprintint :: "u32 \<Rightarrow> nat \<Rightarrow> bool \<Rightarrow> u8 list" where
  "uprintint xx base sg =
     (let neg = sg \<and> sint xx < 0; x = (if neg then - xx else xx) in
      rev (udigits base (unat x) @ (if neg then [45] else [])))"

text \<open>One conversion: the output and the remaining arguments.\<close>

fun uconv :: "u8 \<Rightarrow> parg list \<Rightarrow> (u8 list \<times> parg list) option" where
  "uconv c args =
     (if c = 100 then case args of PInt x # as \<Rightarrow> Some (uprintint x 10 True, as) | _ \<Rightarrow> None
      else if c = 120 \<or> c = 112 then case args of PInt x # as \<Rightarrow> Some (uprintint x 16 False, as) | _ \<Rightarrow> None
      else if c = 115 then
        case args of
          PStr (Some t) # as \<Rightarrow> Some (t, as)
        | PStr None # as \<Rightarrow> Some (map of_char ''(null)'', as)
        | _ \<Rightarrow> None
      else if c = 99 then case args of PInt x # as \<Rightarrow> Some ([ucast x], as) | _ \<Rightarrow> None
      else if c = 37 then Some ([c], args)
      else Some ([37, c], args))"

text \<open>The loop over the format; \<open>state\<close> tells whether the previous character was the \<open>%\<close> of a conversion.\<close>

fun uprintf :: "bool \<Rightarrow> u8 list \<Rightarrow> parg list \<Rightarrow> u8 list option" where
  "uprintf state [] args = Some []"
| "uprintf False (c # fmt) args =
     (if c = 37 then uprintf True fmt args else map_option (Cons c) (uprintf False fmt args))"
| "uprintf True (c # fmt) args =
     (case uconv c args of None \<Rightarrow> None | Some (out, as) \<Rightarrow> map_option ((@) out) (uprintf False fmt as))"

section \<open>wc\<close>

definition wc_space :: "u8 \<Rightarrow> bool" where
  "wc_space c \<longleftrightarrow> strchr [32, 13, 9, 10, 11] c \<noteq> None"

record wcst =
  wc_l :: u32
  wc_w :: u32
  wc_c :: u32
  inword :: bool

definition wc_byte :: "u8 \<Rightarrow> wcst \<Rightarrow> wcst" where
  "wc_byte b s =
     (let s = s\<lparr>wc_c := wc_c s + 1\<rparr>;
          s = (if b = 10 then s\<lparr>wc_l := wc_l s + 1\<rparr> else s)
      in if wc_space b then s\<lparr>inword := False\<rparr>
         else if \<not> inword s then s\<lparr>wc_w := wc_w s + 1, inword := True\<rparr>
         else s)"

text \<open>
  \<open>wc\<close> on the pieces \<open>read\<close> returns, each of at most 512 bytes and not empty; \<open>err\<close> tells whether the last
  call failed or met the end of the file. The result is the output, and whether the program goes on.
\<close>

definition wc :: "u8 list list \<Rightarrow> bool \<Rightarrow> u8 list \<Rightarrow> (u8 list \<times> bool) option" where
  "wc reads err name =
     (let s = fold (fold wc_byte) reads \<lparr>wc_l = 0, wc_w = 0, wc_c = 0, inword = False\<rparr> in
      if err then map_option (\<lambda>t. (t, False)) (uprintf False (map of_char ''wc: read error'' @ [10]) [])
      else map_option (\<lambda>t. (t, True))
        (uprintf False (map of_char ''%d %d %d %s'' @ [10]) [PInt (wc_l s), PInt (wc_w s), PInt (wc_c s), PStr (Some name)]))"

text \<open>The loop of \<open>main\<close>: what reading a file returns is given by \<open>files\<close>, \<open>None\<close> for one that does not open.\<close>

fun wc_files :: "(u8 list \<Rightarrow> (u8 list list \<times> bool) option) \<Rightarrow> u8 list list \<Rightarrow> u8 list option" where
  "wc_files files [] = Some []"
| "wc_files files (name # names) =
     (case files name of
        None \<Rightarrow> uprintf False (map of_char ''cat: cannot open %s'' @ [10]) [PStr (Some name)]
      | Some (reads, err) \<Rightarrow>
          case wc reads err name of
            None \<Rightarrow> None
          | Some (out, go) \<Rightarrow> if go then map_option ((@) out) (wc_files files names) else Some out)"

definition wc_main :: "(u8 list list \<times> bool) \<Rightarrow> (u8 list \<Rightarrow> (u8 list list \<times> bool) option) \<Rightarrow> u8 list list \<Rightarrow> u8 list option" where
  "wc_main stdin files argv =
     (if argv = [] then map_option fst (wc (fst stdin) (snd stdin) []) else wc_files files argv)"

section \<open>Numbers\<close>

lemma udigits_length:
  assumes "2 \<le> base" and "x < base ^ n" and "0 < n"
  shows "length (udigits base x) \<le> n"
  using assms(2,3)
proof (induction n arbitrary: x)
  case (Suc n)
  show ?case
  proof (cases "x div base = 0")
    case True
    then show ?thesis using assms(1) by (simp add: udigits.simps [of base x])
  next
    case False
    have "x div base < base ^ n" using Suc.prems(1) by (simp add: less_mult_imp_div_less mult.commute)
    moreover from this False have "0 < n" by (cases n) auto
    ultimately show ?thesis using Suc.IH [of "x div base"] assms(1) False by (simp add: udigits.simps [of base x])
  qed
qed simp

text \<open>\<open>printint\<close> never writes past its buffer of 16 characters, for the two bases \<open>printf\<close> uses.\<close>

theorem printint_fits: "length (uprintint x 10 sg) \<le> 11 \<and> length (uprintint x 16 sg) \<le> 9"
proof -
  have b: "unat y < 10 ^ 10 \<and> unat y < 16 ^ 8" for y :: u32 using unat_lt2p [of y] by simp
  have l: "length (udigits 10 (unat y)) \<le> 10 \<and> length (udigits 16 (unat y)) \<le> 8" for y :: u32
    using b [of y] udigits_length [of 10 "unat y" 10] udigits_length [of 16 "unat y" 8] by simp
  show ?thesis using l [of x] l [of "- x"] by (auto simp: uprintint_def Let_def)
qed

lemma udigit_digit:
  assumes "k < 10"
  shows "48 \<le> udigit k" and "udigit k \<le> 57" and "(ucast (udigit k) :: u32) = 48 + of_nat k"
proof -
  have u: "unat (udigit k) = 48 + k" using assms by (simp add: udigit_def unat_word_ariths unat_of_nat)
  then show "48 \<le> udigit k" and "udigit k \<le> 57" using assms by (simp_all add: word_le_nat_alt)
  have "(ucast (udigit k) :: u32) = of_nat (unat (udigit k))" by simp
  then show "(ucast (udigit k) :: u32) = 48 + of_nat k" by (simp add: u)
qed

lemma atoi_digits:
  "atoi_loop n (rev (udigits 10 x) @ rest) = atoi_loop (n * 10 ^ length (udigits 10 x) + of_nat x) rest"
proof (induction x arbitrary: rest rule: less_induct)
  case (less x)
  note d = udigit_digit [of "x mod 10", simplified]
  have m: "10 * (x div 10) + x mod 10 = x" by simp
  have e: "of_nat (x div 10) * 10 + of_nat (x mod 10) = (of_nat x :: u32)"
    by (metis m mult.commute of_nat_add of_nat_mult of_nat_numeral)
  show ?case
  proof (cases "x div 10 = 0")
    case True
    then have "x mod 10 = x" by (metis m add_0 mult_0_right)
    then show ?thesis using True d by (simp add: udigits.simps [of 10 x] algebra_simps)
  next
    case False
    then have "x div 10 < x" by (intro div_less_dividend) auto
    from less.IH [OF this, of "udigit (x mod 10) # rest"] show ?thesis
      using False d by (simp add: udigits.simps [of 10 x] algebra_simps e [symmetric])
  qed
qed



section \<open>Counting\<close>

text \<open>The specification: a word begins at each byte that is no space and follows a space or nothing.\<close>

definition word_count :: "u8 list \<Rightarrow> nat" where
  "word_count t = length (filter (\<lambda>(a, b). wc_space a \<and> \<not> wc_space b) (zip (32 # t) t))"

lemma zip_shift_snoc: "zip (a # t @ [b]) (t @ [b]) = zip (a # t) t @ [(last (a # t), b)]"
  by (induction t arbitrary: a) auto

lemma word_count_snoc:
  "word_count (t @ [b]) = word_count t + (if wc_space (last (32 # t)) \<and> \<not> wc_space b then 1 else 0)"
  by (simp add: word_count_def zip_shift_snoc)

lemma wc_bytes:
  "fold wc_byte t \<lparr>wc_l = 0, wc_w = 0, wc_c = 0, inword = False\<rparr> =
     \<lparr>wc_l = of_nat (count_list t 10), wc_w = of_nat (word_count t), wc_c = of_nat (length t),
      inword = (\<not> wc_space (last (32 # t)))\<rparr>"
proof (induction t rule: rev_induct)
  case Nil
  show ?case by (simp add: word_count_def wc_space_def)
next
  case (snoc b t)
  have sp: "wc_space 32" "wc_space 10" by (simp_all add: wc_space_def)
  have "fold wc_byte (t @ [b]) \<lparr>wc_l = 0, wc_w = 0, wc_c = 0, inword = False\<rparr> = wc_byte b
    \<lparr>wc_l = of_nat (count_list t 10), wc_w = of_nat (word_count t), wc_c = of_nat (length t),
      inword = (\<not> wc_space (last (32 # t)))\<rparr>"
    by (simp add: snoc)
  also have "\<dots> = \<lparr>wc_l = of_nat (count_list (t @ [b]) 10), wc_w = of_nat (word_count (t @ [b])),
      wc_c = of_nat (length (t @ [b])), inword = (\<not> wc_space (last (32 # t @ [b])))\<rparr>"
    using sp by (auto simp: wc_byte_def word_count_snoc Let_def)
  finally show ?case .
qed

lemma fold_pieces: "fold (fold f) xss s = fold f (concat xss) s"
  by (induction xss arbitrary: s) auto

text \<open>
  C37. However the file is cut into pieces by \<open>read\<close>, \<open>wc\<close> prints the number of its line ends, words and
  bytes (modulo \<open>2 ^ 32\<close>, printed as signed numbers) and its name.
\<close>

theorem wc_counts:
  "wc reads False name = Some
     (uprintint (of_nat (count_list (concat reads) 10)) 10 True @ [32] @
      uprintint (of_nat (word_count (concat reads))) 10 True @ [32] @
      uprintint (of_nat (length (concat reads))) 10 True @ [32] @ name @ [10], True)"
  by (simp add: wc_def fold_pieces wc_bytes)

lemma wc_example: "wc [[104, 105, 32], [121, 111, 117, 10]] False [102] = Some (map of_char ''1 2 7 f'' @ [10], True)"
  by code_simp

end
