(* ===== verification/Boot_Loader.thy ===== *)
theory Boot_Loader
  imports C_String
begin

unbundle bit_operations_syntax

text \<open>
  The boot loader (\<open>kernel/bootmain.c\<close>). The drive's contents are an argument, a function from sectors to bytes;
  waiting for the drive is left out. Memory is a function from addresses to bytes. A pointer that runs over
  the end of the address space is \<open>None\<close>.
\<close>

type_synonym drive = "nat \<Rightarrow> nat \<Rightarrow> u8"

definition SECTSIZE :: nat where "SECTSIZE = 512"

text \<open>The sector the drive reads, from the bytes \<open>readsect\<close> writes to the ports 0x1F3 to 0x1F6.\<close>

definition lba :: "u32 \<Rightarrow> nat" where
  "lba offset =
     (let p3 = ucast offset :: u8; p4 = ucast (drop_bit 8 offset) :: u8; p5 = ucast (drop_bit 16 offset) :: u8;
          p6 = ucast (drop_bit 24 offset OR 0xE0) :: u8
      in unat p3 + 2 ^ 8 * unat p4 + 2 ^ 16 * unat p5 + 2 ^ 24 * unat (p6 AND 0x0F))"

definition readsect :: "drive \<Rightarrow> mem \<Rightarrow> u32 \<Rightarrow> u32 \<Rightarrow> mem" where
  "readsect disk m dst offset =
     (\<lambda>a. if unat dst \<le> a \<and> a < unat dst + SECTSIZE then disk (lba offset) (a - unat dst) else m a)"

function readseg_loop :: "drive \<Rightarrow> mem \<Rightarrow> u32 \<Rightarrow> u32 \<Rightarrow> u32 \<Rightarrow> mem option" where
  "readseg_loop disk m va eva offset =
     (if va < eva then
        if 2 ^ 32 \<le> unat va + SECTSIZE then None
        else readseg_loop disk (readsect disk m va offset) (va + of_nat SECTSIZE) eva (offset + 1)
      else Some m)"
  by pat_completeness auto
termination
proof (relation "measure (\<lambda>(disk, m, va, eva, offset). unat eva - unat va)", goal_cases)
  case (2 disk m va eva offset)
  then have "unat (va + of_nat SECTSIZE) = unat va + 512" by (simp add: unat_word_ariths SECTSIZE_def)
  then show ?case using 2(1) by (simp add: word_less_nat_alt)
qed simp

declare readseg_loop.simps [simp del]

definition readseg :: "drive \<Rightarrow> mem \<Rightarrow> u32 \<Rightarrow> u32 \<Rightarrow> u32 \<Rightarrow> mem option" where
  "readseg disk m va count offset =
     readseg_loop disk m (va - offset mod 512) (va + count) (offset div 512 + 1)"

text \<open>The loop over the program headers, which are read from memory when it comes to them.\<close>

primrec load_segs :: "drive \<Rightarrow> mem \<Rightarrow> nat list \<Rightarrow> mem option" where
  "load_segs disk m [] = Some m"
| "load_segs disk m (ph # phs) =
     (let va = get32 m (ph + 8); filesz = get32 m (ph + 16); memsz = get32 m (ph + 20) in
      case readseg disk m va filesz (get32 m (ph + 4)) of
        None \<Rightarrow> None
      | Some m \<Rightarrow>
          load_segs disk
            (if filesz < memsz then stosb m (unat (va + filesz)) 0 (unat (memsz - filesz)) else m) phs)"

text \<open>\<open>bootmain\<close>: the memory and the entry point it jumps to, if it does not return.\<close>

definition bootmain :: "drive \<Rightarrow> mem \<Rightarrow> (mem \<times> u32 option) option" where
  "bootmain disk m =
     (case readseg disk m 0x10000 4096 0 of
        None \<Rightarrow> None
      | Some m \<Rightarrow>
          if get32 m 0x10000 \<noteq> 0x464C457F then Some (m, None)
          else
            (let ph = 0x10000 + unat (get32 m (0x10000 + 28)) in
             map_option (\<lambda>m. (m, Some (get32 m (0x10000 + 24))))
               (load_segs disk m (map (\<lambda>i. ph + 32 * i) [0..<unat (get16 m (0x10000 + 44))]))))"

section \<open>Reading a piece of the image\<close>

text \<open>The kernel image: the bytes from sector 1 on.\<close>

definition kimage :: "drive \<Rightarrow> mem" where
  "kimage disk k = disk (1 + k div 512) (k mod 512)"

lemma bytes_nat:
  assumes "n < 2 ^ 28"
  shows "n mod 256 + 256 * (n div 256 mod 256) + 65536 * (n div 65536 mod 256) + 16777216 * (n div 16777216 mod 16) = (n :: nat)"
proof -
  have "n mod 65536 = 256 * (n div 256 mod 256) + n mod 256" using mod_mult2_eq [of n 256 256] by simp
  moreover have "n mod 16777216 = 65536 * (n div 65536 mod 256) + n mod 65536" using mod_mult2_eq [of n 65536 256] by simp
  moreover have "n = 16777216 * (n div 16777216) + n mod 16777216" by simp
  moreover have "n div 16777216 mod 16 = n div 16777216" using assms by (simp add: less_mult_imp_div_less)
  ultimately show ?thesis by linarith
qed

lemma lba_unat:
  assumes "unat offset < 2 ^ 28"
  shows "lba offset = unat offset"
proof -
  have b: "unat (ucast (drop_bit k offset) :: u8) = unat offset div 2 ^ k mod 256" for k
    by (simp only: unsigned_ucast_eq unat_drop_bit_eq) (simp add: take_bit_eq_mod drop_bit_eq_div)
  have "(ucast (drop_bit 24 offset OR 0xE0) :: u8) AND 0x0F = take_bit 4 (ucast (drop_bit 24 offset))"
  proof -
    have "(ucast (drop_bit 24 offset OR 0xE0) :: u8) = ucast (drop_bit 24 offset) OR 0xE0" by (simp add: unsigned_or_eq)
    moreover have "x AND 0x0F = take_bit 4 x" for x :: u8 by (simp add: take_bit_eq_mask mask_numeral)
    ultimately show ?thesis by (simp add: take_bit_or)
  qed
  also have "unat \<dots> = unat offset div 2 ^ 24 mod 16"
    by (simp only: unsigned_take_bit_eq b) (simp add: take_bit_eq_mod mod_mod_cancel)
  finally show ?thesis using b [of 0] b [of 8] b [of 16] bytes_nat [OF assms] by (simp add: lba_def Let_def)
qed

text \<open>The loop of \<open>readseg\<close> reads \<open>k\<close> whole sectors, as many as reach the end.\<close>

lemma readseg_loop_reads:
  assumes "unat eva + 1024 < 2 ^ 32" and "unat offset + (unat eva - unat va) < 2 ^ 28"
  shows "\<exists>k. readseg_loop disk m va eva offset = Some (\<lambda>a. if unat va \<le> a \<and> a < unat va + 512 * k
        then disk (unat offset + (a - unat va) div 512) ((a - unat va) mod 512) else m a) \<and>
      unat eva \<le> unat va + 512 * k \<and> (k = 0 \<or> unat va + 512 * k < unat eva + 512)"
  using assms
proof (induction disk m va eva offset rule: readseg_loop.induct)
  case (1 disk m va eva offset)
  show ?case
  proof (cases "va < eva")
    case False
    then show ?thesis by (intro exI [of _ 0]) (auto simp: readseg_loop.simps [of disk m va] word_less_nat_alt fun_eq_iff)
  next
    case True
    then have lt: "unat va < unat eva" by (simp add: word_less_nat_alt)
    let ?v = "va + of_nat SECTSIZE"
    have v: "unat ?v = unat va + 512" using "1.prems"(1) lt by (simp add: SECTSIZE_def unat_word_ariths)
    have o: "unat (offset + 1) = unat offset + 1" using "1.prems"(2) by (simp add: unat_word_ariths)
    have g: "\<not> 2 ^ 32 \<le> unat va + SECTSIZE" using "1.prems"(1) lt by (simp add: SECTSIZE_def)
    let ?m = "readsect disk m va offset"
    have "unat (offset + 1) + (unat eva - unat ?v) < 2 ^ 28" using "1.prems"(2) lt unfolding v o by arith
    from "1.IH" [OF True g "1.prems"(1) this]
    obtain k where k: "readseg_loop disk ?m ?v eva (offset + 1) = Some (\<lambda>a. if unat ?v \<le> a \<and> a < unat ?v + 512 * k
        then disk (unat (offset + 1) + (a - unat ?v) div 512) ((a - unat ?v) mod 512) else ?m a)"
      "unat eva \<le> unat ?v + 512 * k" "k = 0 \<or> unat ?v + 512 * k < unat eva + 512"
      by blast
    have l: "lba offset = unat offset" using "1.prems"(2) by (simp add: lba_unat)
    have "(if unat ?v \<le> a \<and> a < unat ?v + 512 * k
        then disk (unat (offset + 1) + (a - unat ?v) div 512) ((a - unat ?v) mod 512) else ?m a) =
      (if unat va \<le> a \<and> a < unat va + 512 * Suc k then disk (unat offset + (a - unat va) div 512) ((a - unat va) mod 512)
       else m a)" for a
    proof (cases "unat va + 512 \<le> a")
      have rs: "?m a = (if unat va \<le> a \<and> a < unat va + 512 then disk (unat offset) (a - unat va) else m a)"
        by (simp add: readsect_def SECTSIZE_def l)
      case True
      then have "(a - unat va) div 512 = Suc ((a - unat ?v) div 512)" "(a - unat va) mod 512 = (a - unat ?v) mod 512"
        unfolding v using le_div_geq [of 512 "a - unat va"] le_mod_geq [of 512 "a - unat va"] by simp_all
      then show ?thesis using True unfolding rs v o by auto
    next
      have rs: "?m a = (if unat va \<le> a \<and> a < unat va + 512 then disk (unat offset) (a - unat va) else m a)"
        by (simp add: readsect_def SECTSIZE_def l)
      case False
      then show ?thesis unfolding rs v by auto
    qed
    then have "readseg_loop disk m va eva offset = Some (\<lambda>a. if unat va \<le> a \<and> a < unat va + 512 * Suc k
        then disk (unat offset + (a - unat va) div 512) ((a - unat va) mod 512) else m a)"
      using True g k(1) by (simp add: readseg_loop.simps [of disk m va])
    then show ?thesis using k(2,3) v lt by (intro exI [of _ "Suc k"]) auto
  qed
qed

lemma readseg_reads:
  assumes va: "unat offset mod 512 \<le> unat va" "unat va + unat count + 1024 < 2 ^ 32" and sz: "unat offset + unat count < 2 ^ 27"
  obtains m' where "readseg disk m va count offset = Some m'"
    and "\<And>i. i < unat count \<Longrightarrow> m' (unat va + i) = kimage disk (unat offset + i)"
    and "\<And>a. a < unat va - unat offset mod 512 \<Longrightarrow> m' a = m a"
proof -
  let ?o = "unat offset" and ?v = "va - offset mod 512"
  have r: "unat (offset mod 512) = ?o mod 512" and q: "unat (offset div 512 + 1) = ?o div 512 + 1"
    using sz by (simp_all add: unat_mod unat_div unat_word_ariths)
  have v: "unat ?v = unat va - ?o mod 512" using va(1) by (simp add: unat_sub word_le_nat_alt r)
  have e: "unat (va + count) = unat va + unat count" using va(2) by (simp add: unat_word_ariths)
  have a: "unat (va + count) + 1024 < 2 ^ 32" using va(2) e by simp
  have b: "unat (offset div 512 + 1) + (unat (va + count) - unat ?v) < 2 ^ 28"
  proof -
    have "unat va + unat count - (unat va - ?o mod 512) \<le> unat count + 511" using mod_less_divisor [of 512 ?o] va(1) by linarith
    moreover have "?o div 512 \<le> ?o" by simp
    moreover have "(2::nat) ^ 28 = 268435456" "?o + unat count < 134217728" using sz by simp_all
    ultimately show ?thesis unfolding q e v by linarith
  qed
  obtain k where k: "readseg disk m va count offset = Some (\<lambda>a. if unat ?v \<le> a \<and> a < unat ?v + 512 * k
        then disk (?o div 512 + 1 + (a - unat ?v) div 512) ((a - unat ?v) mod 512) else m a)"
      "unat va + unat count \<le> unat ?v + 512 * k"
    using readseg_loop_reads [OF a b, of disk m] unfolding readseg_def q e by blast
  have img: "disk (?o div 512 + 1 + (unat va + i - unat ?v) div 512) ((unat va + i - unat ?v) mod 512) = kimage disk (?o + i)" for i
  proof -
    have "unat va + i - unat ?v = i + ?o mod 512" using va(1) v by simp
    moreover have "(?o + i) div 512 = ?o div 512 + (i + ?o mod 512) div 512" "(?o + i) mod 512 = (i + ?o mod 512) mod 512"
      using div_mult_self2 [of 512 "i + ?o mod 512" "?o div 512"] mod_mult_self2 [of "i + ?o mod 512" 512 "?o div 512"]
      by (simp_all add: ac_simps)
    ultimately show ?thesis unfolding kimage_def by (simp add: ac_simps)
  qed
  show thesis
    by (rule that [OF k(1)]) (use k(2) img v in auto)
qed

section \<open>Loading the kernel\<close>

text \<open>A program header in the image: offset, address, size in the file, size in memory.\<close>

record seg =
  s_off :: u32
  s_va :: u32
  s_filesz :: u32
  s_memsz :: u32

definition seg_at :: "mem \<Rightarrow> nat \<Rightarrow> seg" where
  "seg_at m ph = \<lparr>s_off = get32 m (ph + 4), s_va = get32 m (ph + 8), s_filesz = get32 m (ph + 16), s_memsz = get32 m (ph + 20)\<rparr>"

definition seg_start :: "seg \<Rightarrow> nat" where
  "seg_start s = unat (s_va s) - unat (s_off s) mod 512"

definition seg_end :: "seg \<Rightarrow> nat" where
  "seg_end s = unat (s_va s) + max (unat (s_filesz s)) (unat (s_memsz s))"

text \<open>Where segments may lie: above the scratch space, inside the address space, and in the first 128 MB of the image.\<close>

definition seg_ok :: "seg \<Rightarrow> bool" where
  "seg_ok s \<longleftrightarrow> 0x11200 \<le> unat (s_va s) \<and> seg_end s + 1024 < 2 ^ 32 \<and> unat (s_off s) + unat (s_filesz s) < 2 ^ 27"

definition seg_loaded :: "drive \<Rightarrow> mem \<Rightarrow> seg \<Rightarrow> bool" where
  "seg_loaded disk m s \<longleftrightarrow>
     (\<forall>i<unat (s_filesz s). m (unat (s_va s) + i) = kimage disk (unat (s_off s) + i)) \<and>
     (\<forall>i. unat (s_filesz s) \<le> i \<longrightarrow> i < unat (s_memsz s) \<longrightarrow> m (unat (s_va s) + i) = 0)"

lemma seg_loaded_cong:
  assumes "seg_loaded disk m s" and "\<And>a. a < seg_end s \<Longrightarrow> m' a = m a"
  shows "seg_loaded disk m' s"
  using assms by (auto simp: seg_loaded_def seg_end_def)

lemma load_one:
  assumes ok: "seg_ok s" and s: "s = seg_at m ph"
  obtains m' where "load_segs disk m (ph # phs) = load_segs disk m' phs" "seg_loaded disk m' s"
    "\<And>a. a < seg_start s \<Longrightarrow> m' a = m a"
proof -
  let ?va = "s_va s" and ?fs = "s_filesz s" and ?ms = "s_memsz s" and ?o = "s_off s"
  have "unat ?o mod 512 < 512" by simp
  then have a: "unat ?o mod 512 \<le> unat ?va" using ok unfolding seg_ok_def by linarith
  have b: "unat ?va + unat ?fs + 1024 < 2 ^ 32" "unat ?o + unat ?fs < 2 ^ 27"
    using ok by (auto simp: seg_ok_def seg_end_def max_def split: if_splits)
  obtain m1 where m1: "readseg disk m ?va ?fs ?o = Some m1"
    "\<And>i. i < unat ?fs \<Longrightarrow> m1 (unat ?va + i) = kimage disk (unat ?o + i)" "\<And>a. a < seg_start s \<Longrightarrow> m1 a = m a"
    unfolding seg_start_def by (rule readseg_reads [OF a b, of disk m]) blast
  let ?m = "if ?fs < ?ms then stosb m1 (unat (?va + ?fs)) 0 (unat (?ms - ?fs)) else m1"
  have f: "unat (?va + ?fs) = unat ?va + unat ?fs" using b(1) by (simp add: unat_word_ariths)
  have g: "unat (?ms - ?fs) = unat ?ms - unat ?fs" if "?fs < ?ms" using that by (simp add: unat_sub word_less_nat_alt word_le_nat_alt)
  have "load_segs disk m (ph # phs) = load_segs disk ?m phs" using m1(1) by (simp add: s seg_at_def Let_def)
  moreover have "seg_loaded disk ?m s" using m1(2) f g by (auto simp: seg_loaded_def stosb_apply word_less_nat_alt)
  moreover have "?m a = m a" if "a < seg_start s" for a
    using that m1(3) f by (auto simp: stosb_apply seg_start_def)
  ultimately show thesis by (rule that)
qed

lemma load_all:
  assumes "\<And>s. s \<in> set segs \<Longrightarrow> seg_ok s" and "sorted_wrt (\<lambda>s t. seg_end s \<le> seg_start t) segs"
    and "segs = map (seg_at m) phs" and "\<And>ph. ph \<in> set phs \<Longrightarrow> ph + 32 \<le> 0x11000"
  shows "\<exists>m'. load_segs disk m phs = Some m' \<and> (\<forall>s\<in>set segs. seg_loaded disk m' s) \<and>
    (\<forall>a. a < 0x11000 \<or> (\<forall>s\<in>set segs. a < seg_start s) \<longrightarrow> m' a = m a)"
  using assms
proof (induction phs arbitrary: segs m)
  case Nil
  then show ?case by simp
next
  case (Cons ph phs)
  then obtain s ss where ss: "segs = s # ss" "s = seg_at m ph" "ss = map (seg_at m) phs" by auto
  have ok: "seg_ok s" using Cons.prems(1) ss by simp
  obtain m1 where m1: "load_segs disk m (ph # phs) = load_segs disk m1 phs" "seg_loaded disk m1 s"
    "\<And>a. a < seg_start s \<Longrightarrow> m1 a = m a"
    by (rule load_one [OF ok ss(2), of disk phs]) blast
  have low: "0x11000 \<le> seg_start t" if "t \<in> set segs" for t
  proof -
    have "unat (s_off t) mod 512 < 512" by simp
    moreover have "0x11200 \<le> unat (s_va t)" using Cons.prems(1) [OF that] by (simp add: seg_ok_def)
    ultimately show ?thesis unfolding seg_start_def by linarith
  qed
  have "seg_at m1 q = seg_at m q" if "q \<in> set phs" for q
  proof -
    have "m1 a = m a" if "a < q + 32" for a
      using m1(3) [of a] low [of s] ss(1) Cons.prems(4) [of q] that \<open>q \<in> set phs\<close> by simp
    then show ?thesis unfolding seg_at_def by (auto intro!: get32_cong)
  qed
  then have p3: "ss = map (seg_at m1) phs" using ss(3) by simp
  have p1: "seg_ok t" if "t \<in> set ss" for t using Cons.prems(1) that ss(1) by simp
  have p2: "sorted_wrt (\<lambda>s t. seg_end s \<le> seg_start t) ss" using Cons.prems(2) ss(1) by simp
  have p4: "q + 32 \<le> 0x11000" if "q \<in> set phs" for q using Cons.prems(4) that by simp
  from Cons.IH [OF p1 p2 p3 p4] obtain m' where m': "load_segs disk m1 phs = Some m'"
    "\<forall>t\<in>set ss. seg_loaded disk m' t" "\<forall>a. a < 0x11000 \<or> (\<forall>t\<in>set ss. a < seg_start t) \<longrightarrow> m' a = m1 a"
    by blast
  have "seg_loaded disk m' s"
  proof (rule seg_loaded_cong [OF m1(2)])
    fix a assume "a < seg_end s"
    then have "\<forall>t\<in>set ss. a < seg_start t" using Cons.prems(2) ss(1) by fastforce
    then show "m' a = m1 a" using m'(3) by blast
  qed
  moreover have "m' a = m a" if "a < 0x11000 \<or> (\<forall>t\<in>set segs. a < seg_start t)" for a
  proof -
    have "m' a = m1 a" using that m'(3) ss(1) by auto
    moreover have "a < seg_start s" using that low [of s] ss(1) by auto
    ultimately show ?thesis using m1(3) by simp
  qed
  ultimately show ?case using m1(1) m'(1,2) ss(1) by auto
qed

text \<open>
  C33. The boot loader reads every segment of the kernel to its address, zeroes the rest of it and jumps to the
  entry point, provided the program headers lie in the first 4096 bytes of the image and the segments
  are in increasing order: each ends before the sector in which the next one begins is read. The bytes read
  too many after a segment are overwritten by the next one, as the comment in \<open>readseg\<close> says.
\<close>

theorem bootmain_loads:
  fixes disk :: drive
  defines "im \<equiv> kimage disk"
  assumes magic: "get32 im 0 = 0x464C457F"
    and phs: "unat (get32 im 28) + 32 * unat (get16 im 44) \<le> 4096"
    and segs: "segs = map (\<lambda>i. seg_at im (unat (get32 im 28) + 32 * i)) [0..<unat (get16 im 44)]"
    and ok: "\<And>s. s \<in> set segs \<Longrightarrow> seg_ok s" and ord: "sorted_wrt (\<lambda>s t. seg_end s \<le> seg_start t) segs"
  shows "\<exists>m'. bootmain disk m = Some (m', Some (get32 im 24)) \<and> (\<forall>s\<in>set segs. seg_loaded disk m' s)"
proof -
  obtain m0 where m0: "readseg disk m 0x10000 4096 0 = Some m0" "\<And>i. i < 4096 \<Longrightarrow> m0 (0x10000 + i) = im i"
    by (rule readseg_reads [of 0 "0x10000" 4096 disk m]) (auto simp: im_def)
  have g4: "get32 m0 (0x10000 + k) = get32 im k" if "k + 4 \<le> 4096" for k
    using m0(2) [of k] m0(2) [of "k + 1"] m0(2) [of "k + 2"] m0(2) [of "k + 3"] that by (simp add: get32_def)
  have g2: "get16 m0 (0x10000 + k) = get16 im k" if "k + 2 \<le> 4096" for k
    using m0(2) [of k] m0(2) [of "k + 1"] that by (simp add: get16_def)
  let ?n = "unat (get16 im 44)" and ?o = "unat (get32 im 28)"
  let ?phs = "map (\<lambda>i. 0x10000 + ?o + 32 * i) [0..<?n]"
  have in_page: "?o + 32 * i + 32 \<le> 4096" if "i < ?n" for i
  proof -
    have "32 * i + 32 \<le> 32 * ?n" using that by simp
    then show ?thesis using phs by linarith
  qed
  have sg: "seg_at m0 (0x10000 + q) = seg_at im q" if "q + 32 \<le> 4096" for q
    using g4 [of "q + 4"] g4 [of "q + 8"] g4 [of "q + 16"] g4 [of "q + 20"] that by (simp add: seg_at_def)
  have "segs = map (seg_at m0) ?phs"
    unfolding segs using in_page sg [of "?o + 32 * _"] by (auto simp: add.assoc)
  moreover have "ph + 32 \<le> 0x11000" if "ph \<in> set ?phs" for ph using that in_page by auto
  ultimately obtain m' where m': "load_segs disk m0 ?phs = Some m'" "\<forall>s\<in>set segs. seg_loaded disk m' s"
    "\<And>a. a < 0x11000 \<Longrightarrow> m' a = m0 a"
    using load_all [OF ok ord, of m0 ?phs disk] by blast
  have "get32 m' (0x10000 + 24) = get32 m0 (0x10000 + 24)" by (rule get32_cong) (simp add: m'(3))
  then show ?thesis using m0(1) m'(1,2) g4 [of 0] g4 [of 28] g4 [of 24] g2 [of 44] magic
    by (simp add: bootmain_def)
qed

text \<open>An image with one segment of 3 bytes and 2 zero bytes after it, to be loaded at 1 MB.\<close>

definition tiny_kernel :: drive where
  "tiny_kernel n k = (if n = 1 then ((\<lambda>_. 0)(0 := 0x7F, 1 := 0x45, 2 := 0x4C, 3 := 0x46, 26 := 0x10, 28 := 52, 44 := 1,
     57 := 2, 62 := 0x10, 68 := 3, 72 := 5)) k else if n = 2 then ((\<lambda>_. 0)(0 := 1, 1 := 2, 2 := 3)) k else 9)"

theorem bootmain_loads_witness:
  "\<exists>m'. bootmain tiny_kernel (\<lambda>_. 7) = Some (m', Some 0x100000) \<and> m' 0x100000 = 1 \<and> m' 0x100002 = 3 \<and> m' 0x100004 = 0"
proof -
  let ?im = "kimage tiny_kernel"
  have b: "?im k = tiny_kernel 1 k" if "k < 512" for k using that by (simp add: kimage_def)
  have h: "get32 ?im 0 = 0x464C457F" "get32 ?im 28 = 52" "get16 ?im 44 = 1" "get32 ?im 24 = 0x100000"
    by (simp_all add: get32_def get16_def b tiny_kernel_def)
  have s: "seg_at ?im 52 = \<lparr>s_off = 512, s_va = 0x100000, s_filesz = 3, s_memsz = 5\<rparr>"
    by (simp add: seg_at_def get32_def b tiny_kernel_def)
  let ?s = "\<lparr>s_off = 512, s_va = 0x100000, s_filesz = 3, s_memsz = 5\<rparr>"
  have "\<exists>m'. bootmain tiny_kernel (\<lambda>_. 7) = Some (m', Some (get32 ?im 24)) \<and> (\<forall>s\<in>set [?s]. seg_loaded tiny_kernel m' s)"
    by (rule bootmain_loads) (simp_all add: h s seg_ok_def seg_end_def)
  moreover have "?im 512 = 1" "?im 514 = 3" by (simp_all add: kimage_def tiny_kernel_def)
  ultimately show ?thesis
    by (fastforce simp: h seg_loaded_def dest: spec [of _ "0::nat"] spec [of _ "2::nat"] spec [of _ "4::nat"])
qed

end
