(* ===== verification/Round_Robin.thy ===== *)
theory Round_Robin
  imports Boot
begin

text \<open>
  The scheduler of the kernels without lottery (\<open>triple file system/kernel/proc.c\<close>, and the same text in the
  memory-model project): a scan over the process table that resumes behind the process it has just run. A
  scheduler decision ends at the \<open>swtch\<close> into the chosen process, or at the end of a pass over the table.
\<close>

definition rr_scan :: "nat \<Rightarrow> ('z kern_scheme, nat option) km" where
  "rr_scan i =
     bindk (getk ptable) (\<lambda>t.
     case find (\<lambda>p. p_state (t p) = RUNNABLE) [i..<NPROC] of
       Some p \<Rightarrow>
         bindk (run_proc p) (\<lambda>_.
         ret (Some p))
     | None \<Rightarrow>
         bindk (rel LkPtable) (\<lambda>_.
         ret None))"

text \<open>The beginning of a pass, and the statements after \<open>swtch\<close> has returned from process \<open>p\<close>.\<close>

definition rr_begin :: "('z kern_scheme, nat option) km" where
  "rr_begin =
     bindk (modk (\<lambda>s. s\<lparr>lockst := upd_cpu (mycpu s) (\<lambda>k. k\<lparr>fl_if := True\<rparr>) (lockst s)\<rparr>)) (\<lambda>_.
     bindk (acq LkPtable) (\<lambda>_.
     rr_scan 0))"

definition rr_resume :: "nat \<Rightarrow> ('z kern_scheme, nat option) km" where
  "rr_resume p =
     bindk switchkvm (\<lambda>_.
     bindk (modk (\<lambda>s. s\<lparr>curproc := None\<rparr>)) (\<lambda>_.
     rr_scan (Suc p)))"

definition rr_decide :: "nat option \<Rightarrow> ('z kern_scheme, nat option) km" where
  "rr_decide last_run = (case last_run of None \<Rightarrow> rr_begin | Some p \<Rightarrow> rr_resume p)"

section \<open>What is decided\<close>

definition rr_from :: "nat option \<Rightarrow> nat" where
  "rr_from last_run = (case last_run of None \<Rightarrow> 0 | Some p \<Rightarrow> Suc p)"

lemma acq_ptable: "acq lk s = Done x t \<Longrightarrow> ptable t = ptable s"
  by (auto simp: acq_def zoom_def split: outcome.splits)

lemma rr_scan_find: "rr_scan i s = Done d t \<Longrightarrow> d = find (\<lambda>p. p_state (ptable s p) = RUNNABLE) [i..<NPROC]"
  by (auto simp: rr_scan_def exec bindk_eq_Done split: option.splits)

lemma rr_decide_find:
  assumes "rr_decide l s = Done d t"
  shows "d = find (\<lambda>p. p_state (ptable s p) = RUNNABLE) [rr_from l..<NPROC]"
  using assms
  by (auto simp: rr_decide_def rr_from_def rr_begin_def rr_resume_def switchkvm_def exec bindk_eq_Done
    split: option.splits dest!: rr_scan_find acq_ptable)

section \<open>No process starves\<close>

text \<open>
  A run of the scheduler: \<open>l k\<close> is the process run before decision \<open>k\<close> (none at the beginning of a pass), which is
  taken in the state \<open>s k\<close>. What the processes and the other CPUs do between two decisions is left open.
\<close>

definition rr_run :: "(nat \<Rightarrow> nat option) \<Rightarrow> (nat \<Rightarrow> 'z kern_scheme) \<Rightarrow> bool" where
  "rr_run l s \<longleftrightarrow> (\<forall>k. \<exists>t. rr_decide (l k) (s k) = Done (l (Suc k)) t)"

lemma find_upt_Some:
  assumes "P p" and "i \<le> p" and "p < n"
  obtains q where "find P [i..<n] = Some q" "i \<le> q" "q \<le> p"
proof -
  have "find P [i..<n] \<noteq> None" using assms by (auto simp: find_None_iff)
  then obtain q where q: "find P [i..<n] = Some q" by auto
  then obtain j where j: "j < length [i..<n]" "P ([i..<n] ! j)" "q = [i..<n] ! j" "\<And>m. m < j \<Longrightarrow> \<not> P ([i..<n] ! m)"
    by (auto simp: find_Some_iff)
  have "q = i + j" using j by simp
  moreover have "\<not> p - i < j" using j(1) j(4) [of "p - i"] assms by auto
  ultimately show thesis using that q assms by simp
qed

lemma find_upt_in: "find P [i..<n] = Some q \<Longrightarrow> i \<le> q \<and> q < n"
  by (auto simp: find_Some_iff)

text \<open>A process ahead of the scan is reached before the pass ends.\<close>

lemma scan_ahead:
  assumes nx: "\<And>k. l (Suc k) = find (P k) [rr_from (l k)..<n]" and p: "p < n" "\<And>k. P k p"
  shows "rr_from (l k) \<le> p \<Longrightarrow> \<exists>j\<le>p - rr_from (l k). l (Suc (k + j)) = Some p"
proof (induction "p - rr_from (l k)" arbitrary: k rule: less_induct)
  case less
  obtain q where q: "l (Suc k) = Some q" "rr_from (l k) \<le> q" "q \<le> p"
    using find_upt_Some [where P = "P k", OF p(2) less.prems p(1)] nx by metis
  show ?case
  proof (cases "q = p")
    case True
    then show ?thesis using q(1) by (intro exI [of _ 0]) simp
  next
    case False
    then have f: "rr_from (l (Suc k)) = Suc q" "Suc q \<le> p" using q by (simp_all add: rr_from_def)
    have "p - Suc q < p - rr_from (l k)" using f(2) q(2) by simp
    then obtain j where "j \<le> p - Suc q" "l (Suc (Suc k + j)) = Some p" using less.hyps [of "Suc k"] f by auto
    then show ?thesis using f(2) q(2) by (intro exI [of _ "Suc j"]) auto
  qed
qed

lemma scan_ends:
  assumes nx: "\<And>k. l (Suc k) = find (P k) [rr_from (l k)..<n]"
  shows "rr_from (l k) \<le> n \<Longrightarrow> \<exists>j\<le>n + 1 - rr_from (l k). rr_from (l (k + j)) = 0"
proof (induction "n - rr_from (l k)" arbitrary: k rule: less_induct)
  case less
  show ?case
  proof (cases "l (Suc k)")
    case None
    then have "rr_from (l (k + 1)) = 0" by (simp add: rr_from_def)
    then show ?thesis using less.prems by (intro exI [of _ 1]) simp
  next
    case (Some q)
    then have f: "rr_from (l (Suc k)) = Suc q" "rr_from (l k) \<le> q" "q < n"
      using find_upt_in [of "P k" "rr_from (l k)" n q] nx [of k] by (simp_all add: rr_from_def)
    then have "n - Suc q < n - rr_from (l k)" by simp
    then obtain j where "j \<le> n + 1 - Suc q" "rr_from (l (Suc k + j)) = 0" using less.hyps [of "Suc k"] f by auto
    then show ?thesis using f by (intro exI [of _ "Suc j"]) auto
  qed
qed

lemma scan_reaches:
  assumes nx: "\<And>k. l (Suc k) = find (P k) [rr_from (l k)..<n]" and p: "p < n" "\<And>k. P k p" and l0: "rr_from (l 0) \<le> n"
  shows "\<exists>k\<le>n. l (Suc k) = Some p"
proof (cases "rr_from (l 0) \<le> p")
  case True
  then obtain j where "j \<le> p - rr_from (l 0)" "l (Suc j) = Some p" using scan_ahead [where l = l and P = P and k = 0, OF nx p] by auto
  then show ?thesis using p(1) by (intro exI [of _ j]) auto
next
  case False
  obtain j where j: "j \<le> n + 1 - rr_from (l 0)" "rr_from (l j) = 0" using scan_ends [where l = l and P = P and k = 0, OF nx] l0 by auto
  then obtain i where "i \<le> p" "l (Suc (j + i)) = Some p" using scan_ahead [where l = l and P = P and k = j, OF nx p] by auto
  then show ?thesis using False j(1) l0 by (intro exI [of _ "j + i"]) auto
qed

text \<open>
  C34. A process that stays runnable is run at one of the next \<open>NPROC + 1\<close> decisions of the scheduler, wherever
  the scan stands and whatever happens to the other processes in between.
\<close>

theorem round_robin_fair:
  assumes "rr_run l s" and "p < NPROC" and "\<And>k. p_state (ptable (s k) p) = RUNNABLE" and "\<And>q. l 0 = Some q \<Longrightarrow> q < NPROC"
  shows "\<exists>k\<le>NPROC. l (Suc k) = Some p"
proof (rule scan_reaches [where P = "\<lambda>k q. p_state (ptable (s k) q) = RUNNABLE"])
  show "l (Suc k) = find (\<lambda>q. p_state (ptable (s k) q) = RUNNABLE) [rr_from (l k)..<NPROC]" for k
    using assms(1) rr_decide_find unfolding rr_run_def by metis
  show "rr_from (l 0) \<le> NPROC" using assms(4) by (auto simp: rr_from_def Suc_le_eq split: option.split)
qed (use assms in simp_all)

text \<open>A machine with one runnable process, in slot 1, whose scheduler holds the lock of the table.\<close>

definition one_runnable :: kern where
  "one_runnable = (booted (\<lambda>_ _ _. 0))\<lparr>ptable := (\<lambda>_. proc0)(1 := proc0\<lparr>p_state := RUNNABLE, p_pgdir := 0x300000\<rparr>)\<rparr>"

definition scheduler_locked :: kern where
  "scheduler_locked = one_runnable\<lparr>lockst := lk_take (mycpu one_runnable) LkPtable (lockst one_runnable)\<rparr>"

lemma one_runnable_state [simp]:
  "nolocks one_runnable" "p_state (ptable one_runnable q) = (if q = 1 then RUNNABLE else UNUSED)"
  "p_pgdir (ptable one_runnable (Suc 0)) = 0x300000" "ptable scheduler_locked = ptable one_runnable"
  "lockst scheduler_locked = lk_take (mycpu one_runnable) LkPtable (lockst one_runnable)" "mycpu scheduler_locked = mycpu one_runnable"
  by (simp_all add: one_runnable_def scheduler_locked_def proc0_def)

lemma one_runnable_run: "rr_run (\<lambda>k. if even k then Some 1 else None) (\<lambda>k. if even k then scheduler_locked else one_runnable)"
proof -
  have "find (\<lambda>q. p_state (ptable one_runnable q) = RUNNABLE) [Suc (Suc 0)..<NPROC] = None" by (auto simp: find_None_iff)
  then have rs: "\<exists>t. rr_resume 1 scheduler_locked = Done None t"
    by (simp add: rr_resume_def rr_scan_def switchkvm_def exec)
  have "find (\<lambda>q. p_state (ptable one_runnable q) = RUNNABLE) [0..<NPROC] = Some 1"
    by (simp add: NPROC_def upt_conv_Cons)
  moreover have "lk_free LkPtable (upd_cpu (mycpu one_runnable) (fl_if_update (\<lambda>_. True)) (lockst one_runnable))"
    by (simp add: one_runnable_def booted_def bss_def spin0_def lk_free_def upd_cpu_def)
  ultimately have "\<exists>t. rr_begin one_runnable = Done (Some 1) t"
    by (simp add: rr_begin_def rr_scan_def run_proc_def switchuvm_def acq_def zoom_def exec)
  then show ?thesis using rs by (simp add: rr_run_def rr_decide_def)
qed

theorem round_robin_fair_witness: "\<exists>k\<le>NPROC. (if even (Suc k) then Some 1 else None) = Some (1::nat)"
  by (rule round_robin_fair [OF one_runnable_run]) (simp_all add: NPROC_def split: if_splits)

end
