(* ===== verification/Shell_Run.thy ===== *)
theory Shell_Run
  imports Shell
begin

text \<open>
  What the shell does with a parsed command, and its main loop (\<open>user/sh.c\<close>, \<open>runcmd\<close>, \<open>getcmd\<close>, \<open>main\<close>). A process
  has a table of descriptors; \<open>close\<close>, \<open>dup\<close>, \<open>pipe\<close> and \<open>open\<close> work on it as the kernel does, always taking the
  lowest free entry. Processes and the points in them where a call can fail are named by the path of
  the command in the tree; which calls fail is a parameter. \<open>runcmd\<close> lists the programs that are executed,
  with their descriptors, and the messages, by process; processes that are not waited for run at the same time.
\<close>

type_synonym path = "nat list"

datatype fobj = Inherited nat | Opened span u32 | ReadEnd path | WriteEnd path

type_synonym fdt = "nat \<Rightarrow> fobj option"

record senv =
  can_open :: "path \<Rightarrow> bool"
  can_fork :: "path \<Rightarrow> bool"
  can_pipe :: "path \<Rightarrow> bool"
  can_exec :: "path \<Rightarrow> bool"

datatype event = Execs path fdt "span list" | Says path string

definition NOFD :: nat where "NOFD = 16"

definition fd_alloc :: "fdt \<Rightarrow> nat option" where
  "fd_alloc t = find (\<lambda>i. t i = None) [0..<NOFD]"

definition fd_close :: "nat \<Rightarrow> fdt \<Rightarrow> fdt" where
  "fd_close fd t = t(fd := None)"

definition fd_dup :: "nat \<Rightarrow> fdt \<Rightarrow> fdt" where
  "fd_dup fd t = (case t fd of None \<Rightarrow> t | Some x \<Rightarrow> case fd_alloc t of None \<Rightarrow> t | Some k \<Rightarrow> t(k \<mapsto> x))"

definition fd_pipe :: "path \<Rightarrow> fdt \<Rightarrow> (fdt \<times> nat \<times> nat) option" where
  "fd_pipe p t =
     (case fd_alloc t of None \<Rightarrow> None
      | Some fd0 \<Rightarrow>
          let t1 = t(fd0 \<mapsto> ReadEnd p) in
          case fd_alloc t1 of None \<Rightarrow> None
          | Some fd1 \<Rightarrow> Some (t1(fd1 \<mapsto> WriteEnd p), fd0, fd1))"

primrec runcmd :: "senv \<Rightarrow> path \<Rightarrow> fdt \<Rightarrow> cmd \<Rightarrow> event list" where
  "runcmd e p t (EXEC argv) =
     (if argv = [] then []
      else if can_exec e p then [Execs p t argv] else [Says p ''exec failed''])"
| "runcmd e p t (REDIR c f mode fd) =
     (let t1 = fd_close fd t in
      case (if can_open e p then fd_alloc t1 else None) of
        None \<Rightarrow> [Says p ''open failed'']
      | Some k \<Rightarrow> runcmd e (0 # p) (t1(k \<mapsto> Opened f mode)) c)"
| "runcmd e p t (LIST l r) =
     (if \<not> can_fork e p then [Says p ''fork'']
      else runcmd e (0 # p) t l @ runcmd e (1 # p) t r)"
| "runcmd e p t (PIPE l r) =
     (case (if can_pipe e p then fd_pipe p t else None) of
        None \<Rightarrow> [Says p ''pipe'']
      | Some (t1, p0, p1) \<Rightarrow>
          if \<not> can_fork e (0 # p) then [Says p ''fork'']
          else
            runcmd e (0 # p) (fd_close p1 (fd_close p0 (fd_dup p1 (fd_close 1 t1)))) l @
            (if \<not> can_fork e (1 # p) then [Says p ''fork'']
             else runcmd e (1 # p) (fd_close p1 (fd_close p0 (fd_dup p0 (fd_close 0 t1)))) r))"
| "runcmd e p t (BACK c) =
     (if \<not> can_fork e p then [Says p ''fork''] else runcmd e (0 # p) t c)"

section \<open>The main loop\<close>

text \<open>\<open>getcmd\<close>: the line and the rest of the input, \<open>None\<close> at its end.\<close>

definition getcmd :: "u8 list \<Rightarrow> (u8 list \<times> u8 list) option" where
  "getcmd inp = (case gets 100 inp of (buf, rest) \<Rightarrow> if buf = [] \<or> hd buf = 0 then None else Some (buf, rest))"

lemma gets_loop_shorter: "gets_loop k inp = (buf, rest) \<Longrightarrow> length buf + length rest = length inp"
  by (induction k inp arbitrary: buf rule: gets_loop.induct) (auto split: if_splits prod.splits)

lemma getcmd_shorter: "getcmd inp = Some (buf, rest) \<Longrightarrow> length rest < length inp"
  by (auto simp: getcmd_def gets_def neq_Nil_conv split: prod.splits if_splits dest!: gets_loop_shorter)

datatype shact = Chdir "u8 list" | RunLine "u8 list"

text \<open>One round: \<open>cd\<close> is done by the shell itself, with the last character of the line cut off.\<close>

definition sh_round :: "u8 list \<Rightarrow> shact" where
  "sh_round buf =
     (let s = takeWhile (\<lambda>c. c \<noteq> 0) buf in
      if take 3 buf = [99, 100, 32] then Chdir (drop 3 (butlast s)) else RunLine s)"

function sh_main :: "u8 list \<Rightarrow> shact list" where
  "sh_main inp = (case getcmd inp of None \<Rightarrow> [] | Some (buf, rest) \<Rightarrow> sh_round buf # sh_main rest)"
  by pat_completeness auto
termination
  by (relation "measure length") (auto dest: getcmd_shorter)

declare sh_main.simps [simp del]

text \<open>The child of the shell for a line: \<open>runcmd(parsecmd(buf))\<close>.\<close>

definition sh_child :: "senv \<Rightarrow> fdt \<Rightarrow> u8 list \<Rightarrow> event list" where
  "sh_child e t s =
     (case parsecmd (4 * length s + 5) (\<lambda>i. if i < length s then s ! i else 0) (length s) of
        Ok (c, _) _ \<Rightarrow> runcmd e [] t c
      | Panics msg \<Rightarrow> [Says [] msg]
      | Stuck \<Rightarrow> [])"

section \<open>What the plumbing amounts to\<close>

text \<open>The same without descriptor numbers to be found: a redirection and a pipe replace one descriptor.\<close>

primrec denote :: "senv \<Rightarrow> path \<Rightarrow> fdt \<Rightarrow> cmd \<Rightarrow> event list" where
  "denote e p t (EXEC argv) =
     (if argv = [] then [] else if can_exec e p then [Execs p t argv] else [Says p ''exec failed''])"
| "denote e p t (REDIR c f mode fd) =
     (if can_open e p then denote e (0 # p) (t(fd \<mapsto> Opened f mode)) c else [Says p ''open failed''])"
| "denote e p t (LIST l r) =
     (if can_fork e p then denote e (0 # p) t l @ denote e (1 # p) t r else [Says p ''fork''])"
| "denote e p t (PIPE l r) =
     (if \<not> can_pipe e p then [Says p ''pipe'']
      else if \<not> can_fork e (0 # p) then [Says p ''fork'']
      else denote e (0 # p) (t(1 \<mapsto> WriteEnd p)) l @
        (if can_fork e (1 # p) then denote e (1 # p) (t(0 \<mapsto> ReadEnd p)) r else [Says p ''fork'']))"
| "denote e p t (BACK c) = (if can_fork e p then denote e (0 # p) t c else [Says p ''fork''])"

text \<open>The redirections the parser builds are of descriptors 0 and 1.\<close>

primrec redir_std :: "cmd \<Rightarrow> bool" where
  "redir_std (EXEC argv) = True"
| "redir_std (REDIR c f mode fd) = (fd < 2 \<and> redir_std c)"
| "redir_std (LIST l r) = (redir_std l \<and> redir_std r)"
| "redir_std (PIPE l r) = (redir_std l \<and> redir_std r)"
| "redir_std (BACK c) = redir_std c"

text \<open>The descriptors a shell starts with: the three standard ones open, the next two free.\<close>

definition std_fds :: "fdt \<Rightarrow> bool" where
  "std_fds t \<longleftrightarrow> t 0 \<noteq> None \<and> t 1 \<noteq> None \<and> t 2 \<noteq> None \<and> t 3 = None \<and> t 4 = None"

lemma first_fds: "[0..<NOFD] = 0 # 1 # 2 # 3 # 4 # [5..<16]"
  unfolding NOFD_def by code_simp

lemma fd_alloc_low:
  "t 0 = None \<Longrightarrow> fd_alloc t = Some 0"
  "t 0 \<noteq> None \<Longrightarrow> t 1 = None \<Longrightarrow> fd_alloc t = Some 1"
  "t 0 \<noteq> None \<Longrightarrow> t 1 \<noteq> None \<Longrightarrow> t 2 \<noteq> None \<Longrightarrow> t 3 = None \<Longrightarrow> fd_alloc t = Some 3"
  "t 0 \<noteq> None \<Longrightarrow> t 1 \<noteq> None \<Longrightarrow> t 2 \<noteq> None \<Longrightarrow> t 3 \<noteq> None \<Longrightarrow> t 4 = None \<Longrightarrow> fd_alloc t = Some 4"
  by (simp_all add: fd_alloc_def first_fds)

lemma std_fds_upd: "std_fds t \<Longrightarrow> fd < 2 \<Longrightarrow> std_fds (t(fd \<mapsto> x))"
  by (auto simp: std_fds_def)

lemma redir_plumbing: "std_fds t \<Longrightarrow> fd < 2 \<Longrightarrow> fd_alloc (fd_close fd t) = Some fd"
  using fd_alloc_low(1,2) [of "fd_close fd t"] by (auto simp: fd_close_def std_fds_def less_2_cases_iff)

lemma pipe_plumbing:
  assumes "std_fds t"
  obtains t1 where "fd_pipe p t = Some (t1, 3, 4)"
    "fd_close 4 (fd_close 3 (fd_dup 4 (fd_close 1 t1))) = t(1 \<mapsto> WriteEnd p)"
    "fd_close 4 (fd_close 3 (fd_dup 3 (fd_close 0 t1))) = t(0 \<mapsto> ReadEnd p)"
proof -
  have t: "t 0 \<noteq> None" "t 1 \<noteq> None" "t 2 \<noteq> None" "t 3 = None" "t 4 = None" using assms by (auto simp: std_fds_def)
  let ?t = "t(3 \<mapsto> ReadEnd p, 4 \<mapsto> WriteEnd p)"
  have "fd_pipe p t = Some (?t, 3, 4)" using fd_alloc_low(3) [of t] fd_alloc_low(4) [of "t(3 \<mapsto> ReadEnd p)"] t
    by (simp add: fd_pipe_def)
  moreover have "fd_alloc (?t(1 := None)) = Some 1" "fd_alloc (?t(0 := None)) = Some 0"
    using fd_alloc_low(1) [of "?t(0 := None)"] fd_alloc_low(2) [of "?t(1 := None)"] t by simp_all
  then have "fd_close 4 (fd_close 3 (fd_dup 4 (fd_close 1 ?t))) = t(1 \<mapsto> WriteEnd p)"
    "fd_close 4 (fd_close 3 (fd_dup 3 (fd_close 0 ?t))) = t(0 \<mapsto> ReadEnd p)"
    using t by (auto simp: fd_close_def fd_dup_def fun_eq_iff)
  ultimately show thesis by (rule that)
qed

lemma runcmd_denotes: "redir_std c \<Longrightarrow> std_fds t \<Longrightarrow> runcmd e p t c = denote e p t c"
proof (induction c arbitrary: p t)
  case (REDIR c f mode fd)
  then have "fd_alloc (fd_close fd t) = Some fd" "std_fds (t(fd \<mapsto> Opened f mode))"
    by (simp_all add: redir_plumbing std_fds_upd)
  then show ?case using REDIR by (simp add: Let_def) (simp add: fd_close_def)
next
  case (PIPE l r)
  obtain t1 where t1: "fd_pipe p t = Some (t1, 3, 4)"
    "fd_close 4 (fd_close 3 (fd_dup 4 (fd_close 1 t1))) = t(1 \<mapsto> WriteEnd p)"
    "fd_close 4 (fd_close 3 (fd_dup 3 (fd_close 0 t1))) = t(0 \<mapsto> ReadEnd p)"
    by (rule pipe_plumbing [OF PIPE.prems(2)])
  have "std_fds (t(1 \<mapsto> WriteEnd p))" "std_fds (t(0 \<mapsto> ReadEnd p))" using PIPE.prems(2) by (simp_all add: std_fds_upd)
  then show ?case using PIPE t1 by simp
qed simp_all

section \<open>Commands of a line\<close>

lemma bindp_Ok: "bindp m f = Ok x s \<Longrightarrow> (\<And>a t. m = Ok a t \<Longrightarrow> f a t = Ok x s \<Longrightarrow> thesis) \<Longrightarrow> thesis"
  by (auto simp: bindp_def split: parsed.splits)

lemma parseredirs_std:
  "parseredirs k buf es wrap s = Ok w t \<Longrightarrow> (\<And>c. redir_std c \<Longrightarrow> redir_std (wrap c)) \<Longrightarrow> redir_std c \<Longrightarrow> redir_std (w c)"
proof (induction k arbitrary: wrap s)
  case (Suc k)
  show ?case
    using Suc.prems by (auto split: prod.splits if_splits intro: Suc.IH)
qed simp

lemma parseargs_std:
  "parseargs k buf es argv wrap s = Ok d t \<Longrightarrow> (\<And>c. redir_std c \<Longrightarrow> redir_std (wrap c)) \<Longrightarrow> redir_std d"
proof (induction k arbitrary: argv wrap s)
  case (Suc k)
  show ?case
    using Suc.prems by (auto split: prod.splits if_splits elim!: bindp_Ok intro: Suc.IH parseredirs_std)
qed simp

lemma parsebacks_std: "parsebacks k buf es c s = Ok d t \<Longrightarrow> redir_std c \<Longrightarrow> redir_std d"
  by (induction k arbitrary: c s) (auto split: prod.splits if_splits)

lemma parse_std: "parse k buf es l s = Ok c t \<Longrightarrow> redir_std c"
proof (induction k arbitrary: l s c t)
  case (Suc k)
  note IH = Suc.IH
  show ?case
  proof (cases l)
    case Line
    then show ?thesis using Suc.prems
      by (auto split: prod.splits if_splits elim!: bindp_Ok dest!: IH parsebacks_std)
  next
    case Pipe
    then show ?thesis using Suc.prems by (auto split: prod.splits if_splits elim!: bindp_Ok dest!: IH)
  next
    case Exec
    then show ?thesis using Suc.prems
      by (auto split: prod.splits if_splits elim!: bindp_Ok dest: IH intro: parseargs_std parseredirs_std)
  next
    case Block
    then show ?thesis using Suc.prems
      by (auto split: prod.splits if_splits elim!: bindp_Ok dest!: IH intro: parseredirs_std)
  qed
qed simp

text \<open>
  C35. The shell's handling of descriptors implements redirections and pipes: for every line the parser accepts,
  each program of the command runs with the descriptors the command denotes, no end of a pipe is left
  open in a process that does not use it, and a call that fails stops exactly the part of the command that
  needs it.
\<close>

theorem sh_child_denotes:
  assumes "parsecmd (4 * length s + 5) (\<lambda>i. if i < length s then s ! i else 0) (length s) = Ok (c, buf) n" and "std_fds t"
  shows "sh_child e t s = denote e [] t c"
proof -
  have "redir_std c" using assms(1) by (auto simp: parsecmd_def split: prod.splits if_splits elim!: bindp_Ok dest: parse_std)
  then show ?thesis using runcmd_denotes assms by (simp add: sh_child_def)
qed

text \<open>The last redirection of a line is the outermost and is done first: the first one of the line decides.\<close>

lemma first_redirection_wins:
  assumes "can_open e p" and "can_open e (0 # p)"
  shows "denote e p t (REDIR (REDIR c f m fd) f' m' fd) = denote e (0 # 0 # p) (t(fd \<mapsto> Opened f m)) c"
  using assms by simp

section \<open>Lines\<close>

lemma gets_loop_line:
  assumes "10 \<notin> set l" and "13 \<notin> set l" and "length l < k"
  shows "gets_loop k (l @ 10 # rest) = (l @ [10], rest)"
  using assms
proof (induction l arbitrary: k)
  case Nil
  then show ?case by (cases k) auto
next
  case (Cons c l)
  then show ?case by (cases k) (auto simp: neq_commute)
qed

text \<open>Lines of less than 99 characters are executed one by one; a longer one would be cut into several.\<close>

lemma sh_main_lines:
  assumes "\<And>l. l \<in> set ls \<Longrightarrow> 10 \<notin> set l \<and> 13 \<notin> set l \<and> 0 \<notin> set l \<and> length l < 99"
  shows "sh_main (concat (map (\<lambda>l. l @ [10]) ls)) = map (\<lambda>l. sh_round (l @ [10])) ls"
  using assms
proof (induction ls)
  case Nil
  show ?case by (simp add: sh_main.simps [of "[]"] getcmd_def gets_def numeral_eq_Suc)
next
  case (Cons l ls)
  let ?rest = "concat (map (\<lambda>l. l @ [10]) ls)"
  have l: "10 \<notin> set l" "13 \<notin> set l" "0 \<notin> set l" "length l < 99" using Cons.prems by auto
  have "hd (l @ [10]) \<noteq> 0" using l(3) by (cases l) auto
  then have "getcmd (l @ 10 # ?rest) = Some (l @ [10], ?rest)" using gets_loop_line [OF l(1,2,4)] by (simp add: getcmd_def gets_def)
  then show ?case using Cons by (simp add: sh_main.simps [of "l @ 10 # ?rest"])
qed

text \<open>The line \<open>ls|wc>f\<close> when no call fails.\<close>

definition easy :: senv where
  "easy = \<lparr>can_open = (\<lambda>_. True), can_fork = (\<lambda>_. True), can_pipe = (\<lambda>_. True), can_exec = (\<lambda>_. True)\<rparr>"

definition tty :: fdt where
  "tty k = (if k < 3 then Some (Inherited k) else None)"

theorem sh_child_denotes_witness:
  "sh_child easy tty [108, 115, 124, 119, 99, 62, 102] =
     [Execs [0] (tty(1 \<mapsto> WriteEnd [])) [(0, 2)],
      Execs [0, 1] (tty(0 \<mapsto> ReadEnd [], 1 \<mapsto> Opened (6, 7) 0x201)) [(3, 5)]]"
proof -
  let ?s = "[108, 115, 124, 119, 99, 62, 102] :: u8 list"
  let ?c = "PIPE (EXEC [(0, 2)]) (REDIR (EXEC [(3, 5)]) (6, 7) 0x201 1)"
  have "case parsecmd (4 * length ?s + 5) (\<lambda>i. if i < length ?s then ?s ! i else 0) (length ?s) of
    Ok (c, buf) n \<Rightarrow> c = ?c | _ \<Rightarrow> False" by code_simp
  then obtain buf n where "parsecmd (4 * length ?s + 5) (\<lambda>i. if i < length ?s then ?s ! i else 0) (length ?s) = Ok (?c, buf) n"
    by (auto split: parsed.splits)
  moreover have "std_fds tty" by (simp add: std_fds_def tty_def)
  ultimately have "sh_child easy tty ?s = denote easy [] tty ?c" by (rule sh_child_denotes)
  then show ?thesis by (simp add: easy_def)
qed

end
