(* ===== verification/Mp.thy ===== *)
theory Mp
  imports C_String
begin

unbundle bit_operations_syntax

text \<open>
  The multiprocessor tables (\<open>kernel/mp.c\<close>, \<open>kernel/mp.h\<close>): the search for the floating pointer structure, the
  checks of the configuration table and the walk over its entries. Memory is a function from addresses to
  bytes. The walk takes fuel, and \<open>None\<close> means that it has not come to its end; a processor entry beyond the
  end of \<open>cpus\<close> is the outcome \<open>Overrun\<close>.
\<close>

definition NCPU :: nat where "NCPU = 8"

definition mp_sum :: "mem \<Rightarrow> nat \<Rightarrow> nat \<Rightarrow> u8" where
  "mp_sum m addr len = of_int (fold (\<lambda>i s. s + uint (m (addr + i))) [0..<len] 0)"

definition signature :: "string \<Rightarrow> mem" where
  "signature t i = (if i < length t then of_char (t ! i) else 0)"

text \<open>The candidates \<open>mpsearch1\<close> visits; when \<open>addr + len\<close> wraps around, \<open>p < e\<close> fails at once.\<close>

definition mp_slots :: "u32 \<Rightarrow> nat \<Rightarrow> nat list" where
  "mp_slots addr len =
     (if unat addr + len < 2 ^ 32 then map (\<lambda>i. unat addr + 16 * i) [0..<(len + 15) div 16] else [])"

definition is_mp :: "mem \<Rightarrow> nat \<Rightarrow> bool" where
  "is_mp m p \<longleftrightarrow> memcmp (ptr m p) (signature ''_MP_'') 4 = 0 \<and> mp_sum m p 16 = 0"

definition mpsearch1 :: "mem \<Rightarrow> u32 \<Rightarrow> nat \<Rightarrow> nat option" where
  "mpsearch1 m addr len = find (is_mp m) (mp_slots addr len)"

definition mpsearch :: "mem \<Rightarrow> nat option" where
  "mpsearch m =
     (let bda = 0x400; p = push_bit 4 (push_bit 8 (ucast (m (bda + 0x0F)) :: u32) OR ucast (m (bda + 0x0E))) in
      case (if p \<noteq> 0 then mpsearch1 m p 1024
            else mpsearch1 m ((push_bit 8 (ucast (m (bda + 0x14))) OR ucast (m (bda + 0x13))) * 1024 - 1024) 1024) of
        Some mp \<Rightarrow> Some mp
      | None \<Rightarrow> mpsearch1 m 0xF0000 0x10000)"

text \<open>\<open>mpconfig\<close>: the addresses of the floating pointer and of the configuration table.\<close>

definition mpconfig :: "mem \<Rightarrow> (nat \<times> nat) option" where
  "mpconfig m =
     (case mpsearch m of None \<Rightarrow> None
      | Some mp \<Rightarrow>
          if get32 m (mp + 4) = 0 then None
          else
            let conf = unat (get32 m (mp + 4)) in
            if memcmp (ptr m conf) (signature ''PCMP'') 4 \<noteq> 0 then None
            else if m (conf + 6) \<noteq> 1 \<and> m (conf + 6) \<noteq> 4 then None
            else if mp_sum m conf (unat (get16 m (conf + 4))) \<noteq> 0 then None
            else Some (mp, conf))"

record mpst =
  ismp :: bool
  ncpu :: nat
  bcpu :: nat
  cpu_id :: "nat \<Rightarrow> nat"
  ioapicid :: u8
  lapic :: u32
  imcr_masked :: bool

datatype mpres = Walked mpst | Overrun

text \<open>The cases of the loop of \<open>mpinit\<close>; the result of the last one leaves \<open>p\<close> as it was.\<close>

primrec mp_entries :: "nat \<Rightarrow> mem \<Rightarrow> nat \<Rightarrow> nat \<Rightarrow> mpst \<Rightarrow> mpres option" where
  "mp_entries 0 m p e s = None"
| "mp_entries (Suc n) m p e s =
     (if \<not> p < e then Some (Walked s)
      else if m p = 0 then
        (let s = (if ncpu s \<noteq> unat (m (p + 1)) then s\<lparr>ismp := False\<rparr> else s);
             s = (if m (p + 3) AND 2 \<noteq> 0 then s\<lparr>bcpu := ncpu s\<rparr> else s)
         in if NCPU \<le> ncpu s then Some Overrun
            else mp_entries n m (p + 20) e (s\<lparr>cpu_id := (cpu_id s)(ncpu s := ncpu s), ncpu := ncpu s + 1\<rparr>))
      else if m p = 2 then mp_entries n m (p + 8) e (s\<lparr>ioapicid := m (p + 1)\<rparr>)
      else if m p = 1 \<or> m p = 3 \<or> m p = 4 then mp_entries n m (p + 8) e s
      else mp_entries n m p e (s\<lparr>ismp := False\<rparr>))"

definition mpinit :: "nat \<Rightarrow> mem \<Rightarrow> mpst \<Rightarrow> mpres option" where
  "mpinit n m s =
     (let s = s\<lparr>bcpu := 0\<rparr> in
      case mpconfig m of None \<Rightarrow> Some (Walked s)
      | Some (mp, conf) \<Rightarrow>
          case mp_entries n m (conf + 44) (conf + unat (get16 m (conf + 4))) (s\<lparr>ismp := True, lapic := get32 m (conf + 36)\<rparr>) of
            Some (Walked s) \<Rightarrow> Some (Walked
              (if \<not> ismp s then s\<lparr>ncpu := 1, lapic := 0, ioapicid := 0\<rparr>
               else if m (mp + 12) \<noteq> 0 then s\<lparr>imcr_masked := True\<rparr> else s))
          | r \<Rightarrow> r)"

section \<open>The table as a list of entries\<close>

datatype mpentry = MpProc u8 u8 | MpIoapic u8 | MpOther u8

primrec entry_size :: "mpentry \<Rightarrow> nat" where
  "entry_size (MpProc i f) = 20"
| "entry_size (MpIoapic i) = 8"
| "entry_size (MpOther t) = 8"

primrec entry_at :: "mem \<Rightarrow> nat \<Rightarrow> mpentry \<Rightarrow> bool" where
  "entry_at m p (MpProc i f) = (m p = 0 \<and> m (p + 1) = i \<and> m (p + 3) = f)"
| "entry_at m p (MpIoapic i) = (m p = 2 \<and> m (p + 1) = i)"
| "entry_at m p (MpOther t) = (m p = t \<and> t \<in> {1, 3, 4})"

primrec entries_at :: "mem \<Rightarrow> nat \<Rightarrow> nat \<Rightarrow> mpentry list \<Rightarrow> bool" where
  "entries_at m p e [] = (\<not> p < e)"
| "entries_at m p e (x # xs) = (p < e \<and> entry_at m p x \<and> entries_at m (p + entry_size x) e xs)"

text \<open>What the entries mean, without addresses.\<close>

primrec mp_meaning :: "mpentry list \<Rightarrow> mpst \<Rightarrow> mpres" where
  "mp_meaning [] s = Walked s"
| "mp_meaning (x # xs) s =
     (case x of
        MpProc i f \<Rightarrow>
          if NCPU \<le> ncpu s then Overrun
          else mp_meaning xs (s\<lparr>ismp := ismp s \<and> ncpu s = unat i, bcpu := (if f AND 2 \<noteq> 0 then ncpu s else bcpu s),
            cpu_id := (cpu_id s)(ncpu s := ncpu s), ncpu := ncpu s + 1\<rparr>)
      | MpIoapic i \<Rightarrow> mp_meaning xs (s\<lparr>ioapicid := i\<rparr>)
      | MpOther t \<Rightarrow> mp_meaning xs s)"

lemma mp_entries_meaning:
  "entries_at m p e xs \<Longrightarrow> length xs < n \<Longrightarrow> mp_entries n m p e s = Some (mp_meaning xs s)"
proof (induction xs arbitrary: n p s)
  case Nil
  then show ?case by (cases n) auto
next
  case (Cons x xs)
  from Cons.prems obtain k where k: "n = Suc k" "length xs < k" by (cases n) auto
  note IH = Cons.IH [OF _ k(2)]
  show ?case using Cons.prems k IH
    by (cases x) (auto simp: Let_def intro!: arg_cong [where f = "mp_meaning xs"])
qed

lemma entries_length: "entries_at m p e xs \<Longrightarrow> 8 * length xs < e - p + 8"
proof (induction xs arbitrary: p)
  case (Cons x xs)
  have "8 \<le> entry_size x" by (cases x) simp_all
  moreover have "p < e" "8 * length xs < e - (p + entry_size x) + 8" using Cons by simp_all
  ultimately show ?case by (simp only: list.size) arith
qed simp

text \<open>The identifiers of the processors in a table.\<close>

definition proc_ids :: "mpentry list \<Rightarrow> nat list" where
  "proc_ids xs = concat (map (\<lambda>x. case x of MpProc i f \<Rightarrow> [unat i] | _ \<Rightarrow> []) xs)"

lemma proc_ids_Cons: "proc_ids (x # xs) = (case x of MpProc i f \<Rightarrow> unat i # proc_ids xs | _ \<Rightarrow> proc_ids xs)"
  by (simp add: proc_ids_def split: mpentry.split)

lemma meaning_in_order:
  "proc_ids xs = [ncpu s..<ncpu s + k] \<Longrightarrow> ncpu s + k \<le> NCPU \<Longrightarrow>
     \<exists>t. mp_meaning xs s = Walked t \<and> ismp t = ismp s \<and> ncpu t = ncpu s + k \<and> lapic t = lapic s \<and>
       cpu_id t = (\<lambda>i. if ncpu s \<le> i \<and> i < ncpu s + k then i else cpu_id s i)"
proof (induction xs arbitrary: s k)
  case Nil
  then have "[ncpu s..<ncpu s + k] = []" by (simp add: proc_ids_def)
  then have "k = 0" by auto
  then show ?case by auto
next
  case (Cons x xs)
  show ?case
  proof (cases x)
    case (MpProc i f)
    have "k \<noteq> 0"
    proof
      assume "k = 0"
      then show False using Cons.prems(1) MpProc by (simp add: proc_ids_Cons)
    qed
    then obtain j where j: "k = Suc j" by (cases k) auto
    let ?s = "s\<lparr>ismp := ismp s \<and> ncpu s = unat i, bcpu := (if f AND 2 \<noteq> 0 then ncpu s else bcpu s),
            cpu_id := (cpu_id s)(ncpu s := ncpu s), ncpu := ncpu s + 1\<rparr>"
    have "[ncpu s..<ncpu s + k] = ncpu s # [ncpu ?s..<ncpu ?s + j]" using j upt_conv_Cons [of "ncpu s" "ncpu s + k"] by simp
    then have u: "unat i = ncpu s" "proc_ids xs = [ncpu ?s..<ncpu ?s + j]"
      using Cons.prems(1) MpProc by (simp_all add: proc_ids_Cons)
    obtain t where t: "mp_meaning xs ?s = Walked t" "ismp t = ismp ?s" "ncpu t = ncpu ?s + j" "lapic t = lapic ?s"
      "cpu_id t = (\<lambda>i. if ncpu ?s \<le> i \<and> i < ncpu ?s + j then i else cpu_id ?s i)"
      using Cons.IH [OF u(2)] Cons.prems(2) j by auto
    have "cpu_id t = (\<lambda>i. if ncpu s \<le> i \<and> i < ncpu s + k then i else cpu_id s i)"
      using j by (auto simp: t(5) fun_eq_iff)
    then show ?thesis using t(1-4) Cons.prems(2) MpProc u(1) j by auto
  next
    case (MpIoapic i)
    then show ?thesis using Cons.IH [of "s\<lparr>ioapicid := i\<rparr>" k] Cons.prems by (simp add: proc_ids_Cons cong: if_cong)
  next
    case (MpOther t)
    then show ?thesis using Cons.IH [of s k] Cons.prems by (simp add: proc_ids_Cons)
  qed
qed

text \<open>
  When the machine has a configuration table with valid checksums whose entries are of the five known kinds
  and name the processors 0, 1, \<dots> in order, at most \<open>NCPU\<close> of them, \<open>mpinit\<close> ends, finds that many processors
  and numbers them so.
\<close>

theorem mpinit_finds_cpus:
  assumes c: "mpconfig m = Some (mp, conf)"
    and es: "entries_at m (conf + 44) (conf + unat (get16 m (conf + 4))) xs"
    and ids: "proc_ids xs = [0..<k]" "k \<le> NCPU" and s: "ncpu s = 0" and n: "8192 \<le> n"
  shows "\<exists>t. mpinit n m s = Some (Walked t) \<and> ismp t \<and> ncpu t = k \<and> lapic t = get32 m (conf + 36) \<and> (\<forall>i<k. cpu_id t i = i)"
proof -
  let ?s = "s\<lparr>bcpu := 0, ismp := True, lapic := get32 m (conf + 36)\<rparr>"
  have "unat (get16 m (conf + 4)) < 65536" using unat_lt2p [of "get16 m (conf + 4)"] by simp
  then have "length xs < n" using entries_length [OF es] n by simp
  from mp_entries_meaning [OF es this, of ?s]
  have e: "mp_entries n m (conf + 44) (conf + unat (get16 m (conf + 4))) ?s = Some (mp_meaning xs ?s)" .
  obtain t where "mp_meaning xs ?s = Walked t" "ismp t" "ncpu t = k" "lapic t = get32 m (conf + 36)" "\<forall>i<k. cpu_id t i = i"
    using meaning_in_order [of xs ?s k] ids s by auto
  then show ?thesis using e c by (simp add: mpinit_def)
qed

section \<open>Unknown entries\<close>

text \<open>The entries \<open>xs\<close> lie from \<open>p\<close> to \<open>q\<close>.\<close>

primrec entries_to :: "mem \<Rightarrow> nat \<Rightarrow> nat \<Rightarrow> mpentry list \<Rightarrow> nat \<Rightarrow> bool" where
  "entries_to m p e [] q = (p = q)"
| "entries_to m p e (x # xs) q = (p < e \<and> entry_at m p x \<and> entries_to m (p + entry_size x) e xs q)"

lemma unknown_forever:
  assumes "p < e" and "4 < m p"
  shows "mp_entries n m p e s = None"
proof -
  have "m p \<noteq> 0" "m p \<noteq> 1" "m p \<noteq> 2" "m p \<noteq> 3" "m p \<noteq> 4" using assms(2) by auto
  then show ?thesis using assms(1) by (induction n arbitrary: s) auto
qed

lemma entries_then_unknown:
  assumes "q < e" and "4 < m q"
  shows "entries_to m p e xs q \<Longrightarrow> mp_meaning xs s \<noteq> Overrun \<Longrightarrow> mp_entries n m p e s = None"
proof (induction xs arbitrary: n p s)
  case Nil
  then show ?case using unknown_forever [of q e m] assms by simp
next
  case (Cons x xs)
  show ?case
  proof (cases n)
    case (Suc k)
    then show ?thesis using Cons.prems Cons.IH [of _ _ k] by (cases x) (auto simp: Let_def split: if_splits)
  qed simp
qed

text \<open>
  C36. \<open>mpinit\<close> never ends when the table holds an entry of another kind: the pointer is not moved past it.
\<close>

theorem mpinit_hangs:
  assumes "mpconfig m = Some (mp, conf)" and "e = conf + unat (get16 m (conf + 4))"
    and "entries_to m (conf + 44) e xs q" and "q < e" and "4 < m q" and "length (proc_ids xs) + ncpu s \<le> NCPU"
  shows "mpinit n m s = None"
proof -
  have "mp_meaning xs s \<noteq> Overrun" if "length (proc_ids xs) + ncpu s \<le> NCPU" for s
    using that by (induction xs arbitrary: s) (auto simp: proc_ids_Cons split: mpentry.split)
  then show ?thesis using assms entries_then_unknown [of q e m "conf + 44" xs] by (simp add: mpinit_def)
qed

section \<open>A machine with tables\<close>

text \<open>The floating pointer in the extended BIOS data area, a table of the given length and checksum after it.\<close>

definition mp_tables :: "u8 \<Rightarrow> u8 \<Rightarrow> mem" where
  "mp_tables len check = (\<lambda>_. 0)(0x40E := 0xC0, 0x40F := 0x9F,
     0x9FC00 := 0x5F, 0x9FC01 := 0x4D, 0x9FC02 := 0x50, 0x9FC03 := 0x5F, 0x9FC04 := 0x10, 0x9FC05 := 0xFC, 0x9FC06 := 0x09,
     0x9FC08 := 1, 0x9FC09 := 4, 0x9FC0A := 0x8B,
     0x9FC10 := 0x50, 0x9FC11 := 0x43, 0x9FC12 := 0x4D, 0x9FC13 := 0x50, 0x9FC14 := len, 0x9FC16 := 4, 0x9FC17 := check,
     0x9FC36 := 0xE0, 0x9FC37 := 0xFE)"

definition two_cpus :: mem where
  "two_cpus = (mp_tables 84 0x8d)(0x9FC3E := 4, 0x9FC3F := 3, 0x9FC51 := 1, 0x9FC52 := 4, 0x9FC53 := 1)"

definition strange_entry :: mem where
  "strange_entry = (mp_tables 52 0xb3)(0x9FC3C := 7)"

lemma memcmp_4: "memcmp p (signature [a, b, c, d]) 4 = 0 \<longleftrightarrow> p 0 = of_char a \<and> p 1 = of_char b \<and> p 2 = of_char c \<and> p 3 = of_char d"
  by (simp add: numeral_eq_Suc ptr_def signature_def flip: word_uint_eq_iff)

lemma mpsearch_tables:
  assumes "\<And>a. a < 0x9FC10 \<Longrightarrow> m a = mp_tables len check a"
  shows "mpsearch m = Some 0x9FC00"
proof -
  have "mp_slots 0x9FC00 1024 = 0x9FC00 # map (\<lambda>i. 0x9FC00 + 16 * i) [1..<64]"
    by (simp add: mp_slots_def upt_conv_Cons)
  moreover have "is_mp m 0x9FC00"
    by (simp add: is_mp_def memcmp_4 ptr_def mp_sum_def assms mp_tables_def upt_conv_Cons)
  ultimately show ?thesis by (simp add: mpsearch_def mpsearch1_def assms mp_tables_def)
qed

lemma two_cpus_config: "mpconfig two_cpus = Some (0x9FC00, 0x9FC10)"
proof -
  have m: "mpsearch two_cpus = Some 0x9FC00" by (rule mpsearch_tables [where len = 84]) (simp add: two_cpus_def)
  have "mp_sum two_cpus 0x9FC10 84 = 0" by (simp add: mp_sum_def two_cpus_def mp_tables_def upt_conv_Cons)
  then show ?thesis using m
    by (simp add: mpconfig_def memcmp_4 ptr_def) (simp add: two_cpus_def mp_tables_def get32_def get16_def)
qed

lemma strange_entry_config: "mpconfig strange_entry = Some (0x9FC00, 0x9FC10)"
proof -
  have m: "mpsearch strange_entry = Some 0x9FC00" by (rule mpsearch_tables [where len = 52]) (simp add: strange_entry_def)
  have "mp_sum strange_entry 0x9FC10 52 = 0" by (simp add: mp_sum_def strange_entry_def mp_tables_def upt_conv_Cons)
  then show ?thesis using m
    by (simp add: mpconfig_def memcmp_4 ptr_def) (simp add: strange_entry_def mp_tables_def get32_def get16_def)
qed

definition mp0 :: mpst where
  "mp0 = \<lparr>ismp = False, ncpu = 0, bcpu = 0, cpu_id = (\<lambda>_. 9), ioapicid = 0, lapic = 0, imcr_masked = False\<rparr>"

theorem mpinit_finds_cpus_witness:
  "\<exists>t. mpinit 8192 two_cpus mp0 = Some (Walked t) \<and> ncpu t = 2 \<and> lapic t = 0xFEE00000 \<and> cpu_id t 1 = 1"
proof -
  have "entries_at two_cpus (0x9FC10 + 44) (0x9FC10 + unat (get16 two_cpus (0x9FC10 + 4))) [MpProc 0 3, MpProc 1 1]"
    by (simp add: two_cpus_def mp_tables_def get16_def)
  moreover have "get32 two_cpus (0x9FC10 + 36) = 0xFEE00000" by (simp add: two_cpus_def mp_tables_def get32_def)
  ultimately show ?thesis using mpinit_finds_cpus [OF two_cpus_config, of "[MpProc 0 3, MpProc 1 1]" 2 mp0 8192]
    by (auto simp: proc_ids_def mp0_def NCPU_def upt_conv_Cons)
qed

theorem mpinit_hangs_witness: "mpinit 1000 strange_entry mp0 = None"
  by (rule mpinit_hangs [OF strange_entry_config refl, where xs = "[]" and q = "0x9FC10 + 44"])
    (simp_all add: proc_ids_def mp0_def NCPU_def strange_entry_def mp_tables_def get16_def)

end
