(* ===== verification/Devices.thy ===== *)
theory Devices
  imports Boot Mp
begin

unbundle bit_operations_syntax

text \<open>
  Interrupt controllers, timer, serial port and the start of the other processors (\<open>kernel/picirq.c\<close>,
  \<open>kernel/ioapic.c\<close>, \<open>kernel/lapic.c\<close>, \<open>kernel/timer.c\<close>, \<open>kernel/uart.c\<close>, \<open>bootothers\<close> of \<open>kernel/main.c\<close>). What a
  driver does to its device is the list of its writes, latest first for the ports and the local
  APIC, and the contents of the registers behind the window of the I/O APIC. Waiting is left out.
\<close>

record devs = mpst +
  irqmask :: u16
  uart :: bool
  ports :: "(nat \<times> u8) list"
  ioregs :: "nat \<Rightarrow> u32"
  lapicws :: "(nat \<times> u32) list"

definition outb :: "nat \<Rightarrow> u8 \<Rightarrow> 'z devs_scheme \<Rightarrow> 'z devs_scheme" where
  "outb port v s = s\<lparr>ports := (port, v) # ports s\<rparr>"

definition irq_base :: nat where "irq_base = 32"

section \<open>picirq.c\<close>

definition picsetmask :: "u16 \<Rightarrow> 'z devs_scheme \<Rightarrow> 'z devs_scheme" where
  "picsetmask m s = outb 0xA1 (ucast (drop_bit 8 m)) (outb 0x21 (ucast m) (s\<lparr>irqmask := m\<rparr>))"

definition picenable :: "nat \<Rightarrow> 'z devs_scheme \<Rightarrow> 'z devs_scheme" where
  "picenable irq s = picsetmask (irqmask s AND NOT (push_bit irq 1)) s"

definition picinit :: "'z devs_scheme \<Rightarrow> 'z devs_scheme" where
  "picinit s =
     (let s = fold (\<lambda>(p, v). outb p v)
        [(0x21, 0xFF), (0xA1, 0xFF), (0x20, 0x11), (0x21, of_nat irq_base), (0x21, 4), (0x21, 3),
         (0xA0, 0x11), (0xA1, of_nat irq_base + 8), (0xA1, 2), (0xA1, 3),
         (0x20, 0x68), (0x20, 0x0A), (0xA0, 0x68), (0xA0, 0x0A)] s
      in if irqmask s \<noteq> 0xFFFF then picsetmask (irqmask s) s else s)"

section \<open>ioapic.c\<close>

definition REG_TABLE :: nat where "REG_TABLE = 0x10"
definition INT_DISABLED :: u32 where "INT_DISABLED = 0x10000"

definition ioapicread :: "nat \<Rightarrow> 'z devs_scheme \<Rightarrow> u32" where
  "ioapicread reg s = ioregs s reg"

definition ioapicwrite :: "nat \<Rightarrow> u32 \<Rightarrow> 'z devs_scheme \<Rightarrow> 'z devs_scheme" where
  "ioapicwrite reg data s = s\<lparr>ioregs := (ioregs s)(reg := data)\<rparr>"

definition maxintr :: "'z devs_scheme \<Rightarrow> nat" where
  "maxintr s = unat (drop_bit 16 (ioapicread 1 s) AND 0xFF)"

definition ioapicinit :: "'z devs_scheme \<Rightarrow> 'z devs_scheme" where
  "ioapicinit s =
     (if \<not> ismp s then s
      else fold (\<lambda>i s. ioapicwrite (REG_TABLE + 2 * i + 1) 0
             (ioapicwrite (REG_TABLE + 2 * i) (INT_DISABLED OR of_nat (irq_base + i)) s)) [0..<maxintr s + 1] s)"

definition ioapicenable :: "nat \<Rightarrow> nat \<Rightarrow> 'z devs_scheme \<Rightarrow> 'z devs_scheme" where
  "ioapicenable irq cpunum s =
     (if \<not> ismp s then s
      else ioapicwrite (REG_TABLE + 2 * irq + 1) (push_bit 24 (of_nat cpunum))
             (ioapicwrite (REG_TABLE + 2 * irq) (of_nat (irq_base + irq)) s))"

section \<open>uart.c and timer.c\<close>

definition uartputc :: "u8 \<Rightarrow> 'z devs_scheme \<Rightarrow> 'z devs_scheme" where
  "uartputc c s = (if \<not> uart s then s else outb 0x3F8 c s)"

text \<open>\<open>found\<close> tells whether the status register does not read 0xFF.\<close>

definition uartinit :: "bool \<Rightarrow> 'z devs_scheme \<Rightarrow> 'z devs_scheme" where
  "uartinit found s =
     (let s = fold (\<lambda>(p, v). outb p v)
        [(0x3FA, 0), (0x3FB, 0x80), (0x3F8, 12), (0x3F9, 0), (0x3FB, 3), (0x3FC, 0), (0x3F9, 1)] s
      in if \<not> found then s
         else fold uartputc [120, 118, 54, 46, 46, 46, 10] (ioapicenable 4 0 (picenable 4 (s\<lparr>uart := True\<rparr>))))"

text \<open>\<open>uartgetc\<close> for the contents of the status and the data register.\<close>

definition uartgetc :: "u8 \<Rightarrow> u8 \<Rightarrow> 'z devs_scheme \<Rightarrow> int" where
  "uartgetc st data s = (if \<not> uart s then - 1 else if st AND 1 = 0 then - 1 else uint data)"

text \<open>\<open>uartintr\<close>, when the two registers read as \<open>regs\<close> one after the other and then show no more input.\<close>

definition uartintr :: "(u8 \<times> u8) list \<Rightarrow> 'd devs_scheme \<Rightarrow> ('z console_scheme, unit) km" where
  "uartintr regs s = consoleintr (map (\<lambda>(st, data). uartgetc st data s) regs @ [- 1])"

definition TIMER_DIV :: "nat \<Rightarrow> nat" where
  "TIMER_DIV x = (1193182 + x div 2) div x"

definition timerinit :: "'z devs_scheme \<Rightarrow> 'z devs_scheme" where
  "timerinit s =
     picenable 0 (outb 0x40 (of_nat (TIMER_DIV 100 div 256)) (outb 0x40 (of_nat (TIMER_DIV 100 mod 256))
       (outb 0x43 (0x04 OR 0x30) s)))"

section \<open>lapic.c\<close>

text \<open>Registers are named by their index into the array \<open>lapic\<close>.\<close>

definition lapicw :: "nat \<Rightarrow> u32 \<Rightarrow> 'z devs_scheme \<Rightarrow> 'z devs_scheme" where
  "lapicw index v s = s\<lparr>lapicws := (index, v) # lapicws s\<rparr>"

definition lapicinit :: "u32 \<Rightarrow> 'z devs_scheme \<Rightarrow> 'z devs_scheme" where
  "lapicinit version s =
     (if lapic s = 0 then s
      else fold (\<lambda>(i, v). lapicw i v)
        ([(0xF0 div 4, 0x100 OR (32 + 31)), (0x3E0 div 4, 0xB), (0x320 div 4, 0x20000 OR (32 + 0)), (0x380 div 4, 10000000),
          (0x350 div 4, 0x10000), (0x360 div 4, 0x10000)] @
         (if 4 \<le> drop_bit 16 version AND 0xFF then [(0x340 div 4, 0x10000)] else []) @
         [(0x370 div 4, 32 + 19), (0x280 div 4, 0), (0x280 div 4, 0), (0xB0 div 4, 0), (0x310 div 4, 0),
          (0x300 div 4, 0x80000 OR 0x500 OR 0x8000), (0x80 div 4, 0)]) s)"

definition cpunum :: "u32 \<Rightarrow> 'z devs_scheme \<Rightarrow> nat" where
  "cpunum idreg s = (if lapic s \<noteq> 0 then unat (drop_bit 24 idreg) else 0)"

definition lapiceoi :: "'z devs_scheme \<Rightarrow> 'z devs_scheme" where
  "lapiceoi s = (if lapic s \<noteq> 0 then lapicw (0xB0 div 4) 0 s else s)"

text \<open>\<open>lapicstartap\<close>; the second component is the memory with the warm reset vector.\<close>

definition lapicstartap :: "u8 \<Rightarrow> u32 \<Rightarrow> mem \<Rightarrow> 'z devs_scheme \<Rightarrow> 'z devs_scheme \<times> mem" where
  "lapicstartap apicid addr m s =
     (let wrv = 0x467; m = put16 (put16 m wrv 0) (wrv + 2) (ucast (drop_bit 4 addr));
          s = outb 0x71 0x0A (outb 0x70 0xF s);
          dest = push_bit 24 (ucast apicid); sipi = [(0x310 div 4, dest), (0x300 div 4, 0x600 OR drop_bit 12 addr)]
      in (fold (\<lambda>(i, v). lapicw i v)
            ([(0x310 div 4, dest), (0x300 div 4, 0x500 OR 0x8000 OR 0x4000), (0x300 div 4, 0x500 OR 0x8000)] @ sipi @ sipi) s, m))"

section \<open>The devices during the start of the kernel\<close>

text \<open>The calls of \<open>mainc\<close>, of \<open>consoleinit\<close> and of \<open>ideinit\<close> that concern the interrupt controllers, in their order.\<close>

definition init_devices :: "bool \<Rightarrow> 'z devs_scheme \<Rightarrow> 'z devs_scheme" where
  "init_devices com1 s =
     (let s = ioapicinit (picinit s);
          s = ioapicenable 1 0 (picenable 1 s);
          s = uartinit com1 s;
          s = ioapicenable 14 (ncpu s - 1) (picenable 14 s)
      in if \<not> ismp s then timerinit s else s)"

section \<open>The other processors\<close>

definition KSTACKSIZE :: u32 where "KSTACKSIZE = 4096"

text \<open>
  The loop of \<open>bootothers\<close> over the processors to be started: the result tells for each the stack it finds
  below its code when it is started. Waiting for it to come up is left out.
\<close>

primrec start_cpus :: "u32 \<Rightarrow> nat list \<Rightarrow> 'd devs_scheme \<Rightarrow> ('z kern_scheme, (nat \<times> u32) list \<times> 'd devs_scheme) km" where
  "start_cpus mpmain [] d = ret ([], d)"
| "start_cpus mpmain (c # cs) d =
     bindk kalloc (\<lambda>stack.
     bindk (modk (\<lambda>s. s\<lparr>phys := put32 (phys s) (0x7000 - 4) (stack + KSTACKSIZE)\<rparr>)) (\<lambda>_.
     bindk (modk (\<lambda>s. s\<lparr>phys := put32 (phys s) (0x7000 - 8) mpmain\<rparr>)) (\<lambda>_.
     bindk (getk (\<lambda>s. lapicstartap (of_nat (cpu_id d c)) 0x7000 (phys s) d)) (\<lambda>(d1, m).
     bindk (modk (\<lambda>s. s\<lparr>phys := m\<rparr>)) (\<lambda>_.
     bindk (getk (\<lambda>s. get32 (phys s) (0x7000 - 4))) (\<lambda>sp.
     bindk (start_cpus mpmain cs d1) (\<lambda>(l, d2).
     ret ((c, sp) # l, d2))))))))"

definition bootothers :: "u8 list \<Rightarrow> u32 \<Rightarrow> u32 \<Rightarrow> 'd devs_scheme \<Rightarrow> ('z kern_scheme, (nat \<times> u32) list \<times> 'd devs_scheme) km" where
  "bootothers code mpmain idreg d =
     bindk (modk (\<lambda>s. s\<lparr>phys := (\<lambda>a. if 0x7000 \<le> a \<and> a < 0x7000 + length code then code ! (a - 0x7000) else phys s a)\<rparr>)) (\<lambda>_.
     start_cpus mpmain (filter (\<lambda>c. c \<noteq> cpunum idreg d) [0..<ncpu d]) d)"

lemma free_pages_low_write:
  assumes "free_pages s ps" and "\<And>a. unat (kend s) \<le> a \<Longrightarrow> m a = phys s a"
  shows "free_pages (s\<lparr>phys := m\<rparr>) ps"
proof -
  have "chain m (freelist s) ps = chain (phys s) (freelist s) ps"
  proof (rule chain_cong)
    fix v assume "v \<in> set ps"
    then have "unat (kend s) \<le> unat v" using assms(1) by (auto simp: free_pages_def page_def word_le_nat_alt)
    then show "get32 m (unat v) = get32 (phys s) (unat v)" by (intro get32_cong assms(2)) simp
  qed
  then show ?thesis using assms(1) by (simp add: free_pages_def page_def)
qed

lemma free_pages_take:
  "free_pages s (v # vs) \<Longrightarrow> freelist s = v \<and> v \<noteq> 0 \<and> free_pages (s\<lparr>freelist := get32 (phys s) (unat v)\<rparr>) vs"
  by (simp add: free_pages_def page_def)

lemma start_cpus_stacks:
  assumes "nolocks s" and "free_pages s ps" and "length cs \<le> length ps" and "0x7000 \<le> unat (kend s)"
  shows "returns (start_cpus mpmain cs d s) (\<lambda>(l, _) t. l = zip cs (map (\<lambda>v. v + KSTACKSIZE) ps))"
  using assms
proof (induction cs arbitrary: s ps d)
  case Nil
  then show ?case by (simp add: returns_def exec)
next
  case (Cons c cs)
  then obtain v vs where ps: "ps = v # vs" by (cases ps) auto
  have fp: "freelist s = v" "v \<noteq> 0" "free_pages (s\<lparr>freelist := get32 (phys s) (unat v)\<rparr>) vs"
    using free_pages_take Cons.prems(2) ps by blast+
  let ?m = "put32 (put32 (phys s) (0x7000 - 4) (v + KSTACKSIZE)) (0x7000 - 8) mpmain"
  obtain d1 m where l: "lapicstartap (of_nat (cpu_id d c)) 0x7000 ?m d = (d1, m)" by fastforce
  then have m: "m = put16 (put16 ?m 0x467 0) (0x467 + 2) 0x700" by (simp add: lapicstartap_def Let_def)
  let ?t = "s\<lparr>freelist := get32 (phys s) (unat v), phys := m\<rparr>"
  have "m a = phys s a" if "0x7000 \<le> a" for a using that by (simp add: m put16_def put32_def)
  then have "free_pages ?t vs" using free_pages_low_write [OF fp(3), of m] Cons.prems(4) by simp
  then have "returns (start_cpus mpmain cs d1 ?t) (\<lambda>(l, _) t. l = zip cs (map (\<lambda>v. v + KSTACKSIZE) vs))"
    using Cons.prems ps by (intro Cons.IH) simp_all
  moreover have "get32 m 28668 = v + KSTACKSIZE" unfolding m by simp
  ultimately show ?case using fp(1,2) Cons.prems(1) l ps
    by (auto simp: exec kalloc_eq returns_def split: prod.splits)
qed

text \<open>
  With enough free pages \<open>bootothers\<close> starts every processor but the one it runs on, in the order of the table,
  each with a stack page of its own.
\<close>

theorem bootothers_stacks:
  assumes "nolocks s" and "free_pages s ps" and "0x7000 + length code \<le> unat (kend s)"
    and "cs = filter (\<lambda>c. c \<noteq> cpunum idreg d) [0..<ncpu d]" and "length cs \<le> length ps"
  shows "returns (bootothers code mpmain idreg d s)
    (\<lambda>(l, _) t. l = zip cs (map (\<lambda>v. v + KSTACKSIZE) ps) \<and> map fst l = cs \<and> distinct (map snd l))"
proof -
  let ?s = "s\<lparr>phys := (\<lambda>a. if 0x7000 \<le> a \<and> a < 0x7000 + length code then code ! (a - 0x7000) else phys s a)\<rparr>"
  have "free_pages ?s ps" by (rule free_pages_low_write [OF assms(2)]) (use assms(3) in auto)
  then have "returns (start_cpus mpmain cs d ?s) (\<lambda>(l, _) t. l = zip cs (map (\<lambda>v. v + KSTACKSIZE) ps))"
    using assms by (intro start_cpus_stacks) simp_all
  moreover have "distinct (map snd (zip cs (map (\<lambda>v. v + KSTACKSIZE) ps)))"
    using assms(2) by (simp add: free_pages_def map_snd_zip_take distinct_map inj_on_def flip: take_map)
  ultimately show ?thesis using assms(4,5) by (auto simp: bootothers_def exec returns_def map_fst_zip_take split: prod.splits)
qed

text \<open>The byte last written to a port.\<close>

definition last_out :: "nat \<Rightarrow> 'z devs_scheme \<Rightarrow> u8 option" where
  "last_out port s = map_of (ports s) port"

definition irq_masked :: "nat \<Rightarrow> 'z devs_scheme \<Rightarrow> bool" where
  "irq_masked irq s = (if irq < 8 then bit (the (last_out 0x21 s)) irq else bit (the (last_out 0xA1 s)) (irq - 8))"

text \<open>The controllers hold the mask the driver remembers.\<close>

definition pic_ok :: "'z devs_scheme \<Rightarrow> bool" where
  "pic_ok s \<longleftrightarrow> last_out 0x21 s = Some (ucast (irqmask s)) \<and> last_out 0xA1 s = Some (ucast (drop_bit 8 (irqmask s)))"

lemma pic_ok_masked: "pic_ok s \<Longrightarrow> irq < 16 \<Longrightarrow> irq_masked irq s = bit (irqmask s) irq"
  by (auto simp: pic_ok_def irq_masked_def bit_simps)

lemma devs_frame [simp]:
  "irqmask (outb p v s) = irqmask s" "ismp (outb p v s) = ismp s" "ncpu (outb p v s) = ncpu s" "ioregs (outb p v s) = ioregs s"
  "irqmask (ioapicenable i c s) = irqmask s" "ismp (ioapicenable i c s) = ismp s" "ncpu (ioapicenable i c s) = ncpu s"
  "irqmask (picenable i s) = irqmask s AND NOT (push_bit i 1)" "ismp (picenable i s) = ismp s" "ncpu (picenable i s) = ncpu s"
  "ioregs (picenable i s) = ioregs s" "ioregs (picinit s) = ioregs s" "irqmask (picinit s) = irqmask s"
  "ismp (picinit s) = ismp s" "ncpu (picinit s) = ncpu s"
  by (simp_all add: outb_def ioapicenable_def ioapicwrite_def picenable_def picsetmask_def picinit_def Let_def)

lemma pic_ok_step [simp]:
  "pic_ok (picenable i s)"
  "irqmask s \<noteq> 0xFFFF \<Longrightarrow> pic_ok (picinit s)"
  "p \<noteq> 0x21 \<Longrightarrow> p \<noteq> 0xA1 \<Longrightarrow> pic_ok (outb p v s) = pic_ok s"
  "pic_ok (ioapicenable i c s) = pic_ok s"
  by (simp_all add: pic_ok_def last_out_def outb_def picenable_def picsetmask_def picinit_def Let_def ioapicenable_def ioapicwrite_def)

lemma fold_frame: "(\<And>x s. x \<in> set xs \<Longrightarrow> g (f x s) = g s) \<Longrightarrow> g (fold f xs s) = g s"
  by (induction xs arbitrary: s) auto

lemma ioapicinit_frame [simp]:
  "irqmask (ioapicinit s) = irqmask s" "ismp (ioapicinit s) = ismp s" "ncpu (ioapicinit s) = ncpu s" "pic_ok (ioapicinit s) = pic_ok s"
  unfolding ioapicinit_def
  by (simp_all add: fold_frame [where g = irqmask] fold_frame [where g = ismp] fold_frame [where g = ncpu]
      fold_frame [where g = ports] ioapicwrite_def pic_ok_def last_out_def del: upt_Suc)

lemma uartputc_frame [simp]:
  "irqmask (uartputc c s) = irqmask s" "ismp (uartputc c s) = ismp s" "ncpu (uartputc c s) = ncpu s" "pic_ok (uartputc c s) = pic_ok s"
  "ioregs (uartputc c s) = ioregs s"
  by (simp_all add: uartputc_def)

lemma uartinit_frame [simp]:
  "irqmask (uartinit found s) = (if found then irqmask s AND NOT (push_bit 4 1) else irqmask s)"
  "ismp (uartinit found s) = ismp s" "ncpu (uartinit found s) = ncpu s" "pic_ok s \<Longrightarrow> pic_ok (uartinit found s)"
  by (simp_all add: uartinit_def Let_def)

text \<open>
  C40. After the start of the kernel the two interrupt controllers let through exactly the lines of the devices
  that were set up: the keyboard (1), the line of the second controller (2), the disk (14), the serial port (4) if
  there is one, and the timer (0) on a machine with one processor.
\<close>

theorem init_devices_pic:
  assumes "irqmask s = 0xFFFB" and "irq < 16"
  shows "irq_masked irq (init_devices com1 s) \<longleftrightarrow> \<not> (irq \<in> {1, 2, 14} \<or> com1 \<and> irq = 4 \<or> \<not> ismp s \<and> irq = 0)"
proof -
  let ?t = "init_devices com1 s"
  have "pic_ok ?t" using assms(1) by (simp add: init_devices_def Let_def timerinit_def)
  then have "irq_masked irq ?t = bit (irqmask ?t) irq" using assms(2) by (rule pic_ok_masked)
  moreover have "irqmask ?t = (if ismp s then if com1 then 0xBFE9 else 0xBFF9 else if com1 then 0xBFE8 else 0xBFF8)"
    using assms(1) by (simp add: init_devices_def Let_def timerinit_def)
  moreover have "irq \<in> {0, 1, 2, 3, 4, 5, 6, 7, 8, 9, 10, 11, 12, 13, 14, 15}"
    using assms(2) by (simp add: eval_nat_numeral less_Suc_eq)
  ultimately show ?thesis by (auto simp: bit_numeral_rec)
qed

theorem init_devices_pic_witness:
  "irq_masked 4 (init_devices False \<lparr>ismp = False, ncpu = 1, bcpu = 0, cpu_id = (\<lambda>_. 0), ioapicid = 0, lapic = 0,
     imcr_masked = False, irqmask = 0xFFFB, uart = False, ports = [], ioregs = (\<lambda>_. 0), lapicws = []\<rparr>)"
  by (subst init_devices_pic) simp_all

text \<open>The entry of an interrupt in the table of the I/O APIC.\<close>

definition io_entry :: "nat \<Rightarrow> 'z devs_scheme \<Rightarrow> u32 \<times> u32" where
  "io_entry irq s = (ioregs s (REG_TABLE + 2 * irq), ioregs s (REG_TABLE + 2 * irq + 1))"

lemma io_entry_write:
  "io_entry i (ioapicwrite (REG_TABLE + 2 * j + 1) a (ioapicwrite (REG_TABLE + 2 * j) b s)) = (if i = j then (b, a) else io_entry i s)"
proof -
  have "REG_TABLE + 2 * i \<noteq> REG_TABLE + 2 * j + 1" "REG_TABLE + 2 * i + 1 \<noteq> REG_TABLE + 2 * j" by presburger+
  then show ?thesis by (auto simp: io_entry_def ioapicwrite_def)
qed

lemma io_entry_enable:
  "io_entry i (ioapicenable irq c s) =
     (if ismp s \<and> i = irq then (of_nat (irq_base + irq), push_bit 24 (of_nat c)) else io_entry i s)"
  unfolding ioapicenable_def by (simp only: io_entry_write split: if_split) simp

lemma io_entry_disable:
  "io_entry i (fold (\<lambda>i s. ioapicwrite (REG_TABLE + 2 * i + 1) 0
     (ioapicwrite (REG_TABLE + 2 * i) (INT_DISABLED OR of_nat (irq_base + i)) s)) is s) =
   (if i \<in> set is then (INT_DISABLED OR of_nat (irq_base + i), 0) else io_entry i s)"
proof (induction "is" arbitrary: s)
  case (Cons j js)
  show ?case unfolding fold_simps o_apply Cons.IH io_entry_write by simp
qed simp

lemma io_entry_init:
  "ismp s \<Longrightarrow> i \<le> maxintr s \<Longrightarrow> io_entry i (ioapicinit s) = (INT_DISABLED OR of_nat (irq_base + i), 0)"
  unfolding ioapicinit_def using io_entry_disable [of i "[0..<maxintr s + 1]" s] by simp

lemma io_entry_other [simp]: "io_entry i (picenable j s) = io_entry i s" "io_entry i (uartputc c s) = io_entry i s"
  "io_entry i (outb p v s) = io_entry i s" "io_entry i (s\<lparr>uart := u\<rparr>) = io_entry i s"
  by (simp_all add: io_entry_def)

lemma maxintr_picinit [simp]: "maxintr (picinit s) = maxintr s"
  by (simp add: maxintr_def ioapicread_def)

text \<open>
  On a machine with several processors the I/O APIC sends the keyboard and, if there is one, the serial port to
  processor 0 and the disk to the last processor, with the interrupt numbers \<open>trap\<close> expects; every other line is
  disabled.
\<close>

theorem init_devices_ioapic:
  assumes "ismp s" and "irq \<le> maxintr s"
  shows "io_entry irq (init_devices com1 s) =
    (if irq = 14 then (32 + 14, push_bit 24 (of_nat (ncpu s - 1)))
     else if irq = 1 \<or> com1 \<and> irq = 4 then (32 + of_nat irq, 0)
     else (INT_DISABLED OR (32 + of_nat irq), 0))"
  using assms io_entry_init [of "picinit s" irq]
  by (simp add: init_devices_def uartinit_def Let_def io_entry_enable irq_base_def)

theorem init_devices_ioapic_witness:
  "io_entry 14 (init_devices True \<lparr>ismp = True, ncpu = 2, bcpu = 0, cpu_id = id, ioapicid = 0, lapic = 0xFEE00000,
     imcr_masked = False, irqmask = 0xFFFB, uart = False, ports = [], ioregs = (\<lambda>r. if r = 1 then 0x170000 else 0), lapicws = []\<rparr>) =
   (46, 0x1000000)"
  by (subst init_devices_ioapic) (simp_all add: maxintr_def ioapicread_def)

theorem bootothers_stacks_witness:
  "returns (bootothers [0xFA, 0xF4] 0x100100 0
     \<lparr>ismp = True, ncpu = 2, bcpu = 0, cpu_id = id, ioapicid = 0, lapic = 0xFEE00000, imcr_masked = False,
      irqmask = 0xFFFB, uart = False, ports = [], ioregs = (\<lambda>_. 0), lapicws = []\<rparr>
     ((booted (\<lambda>_ _ _. 0))\<lparr>freelist := 0x200000\<rparr>)) (\<lambda>(l, _) t. l = [(1, 0x201000)])"
proof -
  let ?s = "(booted (\<lambda>_ _ _. 0))\<lparr>freelist := 0x200000\<rparr>"
  let ?d = "\<lparr>ismp = True, ncpu = 2, bcpu = 0, cpu_id = id, ioapicid = 0, lapic = 0xFEE00000, imcr_masked = False,
      irqmask = 0xFFFB, uart = False, ports = [], ioregs = (\<lambda>_. 0), lapicws = []\<rparr>"
  have f: "free_pages ?s [0x200000]" by (simp add: free_pages_def page_def PGSIZE_def PHYSTOP_def get32_def)
  have n: "[1] = filter (\<lambda>c. c \<noteq> cpunum 0 ?d) [0..<ncpu ?d]" by (simp add: cpunum_def upt_conv_Cons)
  show ?thesis
    by (rule returns_mono [OF bootothers_stacks [OF _ f _ n]]) (auto simp: KSTACKSIZE_def)
qed

end
