(* ===== verification/Spec2Isabelle.thy ===== *)
theory Spec2Isabelle
  imports Content_Props Path_Props Block_Props Inode_Props Memory_Props File_Props Proc_Props Page_Tables Umalloc Grep Shell
    Mkfs Web_Props Mysh Paradox Random_Streams Stack_Top
    Keyboard User_Text Boot_Loader Round_Robin Shell_Run Devices
begin

text \<open>
  A verification development for a collection of operating system projects built on xv6
  (under \<open>src/\<close>). The collection holds four variants of one kernel. The development follows the two
  in which the projects' own work was done: the file system, block layer, console and user programs
  of \<open>triple file system/\<close>, where files can be stored in three copies, and the processes, scheduler,
  virtual memory, program loading and traps of \<open>simple shell/xv6/\<close>, where the scheduler is a lottery
  with reservations and a spot market. Both parts run on the same interfaces (locks, \<open>sleep\<close> and
  \<open>wakeup\<close>, the page allocator), which is how the model composes them.

  \<^bold>\<open>The form of the model.\<close> A kernel routine is a function from the kernel state to an outcome
  (\<open>Kernel_Prelude\<close>): it returns (\<open>Done\<close>), panics, gives up the CPU in \<open>swtch\<close> (\<open>Swtch\<close>), spins on
  a lock that another CPU holds (\<open>Spins\<close>), or meets undefined behaviour of C (\<open>Undef\<close>). Routines are
  composed by \<open>bindk\<close>; loops are \<open>foreach\<close>, \<open>search\<close> or recursive functions with a termination
  proof. The state is a record extended theory by theory (\<open>kbase\<close>, \<open>kmem\<close>, \<open>bio\<close>, \<open>fs\<close>, \<open>console\<close>,
  \<open>files\<close>, \<open>vm\<close>, \<open>kern\<close>), so a routine mentions only the part it can touch. Machine words are
  \<open>8/16/32 word\<close>; memory and disk blocks are functions from addresses to bytes, with the C structures
  laid out in them. Pointers to table slots are indices. What \<open>sleep\<close> does once its process is
  scheduled again is a routine of its own (\<open>sleep_resume\<close>), since one process is followed at a time.

  \<^bold>\<open>The parts.\<close>
  \<^item> \<open>Spinlock\<close>, \<open>Proc_Core\<close>: \<open>kernel/spinlock.c\<close>; \<open>struct proc\<close>, \<open>sched\<close>, \<open>sleep\<close>, \<open>wakeup\<close>, \<open>kill\<close>
    of \<open>kernel/proc.c\<close>. \<open>nolocks\<close> says no lock is held; the rules in the collection \<open>exec\<close> run a
    routine symbolically from such a state.
  \<^item> \<open>Kalloc\<close> (\<open>kernel/kalloc.c\<close>): the free list threaded through the pages; \<open>free_pages\<close> is its list.
  \<^item> \<open>C_String\<close> (\<open>kernel/string.c\<close>, \<open>user/ulib.c\<close>).
  \<^item> \<open>Bio\<close> (\<open>kernel/bio.c\<close>, \<open>kernel/ide.c\<close>): the buffer cache, LRU list and request queue; \<open>bok\<close> is its
    invariant (a valid buffer that is not being written agrees with the disk).
  \<^item> \<open>Fs_Block\<close>, \<open>Fs_Inode\<close>, \<open>Fs_File\<close> (\<open>kernel/fs.c\<close>): bitmap, inodes, \<open>bmap\<close> and \<open>mbmap\<close>, \<open>readi\<close> and
    \<open>writei\<close> of ordinary and mirrored files, directories and paths.
  \<^item> \<open>Console\<close> (\<open>kernel/console.c\<close>), \<open>Pipe\<close> (\<open>kernel/pipe.c\<close>), \<open>File_Table\<close> (\<open>kernel/file.c\<close>), \<open>Sysfile\<close>
    (\<open>kernel/sysfile.c\<close> and the argument fetching of \<open>kernel/syscall.c\<close>).
  \<^item> \<open>Vm\<close> (\<open>kernel/vm.c\<close>), \<open>Proc\<close> (\<open>kernel/proc.c\<close>, \<open>kernel/sysproc.c\<close>), \<open>Exec_Trap\<close> (\<open>kernel/exec.c\<close>,
    \<open>kernel/syscall.c\<close>, \<open>kernel/trap.c\<close>), \<open>Boot\<close> (\<open>mainc\<close>, and the states used as concrete inputs).
  \<^item> \<open>Umalloc\<close>, \<open>Grep\<close>, \<open>Shell\<close> (\<open>user/umalloc.c\<close>, \<open>user/grep.c\<close>, \<open>user/sh.c\<close>): user programs, on
    their own state.
  \<^item> \<open>Mkfs\<close> (\<open>tools/mkfs.c\<close>): the builder of file system images, on the image as a function from sectors to blocks.
  \<^item> \<open>Rio\<close>, \<open>Web_Request\<close>, \<open>Web_Server\<close> (\<open>sever_client_system/\<close>: \<open>cs537.c\<close>, \<open>request.c\<close>, \<open>server.c\<close>): buffered
    reading from a descriptor, the answer to one request, and the threads of the server around the buffer
    of requests, one transition of \<open>wstep\<close> per call that another thread can observe.
  \<^item> \<open>Mysh\<close> (\<open>simple shell/mysh.c\<close>): what the shell does with one line, as the sequence of its system calls.
  \<^item> \<open>Random_Streams\<close> (\<open>simple shell/xv6/kernel/random.c\<close>) and \<open>Paradox\<close> (\<open>C practice and xv6 intro/paradox.c\<close>).
  \<^item> \<open>Keyboard\<close> (\<open>kernel/kbd.c\<close>, \<open>kbd.h\<close>), \<open>Mp\<close> (\<open>kernel/mp.c\<close>), \<open>Devices\<close> (\<open>picirq.c\<close>, \<open>ioapic.c\<close>, \<open>lapic.c\<close>, \<open>timer.c\<close>,
    \<open>uart.c\<close>, and \<open>bootothers\<close> of \<open>main.c\<close>), \<open>Boot_Loader\<close> (\<open>kernel/bootmain.c\<close>): what the drivers write to their
    devices, on a state of their own, and the loader on memory and drive.
  \<^item> \<open>Round_Robin\<close> (\<open>triple file system/kernel/proc.c\<close>): the scheduler of the kernels without lottery.
  \<^item> \<open>Shell_Run\<close> (\<open>user/sh.c\<close>): \<open>runcmd\<close> and the main loop, on tables of descriptors; \<open>User_Text\<close> (\<open>user/printf.c\<close>,
    \<open>user/wc.c\<close>).
  \<^item> \<open>Stack_Top\<close> (\<open>memory model and xv6 kernel modify/xv6/kernel/\<close>): the routines in which this kernel
    differs, with the stack at the top of the user memory.
  \<^item> \<open>Interfaces\<close>: the locales \<open>slot_table\<close> (a table searched for its first free slot: file table,
    process table) and \<open>ring\<close> (a buffer with two wrapping counters: pipes, console input), proved once
    and interpreted on the definitions of these parts; \<open>bounded_buffer\<close> in \<open>Web_Server\<close> is the contract of
    the request buffer, interpreted on \<open>put\<close> and \<open>get\<close>.

  \<^bold>\<open>What is shown.\<close>
  \<^item> \<open>Block_Props\<close>: the buffer cache refines the disk; \<open>balloc\<close> takes the lowest free block and marks it,
    \<open>bfree\<close> clears it, freeing twice panics; \<open>balloc\<close> can leave the device.
  \<^item> \<open>Contents\<close>, \<open>Mirror\<close>, \<open>Content_Props\<close>: a file as a function from offsets to bytes; \<open>readi\<close> returns
    what \<open>writei\<close> wrote, for ordinary and mirrored files; a mirrored write reaches three distinct
    blocks; a read repairs a copy that differs from two equal ones, except the third; three different
    copies are an error.
  \<^item> \<open>Inode_Props\<close>, \<open>Path_Props\<close>: the inode cache holds an inode once, inodes survive the disk, paths are
    cut into their words, \<open>dirlookup\<close> finds the first entry of a name.
  \<^item> \<open>Memory_Props\<close>, \<open>Page_Tables\<close>: \<open>kinit\<close>, \<open>kfree\<close> and \<open>kalloc\<close> on the list of free pages; page tables
    as a map from addresses to entries, which \<open>mappages\<close> extends by exactly its range.
  \<^item> \<open>File_Props\<close>: a pipe is a queue of bytes, closing both ends frees it, descriptors count their
    references, string arguments lie inside the process.
  \<^item> \<open>Proc_Props\<close>: process numbers are unique; which process a drawing of the lottery selects, with and
    without reservation; reservations; no wakeup is lost; \<open>kill(0)\<close>.
  \<^item> \<open>Umalloc\<close>: the ring of free blocks stays in order, \<open>malloc\<close> and \<open>free\<close> end and move exactly the bytes of
    the block between the free and the allocated memory. \<open>Grep\<close>: the matcher accepts what the pattern
    denotes. \<open>Shell\<close>: the parser ends, and the strings of a command are words of the line.
  \<^item> \<open>Mkfs\<close>: the bitmap of an image marks the blocks in use. \<open>Rio\<close>: a line is read the same however its
    bytes arrive. \<open>Web_Props\<close>: the threads exclude each other, no connection is lost or answered
    twice, some thread can always act, the smallest file is served first; a line buffer can be reused too
    early, and a request for an empty file ends the server.
  \<^item> \<open>Mysh\<close>: simple and redirected commands run as written, and which lines end the shell. \<open>Random_Streams\<close>: the
    arithmetic is multiplication modulo 2147483647 and does not overflow. \<open>Paradox\<close>: the estimate is 1 from 365
    persons on, and which results reach the output. \<open>Stack_Top\<close>: which buffers \<open>argptr\<close> accepts, and that a
    page fault extends the stack by exactly one page or kills the process.
  \<^item> \<open>Boot_Loader\<close>: the segments of a kernel in increasing order reach their addresses. \<open>Mp\<close>: the processors of a
    well-formed table are found, and an unknown entry makes the walk endless. \<open>Devices\<close>: which interrupt lines are
    open after the start, in both kinds of controllers, and that the other processors get stacks of their own.
    \<open>Keyboard\<close>: the range of characters and modifiers, and what letter keys give.
  \<^item> \<open>Round_Robin\<close>: no process starves. \<open>Shell_Run\<close>: the numbers of descriptors work out to what a command denotes.
    \<open>User_Text\<close>: \<open>atoi\<close> reads what \<open>printf\<close> writes, and \<open>wc\<close> counts independently of how \<open>read\<close> cuts the file.

  \<^bold>\<open>Bounds and fuel.\<close> Kernel loops need no fuel except \<open>copyout\<close>, which runs at most as many rounds as
  bytes. \<open>malloc\<close> and \<open>free\<close> take fuel, and the number of blocks in the ring (twice that and two more,
  for \<open>malloc\<close>) is proved enough; the shell parser takes fuel, and four times the length of the line and
  five more is proved enough; the walk of \<open>mpinit\<close> takes fuel, and 8192 rounds are proved enough for a table
  that has an end. File sizes and offsets are bounded as the code bounds them (\<open>MAXFILE\<close>).

  \<^bold>\<open>Not modelled.\<close> Output of \<open>cprintf\<close> for debugging; saved register contexts, segment descriptors and the
  task state; acknowledgements to the interrupt controllers and waiting for devices;
  two CPUs in the same routine at once (a lock held elsewhere is the outcome \<open>Spins\<close>); the copies of
  kernel and user programs in the other project trees, the test programs, and of the programs on top of
  POSIX the wrappers that only turn a failed system call into an exit.
\<close>

end
